(* ===== verification/Reduction_Prelude.thy ===== *)
theory Reduction_Prelude
  imports Complex_Main "HOL-Library.Word"
begin

section \<open>Prelude: results, loops, strings and machine integers\<close>

text \<open>
  What every component of the development shares.
  \<^item> \<open>result\<close>: Rust's \<open>Result\<close> as a sum, \<open>Inl\<close> the error; \<open>bind_res\<close> is the \<open>?\<close> operator and
    \<open>fold_res\<close> a \<open>for\<close> loop whose body may return early with an error.
  \<^item> Rust's \<open>str\<close> is a \<open>string\<close> of bytes (\<open>char\<close> is a byte in HOL), so \<open>length\<close> is \<open>str::len\<close>.
    Only the ASCII part of \<open>str::trim\<close> and of the case-insensitive comparisons is modelled: header
    values read through \<open>to_str\<close> are visible ASCII.
  \<^item> \<open>u8 \<dots> u64\<close> are words; the saturating operations are written out.
  \<^item> an \<open>Instant\<close> and a \<open>Duration\<close> are natural numbers of nanoseconds; \<open>elapsed\<close> is
    the truncated difference, as \<open>Instant::elapsed\<close> saturates at zero.
\<close>

named_theorems res_simps \<open>rewriting of results of fallible operations\<close>
named_theorems step_simps \<open>one-step behaviour of operations\<close>

type_synonym u8 = "8 word"
type_synonym u16 = "16 word"
type_synonym u32 = "32 word"
type_synonym u64 = "64 word"
type_synonym bytes = "u8 list"
type_synonym instant = nat
type_synonym duration = nat

subsection \<open>Results and early return\<close>

fun bind_res :: "'e + 'a \<Rightarrow> ('a \<Rightarrow> 'e + 'b) \<Rightarrow> 'e + 'b" where
  "bind_res (Inl e) f = Inl e"
| "bind_res (Inr a) f = f a"

lemma bind_res_Inr [res_simps]: "bind_res m f = Inr b \<longleftrightarrow> (\<exists>a. m = Inr a \<and> f a = Inr b)"
  by (cases m) auto

lemma bind_res_Inl [res_simps]:
  "bind_res m f = Inl e \<longleftrightarrow> m = Inl e \<or> (\<exists>a. m = Inr a \<and> f a = Inl e)"
  by (cases m) auto

fun fold_res :: "('s \<Rightarrow> 'x \<Rightarrow> 'e + 's) \<Rightarrow> 's \<Rightarrow> 'x list \<Rightarrow> 'e + 's" where
  "fold_res f s [] = Inr s"
| "fold_res f s (x # xs) = (case f s x of Inl e \<Rightarrow> Inl e | Inr s' \<Rightarrow> fold_res f s' xs)"

text \<open>A loop that only checks (its body changes nothing) succeeds iff every element passes.\<close>

definition check_all :: "('x \<Rightarrow> 'e option) \<Rightarrow> 'x list \<Rightarrow> 'e + unit" where
  "check_all p xs = fold_res (\<lambda>_ x. case p x of None \<Rightarrow> Inr () | Some e \<Rightarrow> Inl e) () xs"

lemma check_all_ok [res_simps]: "check_all p xs = Inr () \<longleftrightarrow> (\<forall>x \<in> set xs. p x = None)"
proof -
  have "fold_res (\<lambda>_ x. case p x of None \<Rightarrow> Inr () | Some e \<Rightarrow> Inl e) () xs = Inr ()
        \<longleftrightarrow> (\<forall>x \<in> set xs. p x = None)"
    by (induction xs) (auto split: option.splits)
  then show ?thesis by (simp add: check_all_def)
qed

lemma check_all_Nil [simp]: "check_all p [] = Inr ()"
  by (simp add: check_all_def)

lemma check_all_Cons [simp]:
  "check_all p (x # xs) = (case p x of None \<Rightarrow> check_all p xs | Some e \<Rightarrow> Inl e)"
  by (simp add: check_all_def split: option.split)

lemma fold_res_append:
  "fold_res f s (xs @ ys) = bind_res (fold_res f s xs) (\<lambda>s'. fold_res f s' ys)"
  by (induction xs arbitrary: s) (auto split: sum.splits)

lemma fold_res_invariant:
  assumes "fold_res f s xs = Inr s'" and "I s"
    and "\<And>s x t. x \<in> set xs \<Longrightarrow> I s \<Longrightarrow> f s x = Inr t \<Longrightarrow> I t"
  shows "I s'"
  using assms
proof (induction xs arbitrary: s)
  case Nil
  then show ?case by simp
next
  case (Cons x xs)
  from Cons.prems(1) obtain t where t: "f s x = Inr t" and rest: "fold_res f t xs = Inr s'"
    by (auto split: sum.splits)
  from Cons.prems(3) [of x s t] t Cons.prems(2) have "I t" by simp
  with rest Cons.prems(3) show ?case by (auto intro: Cons.IH)
qed

subsection \<open>Saturating arithmetic and time\<close>

definition saturating_add :: "'a::len word \<Rightarrow> 'a word \<Rightarrow> 'a word" where
  "saturating_add a b = (if unat a + unat b < 2 ^ LENGTH('a) then a + b else - 1)"

definition saturating_mul :: "'a::len word \<Rightarrow> 'a word \<Rightarrow> 'a word" where
  "saturating_mul a b = (if unat a * unat b < 2 ^ LENGTH('a) then a * b else - 1)"

lemma unat_max_word: "unat (- 1 :: 'a::len word) = 2 ^ LENGTH('a) - 1"
  by (simp add: unsigned_minus_1_eq_mask mask_eq_exp_minus_1)

lemma unat_saturating_add:
  "unat (saturating_add (a :: 'a::len word) b) = min (unat a + unat b) (2 ^ LENGTH('a) - 1)"
proof (cases "unat a + unat b < 2 ^ LENGTH('a)")
  case True
  then have "unat (a + b) = unat a + unat b"
    by (simp add: unat_word_ariths)
  with True show ?thesis by (simp add: saturating_add_def)
next
  case False
  then show ?thesis by (simp add: saturating_add_def unat_max_word)
qed

lemma unat_saturating_mul:
  "unat (saturating_mul (a :: 'a::len word) b) = min (unat a * unat b) (2 ^ LENGTH('a) - 1)"
proof (cases "unat a * unat b < 2 ^ LENGTH('a)")
  case True
  then have "unat (a * b) = unat a * unat b"
    by (simp add: unat_word_ariths)
  with True show ?thesis by (simp add: saturating_mul_def)
next
  case False
  then show ?thesis by (simp add: saturating_mul_def unat_max_word)
qed

lemma unat_add_one: "(x :: 'a::len word) < y \<Longrightarrow> unat (x + 1) = unat x + 1"
proof -
  assume "x < y"
  then have "unat x < unat y" by (simp add: word_less_nat_alt)
  also have "unat y < 2 ^ LENGTH('a)" by (rule unsigned_less)
  finally have "unat x + 1 < 2 ^ LENGTH('a) \<or> unat x + 1 = 2 ^ LENGTH('a)" by linarith
  moreover have "unat x + 1 \<noteq> 2 ^ LENGTH('a)"
    using \<open>unat x < unat y\<close> \<open>unat y < 2 ^ LENGTH('a)\<close> by linarith
  ultimately show ?thesis by (simp add: unat_word_ariths mod_simps)
qed

lemma unat_sub_one: "(x :: 'a::len word) \<noteq> 0 \<Longrightarrow> unat (x - 1) = unat x - 1"
  by (simp add: unat_sub_if_size unat_eq_zero word_le_nat_alt Suc_le_eq)

definition elapsed :: "instant \<Rightarrow> instant \<Rightarrow> duration" where
  "elapsed now t = now - t"

definition from_secs :: "nat \<Rightarrow> duration" where
  "from_secs s = s * 1000000000"

definition from_millis :: "nat \<Rightarrow> duration" where
  "from_millis ms = ms * 1000000"

subsection \<open>Strings\<close>

definition array_string_from :: "nat \<Rightarrow> string \<Rightarrow> string option" where
  "array_string_from cap s = (if length s \<le> cap then Some s else None)"

lemma array_string_from_fits [simp]: "length s \<le> cap \<Longrightarrow> array_string_from cap s = Some s"
  by (simp add: array_string_from_def)

lemma array_string_from_Some [simp]:
  "array_string_from cap s = Some t \<longleftrightarrow> t = s \<and> length s \<le> cap"
  by (auto simp: array_string_from_def)

lemma array_string_from_None [simp]: "array_string_from cap s = None \<longleftrightarrow> cap < length s"
  by (auto simp: array_string_from_def)

definition starts_with :: "string \<Rightarrow> string \<Rightarrow> bool" where
  "starts_with s p \<longleftrightarrow> take (length p) s = p"

definition ends_with :: "string \<Rightarrow> string \<Rightarrow> bool" where
  "ends_with s p \<longleftrightarrow> drop (length s - length p) s = p"

fun contains_str :: "string \<Rightarrow> string \<Rightarrow> bool" where
  "contains_str [] p = (p = [])"
| "contains_str (c # s) p = (starts_with (c # s) p \<or> contains_str s p)"

lemma starts_with_iff: "starts_with s p \<longleftrightarrow> (\<exists>r. s = p @ r)"
proof
  assume "starts_with s p"
  then have "s = p @ drop (length p) s"
    by (metis append_take_drop_id starts_with_def)
  then show "\<exists>r. s = p @ r" ..
qed (auto simp: starts_with_def)

lemma starts_with_refl [simp]: "starts_with s s"
  by (simp add: starts_with_def)

lemma starts_with_length: "starts_with s p \<Longrightarrow> length p \<le> length s"
  by (auto simp: starts_with_iff)

text \<open>\<open>str::split(char)\<close>: always at least one part, the separators removed.\<close>

fun split_on :: "char \<Rightarrow> string \<Rightarrow> string list" where
  "split_on c [] = [[]]"
| "split_on c (x # xs) =
     (if x = c then [] # split_on c xs
      else (case split_on c xs of [] \<Rightarrow> [[x]] | p # ps \<Rightarrow> (x # p) # ps))"

lemma split_on_nonempty [simp]: "split_on c s \<noteq> []"
  by (induction s) (auto split: list.splits)

lemma split_on_no_sep: "c \<notin> set s \<Longrightarrow> split_on c s = [s]"
  by (induction s) auto

lemma split_on_append_sep: "c \<notin> set s \<Longrightarrow> split_on c (s @ c # t) = s # split_on c t"
  by (induction s) (auto split: list.splits)

definition is_ascii_ws :: "char \<Rightarrow> bool" where
  "is_ascii_ws c \<longleftrightarrow> of_char c \<in> {9, 10, 11, 12, 13, 32 :: nat}"

definition trim :: "string \<Rightarrow> string" where
  "trim s = rev (dropWhile is_ascii_ws (rev (dropWhile is_ascii_ws s)))"

definition to_ascii_lower :: "char \<Rightarrow> char" where
  "to_ascii_lower c = (if of_char c \<in> {65..90 :: nat} then char_of (of_char c + 32 :: nat) else c)"

definition to_ascii_lowercase :: "string \<Rightarrow> string" where
  "to_ascii_lowercase s = map to_ascii_lower s"

definition eq_ignore_ascii_case :: "string \<Rightarrow> string \<Rightarrow> bool" where
  "eq_ignore_ascii_case a b \<longleftrightarrow> to_ascii_lowercase a = to_ascii_lowercase b"

lemma eq_ignore_ascii_case_refl [simp]: "eq_ignore_ascii_case s s"
  by (simp add: eq_ignore_ascii_case_def)

subsection \<open>Decimal numerals\<close>

definition digit_char :: "nat \<Rightarrow> char" where
  "digit_char d = char_of (48 + d)"

text \<open>The \<open>Display\<close> of an unsigned integer.\<close>

fun show_nat :: "nat \<Rightarrow> string" where
  "show_nat n = (if n < 10 then [digit_char n] else show_nat (n div 10) @ [digit_char (n mod 10)])"

declare show_nat.simps [simp del]

definition is_digit_char :: "char \<Rightarrow> bool" where
  "is_digit_char c \<longleftrightarrow> 48 \<le> (of_char c :: nat) \<and> (of_char c :: nat) \<le> 57"

definition digit_val :: "char \<Rightarrow> nat" where
  "digit_val c = of_char c - 48"

definition read_nat :: "string \<Rightarrow> nat" where
  "read_nat s = foldl (\<lambda>acc c. acc * 10 + digit_val c) 0 s"

text \<open>\<open>str::parse::<u64>\<close>: an optional plus sign, at least one digit, no overflow.\<close>

definition parse_unsigned :: "nat \<Rightarrow> string \<Rightarrow> nat option" where
  "parse_unsigned w s =
     (let ds = (case s of c # r \<Rightarrow> if c = CHR ''+'' then r else s | [] \<Rightarrow> s)
      in if ds = [] \<or> \<not> list_all is_digit_char ds then None
         else if read_nat ds < 2 ^ w then Some (read_nat ds) else None)"

lemma of_char_digit_char [simp]: "d < 10 \<Longrightarrow> (of_char (digit_char d) :: nat) = 48 + d"
  by (simp add: digit_char_def)

lemma digit_val_digit_char [simp]: "d < 10 \<Longrightarrow> digit_val (digit_char d) = d"
  by (simp add: digit_val_def)

lemma is_digit_digit_char [simp]: "d < 10 \<Longrightarrow> is_digit_char (digit_char d)"
  by (simp add: is_digit_char_def)

lemma show_nat_digits: "list_all is_digit_char (show_nat n)"
proof (induction n rule: show_nat.induct)
  case (1 n)
  then show ?case by (subst show_nat.simps) auto
qed

lemma show_nat_nonempty [simp]: "show_nat n \<noteq> []"
  by (subst show_nat.simps) simp

lemma read_nat_snoc: "read_nat (s @ [c]) = read_nat s * 10 + digit_val c"
  by (simp add: read_nat_def)

lemma read_show_nat [simp]: "read_nat (show_nat n) = n"
proof (induction n rule: show_nat.induct)
  case (1 n)
  show ?case
  proof (cases "n < 10")
    case True
    then show ?thesis by (subst show_nat.simps) (simp add: read_nat_def)
  next
    case False
    with "1.IH" show ?thesis by (subst show_nat.simps) (simp add: read_nat_snoc)
  qed
qed

lemma parse_show_nat: "n < 2 ^ w \<Longrightarrow> parse_unsigned w (show_nat n) = Some n"
proof -
  assume n: "n < 2 ^ w"
  have d: "list_all is_digit_char (show_nat n)" by (rule show_nat_digits)
  obtain c r where s: "show_nat n = c # r" by (cases "show_nat n") auto
  with d have "c \<noteq> CHR ''+''" by (auto simp: is_digit_char_def)
  with s have ds: "(case show_nat n of c # r \<Rightarrow> if c = CHR ''+'' then r else show_nat n | [] \<Rightarrow> show_nat n)
                   = show_nat n" by simp
  show ?thesis unfolding parse_unsigned_def Let_def ds using d n by simp
qed

text \<open>A decimal prefix ended by a non-digit can be read off in one way only.\<close>

lemma digits_split_unique:
  assumes "ds @ c # r = ds' @ c' # r'" and "list_all P ds" "list_all P ds'" and "\<not> P c" "\<not> P c'"
  shows "ds = ds' \<and> c = c' \<and> r = r'"
  using assms
proof (induction ds arbitrary: ds')
  case Nil
  then show ?case by (cases ds') auto
next
  case (Cons d ds)
  then show ?case by (cases ds') auto
qed

end
