(* ===== verification/Net.thy ===== *)
theory Net
  imports Reduction_Prelude
begin

section \<open>Addresses: \<open>std::net\<close> and CIDR blocks\<close>

text \<open>
  The part of \<open>std::net\<close> the program uses: \<open>IpAddr\<close> with its octets, the fold of IPv4-mapped IPv6
  addresses (\<open>to_canonical\<close>), the address classes and the textual form, and \<open>SocketAddr\<close> (flow
  information and scope of IPv6 sockets are never read by the program and left out). \<open>IpNet\<close> of the
  ipnet crate is the pair of an address and a prefix length per family; its \<open>contains\<close> is a parameter
  of the definitions that use it, and \<open>contains_doc\<close> its documented behaviour.
\<close>

unbundle bit_operations_syntax

datatype ip_addr = V4 "32 word" | V6 "128 word"

record socket_addr =
  sa_ip :: ip_addr
  sa_port :: u16

datatype ip_net = V4Net "32 word" u8 | V6Net "128 word" u8

text \<open>Big-endian bytes of a word, and back.\<close>

definition be_bytes :: "nat \<Rightarrow> 'a::len word \<Rightarrow> bytes" where
  "be_bytes n w = map (\<lambda>i. ucast (drop_bit (8 * (n - 1 - i)) w)) [0..<n]"

definition from_be_bytes :: "bytes \<Rightarrow> 'a::len word" where
  "from_be_bytes bs = foldl (\<lambda>acc b. push_bit 8 acc OR ucast b) 0 bs"

definition octets :: "ip_addr \<Rightarrow> bytes" where
  "octets ip = (case ip of V4 a \<Rightarrow> be_bytes 4 a | V6 a \<Rightarrow> be_bytes 16 a)"

definition to_ipv4_mapped :: "128 word \<Rightarrow> 32 word option" where
  "to_ipv4_mapped a = (if drop_bit 32 a = 0xffff then Some (ucast a) else None)"

definition to_ipv6_mapped :: "32 word \<Rightarrow> 128 word" where
  "to_ipv6_mapped a = push_bit 32 0xffff OR ucast a"

definition to_canonical :: "ip_addr \<Rightarrow> ip_addr" where
  "to_canonical ip = (case ip of V4 a \<Rightarrow> V4 a
     | V6 a \<Rightarrow> (case to_ipv4_mapped a of Some m \<Rightarrow> V4 m | None \<Rightarrow> V6 a))"

definition is_loopback :: "ip_addr \<Rightarrow> bool" where
  "is_loopback ip = (case ip of V4 a \<Rightarrow> drop_bit 24 a = 127 | V6 a \<Rightarrow> a = 1)"

definition v4_is_private :: "32 word \<Rightarrow> bool" where
  "v4_is_private a \<longleftrightarrow> drop_bit 24 a = 10 \<or> drop_bit 20 a = 0xac1 \<or> drop_bit 16 a = 0xc0a8"

definition v4_is_link_local :: "32 word \<Rightarrow> bool" where
  "v4_is_link_local a \<longleftrightarrow> drop_bit 16 a = 0xa9fe"

definition contains_doc :: "(ip_net \<Rightarrow> ip_addr \<Rightarrow> bool) \<Rightarrow> bool" where
  "contains_doc contains \<longleftrightarrow>
     (\<forall>a p b. p \<le> 32 \<longrightarrow> contains (V4Net a p) (V4 b) = (drop_bit (32 - unat p) a = drop_bit (32 - unat p) b)) \<and>
     (\<forall>a p b. p \<le> 128 \<longrightarrow> contains (V6Net a p) (V6 b) = (drop_bit (128 - unat p) a = drop_bit (128 - unat p) b)) \<and>
     (\<forall>a p b. \<not> contains (V4Net a p) (V6 b)) \<and> (\<forall>a p b. \<not> contains (V6Net a p) (V4 b))"

text \<open>A concrete function with the documented behaviour.\<close>

fun prefix_contains :: "ip_net \<Rightarrow> ip_addr \<Rightarrow> bool" where
  "prefix_contains (V4Net a p) (V4 b) = (drop_bit (32 - unat p) a = drop_bit (32 - unat p) b)"
| "prefix_contains (V6Net a p) (V6 b) = (drop_bit (128 - unat p) a = drop_bit (128 - unat p) b)"
| "prefix_contains _ _ = False"

subsection \<open>Textual form\<close>

definition hex_digit :: "nat \<Rightarrow> char" where
  "hex_digit d = (if d < 10 then char_of (48 + d) else char_of (87 + d))"

fun show_hex :: "nat \<Rightarrow> string" where
  "show_hex n = (if n < 16 then [hex_digit n] else show_hex (n div 16) @ [hex_digit (n mod 16)])"

declare show_hex.simps [simp del]

fun join_str :: "string \<Rightarrow> string list \<Rightarrow> string" where
  "join_str sep [] = []"
| "join_str sep [x] = x"
| "join_str sep (x # y # xs) = x @ sep @ join_str sep (y # xs)"

definition show_ipv4 :: "32 word \<Rightarrow> string" where
  "show_ipv4 a = join_str ''.'' (map (\<lambda>b. show_nat (unat b)) (be_bytes 4 a))"

definition segments :: "128 word \<Rightarrow> nat list" where
  "segments a = map (\<lambda>i. unat (ucast (drop_bit (16 * (7 - i)) a) :: u16)) [0..<8]"

text \<open>The longest run of zero segments (the first of equal ones), as start and length.\<close>

fun zero_runs :: "nat \<Rightarrow> nat \<times> nat \<Rightarrow> nat \<times> nat \<Rightarrow> nat list \<Rightarrow> nat \<times> nat" where
  "zero_runs i cur best [] = best"
| "zero_runs i cur best (s # ss) =
     (if s = 0 then
        (let cur' = (if snd cur = 0 then i else fst cur, snd cur + 1)
         in zero_runs (i + 1) cur' (if snd cur' > snd best then cur' else best) ss)
      else zero_runs (i + 1) (0, 0) best ss)"

definition show_ipv6 :: "128 word \<Rightarrow> string" where
  "show_ipv6 a =
     (case to_ipv4_mapped a of
        Some m \<Rightarrow> ''::ffff:'' @ show_ipv4 m
      | None \<Rightarrow>
        (let ss = segments a; (start, len) = zero_runs 0 (0, 0) (0, 0) ss
         in if len > 1
            then join_str '':'' (map show_hex (take start ss)) @ ''::'' @
                 join_str '':'' (map show_hex (drop (start + len) ss))
            else join_str '':'' (map show_hex ss)))"

definition show_ip :: "ip_addr \<Rightarrow> string" where
  "show_ip ip = (case ip of V4 a \<Rightarrow> show_ipv4 a | V6 a \<Rightarrow> show_ipv6 a)"

subsection \<open>Canonical addresses\<close>

lemma ucast_push_or: "ucast (push_bit 32 h OR ucast m :: 128 word) = (m :: 32 word)"
  by (rule bit_word_eqI) (auto simp: bit_simps)

lemma to_ipv4_mapped_Some: "to_ipv4_mapped a = Some m \<longleftrightarrow> a = to_ipv6_mapped m"
proof
  assume "to_ipv4_mapped a = Some m"
  then have hi: "drop_bit 32 a = 0xffff" and lo: "m = ucast a"
    by (auto simp: to_ipv4_mapped_def split: if_splits)
  have "a = push_bit 32 (drop_bit 32 a) OR take_bit 32 a"
    by (rule bit_word_eqI) (auto simp: bit_simps)
  also have "take_bit 32 a = ucast m"
    by (rule bit_word_eqI) (auto simp: lo bit_simps)
  finally show "a = to_ipv6_mapped m" by (simp add: hi to_ipv6_mapped_def)
next
  assume "a = to_ipv6_mapped m"
  moreover have "drop_bit 32 (to_ipv6_mapped m) = 0xffff"
    unfolding to_ipv6_mapped_def
    by (rule bit_word_eqI) (auto simp: bit_simps dest: bit_imp_le_length)
  moreover have "ucast (to_ipv6_mapped m) = m"
    unfolding to_ipv6_mapped_def by (rule ucast_push_or)
  ultimately show "to_ipv4_mapped a = Some m" by (simp add: to_ipv4_mapped_def)
qed

lemma to_canonical_simps [simp]:
  "to_canonical (V4 a) = V4 a"
  "to_canonical (V6 (to_ipv6_mapped a)) = V4 a"
  using to_ipv4_mapped_Some [of "to_ipv6_mapped a" a] by (simp_all add: to_canonical_def)

lemma to_canonical_idem [simp]: "to_canonical (to_canonical ip) = to_canonical ip"
  by (cases ip) (auto simp: to_canonical_def split: option.splits)

lemma to_canonical_V6: "to_canonical ip = V6 b \<Longrightarrow> ip = V6 b \<and> to_ipv4_mapped b = None"
  by (cases ip) (auto simp: to_canonical_def split: option.splits)

lemma prefix_contains_doc: "contains_doc prefix_contains"
  by (simp add: contains_doc_def)

end
