(* ===== verification/F64.thy ===== *)
theory F64
  imports Reduction_Prelude
begin

section \<open>Rust's \<open>f64\<close>: IEEE 754 binary64 with round-half-even\<close>

text \<open>
  The balancer and the health state compute weights in \<open>f64\<close>. A value is a NaN, an infinity or a
  finite real; arithmetic is exact on reals followed by \<open>f64_fin\<close>, which rounds to 53 significant
  bits (fewer below the normal range) and overflows to an infinity. There is one zero: no
  computation of the modelled code divides by a negative zero or observes its sign.
  \<open>representable\<close> says that a value is one of the format (parsed weights are).
\<close>

datatype f64 = NaN | NegInf | Fin real | PosInf

definition round_half_even :: "real \<Rightarrow> int" where
  "round_half_even r =
     (let n = \<lfloor>r\<rfloor>; d = r - of_int n
      in if d < 1 / 2 \<or> (d = 1 / 2 \<and> even n) then n else n + 1)"

definition ulp_exp :: "real \<Rightarrow> int" where
  "ulp_exp x = max (\<lfloor>log 2 \<bar>x\<bar>\<rfloor> - 52) (- 1074)"

definition f64_round :: "real \<Rightarrow> real" where
  "f64_round x = (if x = 0 then 0
     else of_int (round_half_even (x / 2 powr real_of_int (ulp_exp x))) * 2 powr real_of_int (ulp_exp x))"

definition f64_fin :: "real \<Rightarrow> f64" where
  "f64_fin x = (if 2 ^ 1024 \<le> f64_round x then PosInf
     else if f64_round x \<le> - (2 ^ 1024) then NegInf else Fin (f64_round x))"

definition real_representable :: "real \<Rightarrow> bool" where
  "real_representable x \<longleftrightarrow> f64_round x = x \<and> \<bar>x\<bar> < 2 ^ 1024"

fun f64_neg :: "f64 \<Rightarrow> f64" where
  "f64_neg NaN = NaN"
| "f64_neg NegInf = PosInf"
| "f64_neg PosInf = NegInf"
| "f64_neg (Fin x) = Fin (- x)"

fun f64_add :: "f64 \<Rightarrow> f64 \<Rightarrow> f64" where
  "f64_add (Fin x) (Fin y) = f64_fin (x + y)"
| "f64_add NaN _ = NaN"
| "f64_add _ NaN = NaN"
| "f64_add PosInf NegInf = NaN"
| "f64_add NegInf PosInf = NaN"
| "f64_add PosInf _ = PosInf"
| "f64_add _ PosInf = PosInf"
| "f64_add NegInf _ = NegInf"
| "f64_add _ NegInf = NegInf"

definition f64_sub :: "f64 \<Rightarrow> f64 \<Rightarrow> f64" where
  "f64_sub a b = f64_add a (f64_neg b)"

definition inf_signed :: "bool \<Rightarrow> f64" where
  "inf_signed pos = (if pos then PosInf else NegInf)"

fun f64_mul :: "f64 \<Rightarrow> f64 \<Rightarrow> f64" where
  "f64_mul (Fin x) (Fin y) = f64_fin (x * y)"
| "f64_mul NaN _ = NaN"
| "f64_mul _ NaN = NaN"
| "f64_mul PosInf PosInf = PosInf"
| "f64_mul PosInf NegInf = NegInf"
| "f64_mul NegInf PosInf = NegInf"
| "f64_mul NegInf NegInf = PosInf"
| "f64_mul PosInf (Fin y) = (if y = 0 then NaN else inf_signed (0 < y))"
| "f64_mul (Fin x) PosInf = (if x = 0 then NaN else inf_signed (0 < x))"
| "f64_mul NegInf (Fin y) = (if y = 0 then NaN else inf_signed (y < 0))"
| "f64_mul (Fin x) NegInf = (if x = 0 then NaN else inf_signed (x < 0))"

fun f64_div :: "f64 \<Rightarrow> f64 \<Rightarrow> f64" where
  "f64_div (Fin x) (Fin y) =
     (if y \<noteq> 0 then f64_fin (x / y) else if x = 0 then NaN else inf_signed (0 < x))"
| "f64_div NaN _ = NaN"
| "f64_div _ NaN = NaN"
| "f64_div (Fin x) _ = Fin 0"
| "f64_div PosInf (Fin y) = inf_signed (0 \<le> y)"
| "f64_div NegInf (Fin y) = inf_signed (y < 0)"
| "f64_div _ _ = NaN"

text \<open>IEEE comparisons: every comparison with a NaN is false.\<close>

fun f64_lt :: "f64 \<Rightarrow> f64 \<Rightarrow> bool" where
  "f64_lt (Fin x) (Fin y) = (x < y)"
| "f64_lt NaN _ = False"
| "f64_lt _ NaN = False"
| "f64_lt NegInf b = (b \<noteq> NegInf)"
| "f64_lt a PosInf = (a \<noteq> PosInf)"
| "f64_lt _ _ = False"

definition f64_le :: "f64 \<Rightarrow> f64 \<Rightarrow> bool" where
  "f64_le a b \<longleftrightarrow> f64_lt a b \<or> (a = b \<and> a \<noteq> NaN)"

definition f64_is_nan :: "f64 \<Rightarrow> bool" where
  "f64_is_nan a \<longleftrightarrow> a = NaN"

definition f64_is_infinite :: "f64 \<Rightarrow> bool" where
  "f64_is_infinite a \<longleftrightarrow> a = PosInf \<or> a = NegInf"

text \<open>\<open>f64::clamp\<close>: NaN stays NaN.\<close>

definition f64_clamp :: "f64 \<Rightarrow> f64 \<Rightarrow> f64 \<Rightarrow> f64" where
  "f64_clamp x lo hi = (if f64_lt x lo then lo else if f64_lt hi x then hi else x)"

definition f64_of_nat :: "nat \<Rightarrow> f64" where
  "f64_of_nat n = f64_fin (real n)"

fun representable :: "f64 \<Rightarrow> bool" where
  "representable (Fin x) = real_representable x"
| "representable _ = True"

subsection \<open>Rounding to an integer\<close>

lemma round_half_even_int [simp]: "round_half_even (of_int n) = n"
  by (simp add: round_half_even_def)

lemma round_half_even_bounds: "\<lfloor>r\<rfloor> \<le> round_half_even r" "round_half_even r \<le> \<lceil>r\<rceil>"
proof -
  show "\<lfloor>r\<rfloor> \<le> round_half_even r" by (simp add: round_half_even_def Let_def)
  show "round_half_even r \<le> \<lceil>r\<rceil>"
  proof (cases "r = of_int \<lfloor>r\<rfloor>")
    case True
    then show ?thesis by (metis ceiling_of_int order_refl round_half_even_int)
  next
    case False
    then have "\<lceil>r\<rceil> = \<lfloor>r\<rfloor> + 1" by (metis ceiling_altdef)
    then show ?thesis by (simp add: round_half_even_def Let_def)
  qed
qed

lemma round_half_even_le: "r \<le> of_int n \<Longrightarrow> round_half_even r \<le> n"
  using round_half_even_bounds(2) [of r] by (simp add: ceiling_le_iff order_trans)

lemma round_half_even_ge: "of_int n \<le> r \<Longrightarrow> n \<le> round_half_even r"
  using round_half_even_bounds(1) [of r] by (metis le_floor_iff order_trans)

subsection \<open>Rounding to the format\<close>

lemma powr_int_split:
  "e \<le> f \<Longrightarrow> (2::real) powr real_of_int f = of_int (2 ^ nat (f - e)) * 2 powr real_of_int e"
  by (simp add: powr_realpow [symmetric] powr_add [symmetric])

lemma f64_round_multiple:
  assumes "x = of_int m * 2 powr real_of_int (ulp_exp x)"
  shows "f64_round x = x"
proof (cases "x = 0")
  case False
  from assms have "x / 2 powr real_of_int (ulp_exp x) = of_int m"
    by (simp add: divide_eq_eq)
  with False assms show ?thesis by (simp add: f64_round_def)
qed (simp add: f64_round_def)

lemma ulp_exp_mono: "0 < x \<Longrightarrow> x \<le> y \<Longrightarrow> ulp_exp x \<le> ulp_exp y"
proof -
  assume x: "0 < x" and y: "x \<le> y"
  then have "log 2 \<bar>x\<bar> \<le> log 2 \<bar>y\<bar>" by simp
  then have "\<lfloor>log 2 \<bar>x\<bar>\<rfloor> \<le> \<lfloor>log 2 \<bar>y\<bar>\<rfloor>" by (rule floor_mono)
  then show ?thesis by (simp add: ulp_exp_def)
qed

lemma f64_round_nonneg: "0 \<le> x \<Longrightarrow> 0 \<le> f64_round x"
  using round_half_even_ge [of 0 "x / 2 powr real_of_int (ulp_exp x)"] by (simp add: f64_round_def)

lemma f64_round_le:
  assumes "0 \<le> x" and "x \<le> y" and "f64_round y = y"
  shows "f64_round x \<le> y"
proof (cases "x = 0")
  case True
  with assms show ?thesis by (simp add: f64_round_def)
next
  case False
  let ?ex = "ulp_exp x" and ?ey = "ulp_exp y"
  from False assms have pos: "0 < x" "0 < y" by auto
  define m where "m = round_half_even (y / 2 powr real_of_int ?ey)"
  have ym: "y = of_int m * 2 powr real_of_int ?ey"
    using assms(3) pos by (simp add: f64_round_def m_def)
  also have "\<dots> = of_int (m * 2 ^ nat (?ey - ?ex)) * 2 powr real_of_int ?ex"
    using powr_int_split [OF ulp_exp_mono [OF pos(1) assms(2)]] by simp
  finally have y: "y = of_int (m * 2 ^ nat (?ey - ?ex)) * 2 powr real_of_int ?ex" .
  have "x \<le> of_int (m * 2 ^ nat (?ey - ?ex)) * 2 powr real_of_int ?ex"
    using assms(2) by (simp only: y [symmetric])
  then have "x / 2 powr real_of_int ?ex \<le> of_int (m * 2 ^ nat (?ey - ?ex))"
    by (subst pos_divide_le_eq) simp_all
  then have "round_half_even (x / 2 powr real_of_int ?ex) \<le> m * 2 ^ nat (?ey - ?ex)"
    by (rule round_half_even_le)
  then have "real_of_int (round_half_even (x / 2 powr real_of_int ?ex))
             \<le> real_of_int (m * 2 ^ nat (?ey - ?ex))" by (simp only: of_int_le_iff)
  then have "real_of_int (round_half_even (x / 2 powr real_of_int ?ex)) * 2 powr real_of_int ?ex
             \<le> real_of_int (m * 2 ^ nat (?ey - ?ex)) * 2 powr real_of_int ?ex"
    by (rule mult_right_mono) simp
  then have "real_of_int (round_half_even (x / 2 powr real_of_int ?ex)) * 2 powr real_of_int ?ex \<le> y"
    by (subst y)
  with False show ?thesis by (simp add: f64_round_def)
qed

lemma real_lt_2_53: "n < 2 ^ 53 \<Longrightarrow> real n < 2 ^ 53"
proof -
  assume "n < 2 ^ 53"
  then have "real n < real (2 ^ 53)" by (simp only: of_nat_less_iff)
  then show ?thesis by simp
qed

lemma real_lt_2_1024: "n < 2 ^ 53 \<Longrightarrow> real n < 2 ^ 1024"
  by (rule less_trans [OF real_lt_2_53], assumption, rule power_strict_increasing) simp_all

lemma f64_round_nat [simp]:
  assumes "n < 2 ^ 53"
  shows "f64_round (real n) = real n"
proof (cases "n = 0")
  case False
  then have "log 2 (real n) < 53"
    using real_lt_2_53 [OF assms] by (subst log_less_iff) (simp_all add: powr_numeral)
  then have e: "ulp_exp (real n) \<le> 0"
    by (simp add: ulp_exp_def floor_le_iff)
  have "(1::real) = of_int (2 ^ nat (- ulp_exp (real n))) * 2 powr real_of_int (ulp_exp (real n))"
    using powr_int_split [OF e] by simp
  then have "real n = of_int (int n * 2 ^ nat (- ulp_exp (real n))) * 2 powr real_of_int (ulp_exp (real n))"
    by (metis (no_types, lifting) mult.assoc mult.right_neutral of_int_mult of_int_of_nat_eq)
  then show ?thesis by (rule f64_round_multiple)
qed (simp add: f64_round_def)

lemma f64_round_0_1 [simp]: "f64_round 0 = 0" "f64_round 1 = 1"
  using f64_round_nat [of 0] f64_round_nat [of 1] by simp_all

lemma f64_fin_nat [simp]: "n < 2 ^ 53 \<Longrightarrow> f64_fin (real n) = Fin (real n)"
proof -
  assume n: "n < 2 ^ 53"
  then have "real n < 2 ^ 1024" by (rule real_lt_2_1024)
  moreover have "- (2 ^ 1024) < real n" by (rule less_le_trans [of _ 0]) simp_all
  ultimately show ?thesis
    unfolding f64_fin_def f64_round_nat [OF n] by (simp only: not_le [symmetric] if_False)
qed

lemma f64_fin_bounded:
  assumes "0 \<le> x" "x \<le> y" "real_representable y"
  shows "\<exists>z. f64_fin x = Fin z \<and> 0 \<le> z \<and> z \<le> y"
proof -
  have r: "0 \<le> f64_round x" "f64_round x \<le> y"
    using assms by (simp_all add: f64_round_nonneg f64_round_le real_representable_def)
  moreover from r assms(3) have "f64_round x < 2 ^ 1024" by (simp add: real_representable_def)
  ultimately show ?thesis by (simp add: f64_fin_def)
qed

lemma real_representable_0_1 [simp]: "real_representable 0" "real_representable 1"
  by (simp_all add: real_representable_def)

lemma real_representable_nat: "n < 2 ^ 53 \<Longrightarrow> real_representable (real n)"
proof -
  assume n: "n < 2 ^ 53"
  then have "real n < 2 ^ 1024" by (rule real_lt_2_1024)
  with n show ?thesis by (simp add: real_representable_def)
qed

subsection \<open>Factors in the unit interval\<close>

definition unit_f64 :: "f64 \<Rightarrow> bool" where
  "unit_f64 a \<longleftrightarrow> (\<exists>x. a = Fin x \<and> 0 \<le> x \<and> x \<le> 1)"

lemma unit_f64_Fin [simp]: "unit_f64 (Fin x) \<longleftrightarrow> 0 \<le> x \<and> x \<le> 1"
  by (simp add: unit_f64_def)

lemma clamp_unit: "a \<noteq> NaN \<Longrightarrow> unit_f64 (f64_clamp a (Fin 0) (Fin 1))"
  by (cases a) (auto simp: f64_clamp_def)

lemma one_minus_unit: "unit_f64 a \<Longrightarrow> unit_f64 (f64_sub (Fin 1) a)"
  using f64_fin_bounded [of "1 - x" 1 for x]
  by (auto simp: unit_f64_def f64_sub_def)

lemma mul_unit: "unit_f64 a \<Longrightarrow> unit_f64 b \<Longrightarrow> unit_f64 (f64_mul a b)"
proof -
  assume "unit_f64 a" "unit_f64 b"
  then obtain x y where x: "a = Fin x" "0 \<le> x" "x \<le> 1" and y: "b = Fin y" "0 \<le> y" "y \<le> 1"
    by (auto simp: unit_f64_def)
  then have "0 \<le> x * y" "x * y \<le> 1" by (simp_all add: mult_le_one)
  from f64_fin_bounded [OF this] show ?thesis by (auto simp: x(1) y(1) unit_f64_def)
qed

text \<open>Scaling a finite non-negative value by a unit factor never grows past a representable bound.\<close>

lemma mul_by_unit:
  assumes "0 \<le> x" "x \<le> w" "real_representable w" "unit_f64 u"
  shows "\<exists>z. f64_mul (Fin x) u = Fin z \<and> 0 \<le> z \<and> z \<le> w"
proof -
  from assms(4) obtain y where y: "u = Fin y" "0 \<le> y" "y \<le> 1" by (auto simp: unit_f64_def)
  have "0 \<le> x * y" using assms(1) y by simp
  moreover have "x * y \<le> w" using assms(1,2) y(3) mult_left_le order_trans by blast
  ultimately show ?thesis using f64_fin_bounded assms(3) y(1) by auto
qed

subsection \<open>Powers of two and comparisons\<close>

lemma real_representable_pow2: "n < 1024 \<Longrightarrow> real_representable (2 ^ n)"
proof -
  assume n: "n < 1024"
  have "log 2 \<bar>2 ^ n\<bar> = real n" by simp
  then have e: "ulp_exp (2 ^ n) = int n - 52" by (simp add: ulp_exp_def)
  have "(2 :: real) ^ n = of_int (2 ^ 52) * 2 powr (real n - 52)"
    by (simp add: powr_diff powr_realpow)
  also have "real n - 52 = real_of_int (ulp_exp (2 ^ n))" by (simp add: e)
  finally have "f64_round (2 ^ n) = 2 ^ n" by (rule f64_round_multiple)
  moreover have "(2 :: real) ^ n < 2 ^ 1024" using n by (rule power_strict_increasing) simp
  ultimately show ?thesis unfolding real_representable_def by (simp only: abs_of_pos zero_less_power zero_less_numeral)
qed

lemma f64_round_ge1:
  assumes "1 \<le> x"
  shows "1 \<le> f64_round x"
proof -
  define e where "e = \<lfloor>log 2 x\<rfloor>"
  have e0: "0 \<le> e" using assms by (simp add: e_def)
  have u: "ulp_exp x = e - 52" using assms e0 by (simp add: ulp_exp_def e_def)
  have "2 powr real_of_int e \<le> 2 powr (log 2 x)" by (simp add: e_def)
  then have lo: "2 powr real_of_int e \<le> x" using assms by simp
  have "2 powr real_of_int e = 2 powr 52 * 2 powr real_of_int (e - 52)"
    by (simp add: powr_diff)
  with lo have "real_of_int (2 ^ 52) \<le> x / 2 powr real_of_int (e - 52)"
    by (simp add: pos_le_divide_eq)
  then have "2 ^ 52 \<le> round_half_even (x / 2 powr real_of_int (e - 52))" by (rule round_half_even_ge)
  then have "real_of_int (2 ^ 52) \<le> real_of_int (round_half_even (x / 2 powr real_of_int (e - 52)))"
    by (simp only: of_int_le_iff)
  then have "real_of_int (2 ^ 52) * 2 powr real_of_int (e - 52)
      \<le> real_of_int (round_half_even (x / 2 powr real_of_int (e - 52))) * 2 powr real_of_int (e - 52)"
    by (rule mult_right_mono) simp
  moreover have "real_of_int (2 ^ 52) * 2 powr real_of_int (e - 52) = 2 powr real_of_int e"
    by (simp add: powr_diff)
  moreover have "1 \<le> 2 powr real_of_int e" using e0 by (simp add: ge_one_powr_ge_zero)
  ultimately have "1 \<le> real_of_int (round_half_even (x / 2 powr real_of_int (e - 52))) * 2 powr real_of_int (e - 52)"
    by linarith
  moreover have "x \<noteq> 0" using assms by auto
  ultimately show ?thesis by (simp only: f64_round_def u if_False)
qed

lemma f64_lt_irrefl [simp]: "\<not> f64_lt a a"
  by (cases a) auto

lemma f64_lt_trans: "f64_lt a b \<Longrightarrow> f64_lt b c \<Longrightarrow> f64_lt a c"
  by (cases a; cases b; cases c) auto

lemma f64_not_lt: "a \<noteq> NaN \<Longrightarrow> b \<noteq> NaN \<Longrightarrow> \<not> f64_lt a b \<longleftrightarrow> f64_le b a"
  by (cases a; cases b) (auto simp: f64_le_def)

lemma f64_le_trans: "f64_le a b \<Longrightarrow> f64_le b c \<Longrightarrow> f64_le a c"
  by (cases a; cases b; cases c) (auto simp: f64_le_def)

lemma f64_le_lt_trans: "f64_le a b \<Longrightarrow> f64_lt b c \<Longrightarrow> f64_lt a c"
  by (cases a; cases b; cases c) (auto simp: f64_le_def)

end
