(* ===== verification/Errors.thy ===== *)
theory Errors
  imports Net F64
begin

section \<open>The error type (\<open>error.rs\<close>)\<close>

text \<open>
  \<open>reduction_error\<close> has the constructors of \<open>ReductionError\<close>. The message of a \<open>Config\<close> or an
  \<open>Identity\<close> error is a value with one constructor per format string of the source, carrying the
  interpolated values; the other messages are strings, and errors of other crates (toml, rustls, io)
  are their text.
\<close>

datatype (plugins only: size code) config_error =
    MaxBackendsZero
  | MaxBackendsHard u32
  | MaxConnectionsZero
  | WeightNotFinite f64
  | WeightNegative f64
  | BackendIdTooLong string
  | PoolNameTooLong string
  | DefaultPoolTooLong string
  | BadBackendAddress string
  | ClientIdentityMissing string bool
  | AcmeCaMissing
  | AcmePersistEmpty
  | HealthCollidesMain socket_addr
  | HealthCollidesRedirect socket_addr
  | RedirectNoHost
  | RedirectNotBare string
  | RedirectCollidesMain socket_addr
  | PlainHttpOverQuic string
  | IngressNoBackends string
  | IngressNotQuic string string
  | IngressZeroCap string
  | IngressDatagramTooLarge string u32
  | IngressBatchTooSmall string u32 u32
  | IngressBatchTooLarge string u32
  | IngressDuplicateListen socket_addr
  | IngressNotPrivate string socket_addr
  | DuplicateBackendId string
  | PrefixNoSlash string
  | DuplicatePrefix string
  | RouteNoPool string string
  | RetryBaseAboveMax u64 u64
  | RateLimitZero
  | BackendCountAboveMax nat u32
  | BackendCountAboveHard nat
  | RevocationNeither nat
  | RevocationIdTooLong nat
  | RevocationSpkiLength nat nat
  | RevocationSpkiNonHex nat char
  | RevocationFileFailed string
  | AuthzUnknownBackend string
  | AuthzNoIdentity string
  | AuthzDuplicate string
  | AuthzSpkiLength string nat
  | AuthzSpkiNonHex string char
  | ConfigMessage string

datatype (plugins only: size code) identity_error =
    ParseLeafCert string
  | NoCommonName
  | CommonNameNotUtf8 string
  | CommonNameTooLong
  | SpkiHashLength
  | NoTlsPeerCertificate
  | NoQuicIdentity
  | QuicIdentityNotChain
  | QuicChainEmpty

datatype (plugins only: size code) reduction_error =
    Config config_error
  | ConfigParse string
  | Tls string
  | Identity identity_error
  | Io string
  | Transport string
  | BackendUnavailable
  | QueueFull
  | RateLimited
  | AccessDenied
  | Forward string
  | CircuitOpen string
  | ConnectTunnel string
  | Tunnel string
  | NoBackendSession string
  | Ingress string
  | Acme string

type_synonym 'a result = "reduction_error + 'a"

definition is_transport_miss :: "reduction_error \<Rightarrow> bool" where
  "is_transport_miss e = (case e of NoBackendSession _ \<Rightarrow> True | BackendUnavailable \<Rightarrow> True
     | Forward _ \<Rightarrow> True | _ \<Rightarrow> False)"

end
