(* ===== verification/Config_Types.thy ===== *)
theory Config_Types
  imports Errors
begin

section \<open>Configuration data (\<open>config/types.rs\<close> and \<open>config/types/\<close>)\<close>

text \<open>
  The sections of \<open>ReductionConfig\<close> as records, with their defaults and per-field validation. A
  \<open>NonZeroU32\<close> or \<open>NonZeroU64\<close> is the word; that it is not zero is a hypothesis where it matters. The \<open>acme\<close> feature is on. Reading TOML is serde's and
  toml's: \<open>backend_wire\<close> is what they deliver to the hand-written \<open>Deserialize\<close> of \<open>BackendConfig\<close>.
\<close>

subsection \<open>Sections (\<open>sections.rs\<close>)\<close>

record balancer_config =
  blc_queue_depth :: u32
  blc_drain_timeout_secs :: u64
  blc_max_backends :: u32

definition HARD_MAX_BACKENDS :: u32 where
  "HARD_MAX_BACKENDS = 256"

definition default_balancer_config :: balancer_config where
  "default_balancer_config =
     \<lparr>blc_queue_depth = 1000, blc_drain_timeout_secs = 30, blc_max_backends = 64\<rparr>"

definition validate_max_backends :: "u32 \<Rightarrow> config_error + unit" where
  "validate_max_backends n =
     (if n = 0 then Inl MaxBackendsZero
      else if n > HARD_MAX_BACKENDS then Inl (MaxBackendsHard n) else Inr ())"

record timeout_config =
  tc_connect_secs :: u64
  tc_handshake_secs :: u64
  tc_request_secs :: u64
  tc_response_idle_secs :: u64

definition default_timeout_config :: timeout_config where
  "default_timeout_config = \<lparr>tc_connect_secs = 5, tc_handshake_secs = 5, tc_request_secs = 30,
     tc_response_idle_secs = 60\<rparr>"

record rate_limit_config =
  rlc_requests_per_second :: u32
  rlc_retain_interval_secs :: u64

definition default_rate_limit_config :: rate_limit_config where
  "default_rate_limit_config = \<lparr>rlc_requests_per_second = - 1, rlc_retain_interval_secs = 300\<rparr>"

record access_control_config =
  acc_allow :: "ip_net list"
  acc_deny :: "ip_net list"

record tracing_config =
  trc_otlp_endpoint :: "string option"
  trc_sample_ratio :: f64

record proxy_config =
  pxc_max_response_body_bytes :: u32
  pxc_max_request_body_bytes :: u32
  pxc_h2_connections_per_backend :: u32
  pxc_max_idle_quic_per_host :: u32
  pxc_h2_stream_window :: u32
  pxc_h2_conn_window :: u32
  pxc_inline_compress_threshold :: u32
  pxc_quic_channel_capacity :: u32
  pxc_wake_timeout_secs :: u64

definition default_proxy_config :: proxy_config where
  "default_proxy_config = \<lparr>pxc_max_response_body_bytes = 10485760, pxc_max_request_body_bytes = 10485760,
     pxc_h2_connections_per_backend = 4, pxc_max_idle_quic_per_host = 16,
     pxc_h2_stream_window = 2097152, pxc_h2_conn_window = 4194304,
     pxc_inline_compress_threshold = 8192, pxc_quic_channel_capacity = 256,
     pxc_wake_timeout_secs = 30\<rparr>"

record compression_config =
  cpc_enabled :: bool
  cpc_level :: int
  cpc_min_bytes :: u32

record health_config =
  hlc_staleness_ttl_secs :: u64
  hlc_latency_threshold_ms :: u32

record circuit_breaker_config =
  cbc_failure_threshold :: u32
  cbc_recovery_timeout_secs :: u64
  cbc_half_open_max_requests :: u32

definition default_circuit_breaker_config :: circuit_breaker_config where
  "default_circuit_breaker_config = \<lparr>cbc_failure_threshold = 5, cbc_recovery_timeout_secs = 60,
     cbc_half_open_max_requests = 2\<rparr>"

record retry_config =
  rtc_max_retries :: u32
  rtc_base_delay_ms :: u64
  rtc_max_delay_ms :: u64
  rtc_jitter_ms :: u64

definition default_retry_config :: retry_config where
  "default_retry_config = \<lparr>rtc_max_retries = 2, rtc_base_delay_ms = 200, rtc_max_delay_ms = 2000,
     rtc_jitter_ms = 100\<rparr>"

record tunnel_config =
  tnc_enabled :: bool
  tnc_listen_address :: "socket_addr option"
  tnc_heartbeat_timeout_secs :: u64
  tnc_allowed_backend_ids :: "string list"
  tnc_max_sessions_per_backend :: u32
  tnc_registration_timeout_secs :: u64
  tnc_control_channel_capacity :: u32
  tnc_revocation_path :: "string option"
  tnc_max_total_sessions :: "u32 option"
  tnc_max_accepts_per_second_per_ip :: "u32 option"
  tnc_control_plane_health :: bool

definition default_tunnel_config :: tunnel_config where
  "default_tunnel_config = \<lparr>tnc_enabled = False, tnc_listen_address = None,
     tnc_heartbeat_timeout_secs = 45, tnc_allowed_backend_ids = [],
     tnc_max_sessions_per_backend = 8, tnc_registration_timeout_secs = 10,
     tnc_control_channel_capacity = 16, tnc_revocation_path = None,
     tnc_max_total_sessions = None, tnc_max_accepts_per_second_per_ip = None,
     tnc_control_plane_health = False\<rparr>"

record cache_config =
  cac_enabled :: bool
  cac_max_entries :: nat
  cac_max_entry_bytes :: nat
  cac_default_ttl_secs :: u64

definition default_cache_config :: cache_config where
  "default_cache_config = \<lparr>cac_enabled = False, cac_max_entries = 1000,
     cac_max_entry_bytes = 1048576, cac_default_ttl_secs = 60\<rparr>"

subsection \<open>Backends and routes (\<open>backend.rs\<close>)\<close>

datatype transport_kind = Tcp | Quic

datatype backend_scheme = Https | Http

definition is_plaintext :: "backend_scheme \<Rightarrow> bool" where
  "is_plaintext s = (case s of Http \<Rightarrow> True | Https \<Rightarrow> False)"

record route_config =
  rc_path_prefix :: string
  rc_backend_id :: string
  rc_timeout_secs :: "u64 option"

record backend_config =
  bc_id :: string
  bc_pool :: string
  bc_address :: socket_addr
  bc_host :: string
  bc_weight :: f64
  bc_transport :: transport_kind
  bc_scheme :: backend_scheme
  bc_max_connections :: u32
  bc_wakeable :: bool

record backend_wire =
  bw_id :: string
  bw_pool :: "string option"
  bw_host :: "string option"
  bw_address :: string
  bw_weight :: f64
  bw_transport :: transport_kind
  bw_scheme :: backend_scheme
  bw_max_connections :: u32
  bw_wakeable :: bool

definition DEFAULT_MAX_CONNECTIONS :: u32 where
  "DEFAULT_MAX_CONNECTIONS = 256"

definition backend_needs_client_tls :: "backend_config \<Rightarrow> bool" where
  "backend_needs_client_tls b \<longleftrightarrow> bc_transport b = Quic \<or> \<not> is_plaintext (bc_scheme b)"

definition validate_max_connections :: "u32 \<Rightarrow> config_error + unit" where
  "validate_max_connections n = (if n = 0 then Inl MaxConnectionsZero else Inr ())"

definition validate_weight :: "f64 \<Rightarrow> config_error + unit" where
  "validate_weight w =
     (if f64_is_nan w \<or> f64_is_infinite w then Inl (WeightNotFinite w)
      else if f64_lt w (Fin 0) then Inl (WeightNegative w) else Inr ())"

definition map_err :: "('e \<Rightarrow> 'f) \<Rightarrow> 'e + 'a \<Rightarrow> 'f + 'a" where
  "map_err f r = (case r of Inl e \<Rightarrow> Inl (f e) | Inr a \<Rightarrow> Inr a)"

definition ok_or :: "'e \<Rightarrow> 'a option \<Rightarrow> 'e + 'a" where
  "ok_or e x = (case x of None \<Rightarrow> Inl e | Some a \<Rightarrow> Inr a)"

definition backend_new :: "string \<Rightarrow> socket_addr \<Rightarrow> f64 \<Rightarrow> transport_kind \<Rightarrow> backend_config result" where
  "backend_new ident addr w tr =
     bind_res (map_err Config (validate_weight w)) (\<lambda>_.
     bind_res (ok_or (Config (BackendIdTooLong ident)) (array_string_from 256 ident)) (\<lambda>i.
     bind_res (ok_or (Config (DefaultPoolTooLong ident)) (array_string_from 32 i)) (\<lambda>p.
     Inr \<lparr>bc_id = i, bc_pool = p, bc_address = addr, bc_host = show_ip (sa_ip addr), bc_weight = w,
          bc_transport = tr, bc_scheme = Https, bc_max_connections = DEFAULT_MAX_CONNECTIONS,
          bc_wakeable = False\<rparr>)))"

definition with_pool :: "string \<Rightarrow> backend_config \<Rightarrow> backend_config result" where
  "with_pool p b = bind_res (ok_or (Config (PoolNameTooLong p)) (array_string_from 32 p))
     (\<lambda>q. Inr (b\<lparr>bc_pool := q\<rparr>))"

definition with_max_connections :: "u32 \<Rightarrow> backend_config \<Rightarrow> backend_config result" where
  "with_max_connections n b = bind_res (map_err Config (validate_max_connections n))
     (\<lambda>_. Inr (b\<lparr>bc_max_connections := n\<rparr>))"

text \<open>The hand-written \<open>Deserialize\<close>: \<open>parse_addr\<close> is the parser of the address field.\<close>

definition backend_deserialize ::
    "(string \<Rightarrow> socket_addr option) \<Rightarrow> backend_wire \<Rightarrow> config_error + backend_config" where
  "backend_deserialize parse_addr w =
     bind_res (ok_or (BadBackendAddress (bw_address w)) (parse_addr (bw_address w))) (\<lambda>addr.
     bind_res (validate_weight (bw_weight w)) (\<lambda>_.
     bind_res (validate_max_connections (bw_max_connections w)) (\<lambda>_.
     bind_res (ok_or (BackendIdTooLong (bw_id w)) (array_string_from 256 (bw_id w))) (\<lambda>i.
     bind_res (case bw_pool w of
         Some p \<Rightarrow> ok_or (PoolNameTooLong p) (array_string_from 32 p)
       | None \<Rightarrow> ok_or (DefaultPoolTooLong (bw_id w)) (array_string_from 32 i)) (\<lambda>p.
     Inr \<lparr>bc_id = i, bc_pool = p, bc_address = addr,
          bc_host = (case bw_host w of Some h \<Rightarrow> h | None \<Rightarrow> show_ip (sa_ip addr)),
          bc_weight = bw_weight w, bc_transport = bw_transport w, bc_scheme = bw_scheme w,
          bc_max_connections = bw_max_connections w, bc_wakeable = bw_wakeable w\<rparr>)))))"

subsection \<open>Ingress listeners (\<open>ingress.rs\<close>)\<close>

datatype ingress_protocol = UdpIngress | TcpIngress

record ingress_config =
  igc_id :: string
  igc_protocol :: ingress_protocol
  igc_listen :: socket_addr
  igc_workers :: u32
  igc_recv_buffer_bytes :: u32
  igc_max_datagram_bytes :: u32
  igc_backend_ids :: "string list"
  igc_batch_max_datagrams :: u32
  igc_batch_max_bytes :: u32
  igc_linger_ms :: u64
  igc_queue_depth_per_backend :: u32
  igc_max_connections :: "u32 option"
  igc_idle_timeout_secs :: "u64 option"

definition MAX_UDP_DATAGRAM_BYTES :: u32 where
  "MAX_UDP_DATAGRAM_BYTES = 65507"

definition default_ingress_config ::
    "string \<Rightarrow> ingress_protocol \<Rightarrow> socket_addr \<Rightarrow> string list \<Rightarrow> ingress_config" where
  "default_ingress_config ident proto listen ids =
     \<lparr>igc_id = ident, igc_protocol = proto, igc_listen = listen, igc_workers = 0,
      igc_recv_buffer_bytes = 8388608, igc_max_datagram_bytes = 8192, igc_backend_ids = ids,
      igc_batch_max_datagrams = 512, igc_batch_max_bytes = 61440, igc_linger_ms = 20,
      igc_queue_depth_per_backend = 4096, igc_max_connections = None, igc_idle_timeout_secs = None\<rparr>"

definition is_private_listen_addr :: "ip_addr \<Rightarrow> bool" where
  "is_private_listen_addr ip = (case ip of
     V4 a \<Rightarrow> v4_is_private a \<or> is_loopback ip \<or> v4_is_link_local a
   | V6 a \<Rightarrow> (let o0 = octets ip ! 0; o1 = octets ip ! 1
              in is_loopback ip \<or> o0 AND 0xfe = 0xfc \<or> (o0 = 0xfe \<and> o1 AND 0xc0 = 0x80)))"

subsection \<open>Listeners and TLS (\<open>listener.rs\<close>, \<open>tls_config.rs\<close>)\<close>

datatype client_auth_policy = Required | Optional | Disabled

definition allows_anonymous :: "client_auth_policy \<Rightarrow> bool" where
  "allows_anonymous p \<longleftrightarrow> p \<noteq> Required"

definition builds_verifier :: "client_auth_policy \<Rightarrow> bool" where
  "builds_verifier p \<longleftrightarrow> p \<noteq> Disabled"

definition is_mandatory :: "client_auth_policy \<Rightarrow> bool" where
  "is_mandatory p \<longleftrightarrow> p = Required"

record listen_config =
  lc_address :: socket_addr
  lc_transport :: transport_kind
  lc_client_auth :: client_auth_policy

record http_redirect_config =
  hrc_enabled :: bool
  hrc_listen :: socket_addr
  hrc_to_host :: string

record health_endpoint_config =
  hec_enabled :: bool
  hec_listen :: socket_addr

record tls_identity =
  tid_cert_path :: string
  tid_key_path :: string
  tid_ca_cert_path :: string
  tid_crl_path :: "string option"

record barrel_state_config =
  bsc_env_var :: string
  bsc_persist_command :: "string list"

record acme_tls_config =
  atc_domains :: "string list"
  atc_acme_email :: string
  atc_ca_cert_path :: "string option"
  atc_cache_dir :: string
  atc_staging :: bool
  atc_directory_url :: "string option"
  atc_directory_ca_cert :: "string option"
  atc_barrel_state :: "barrel_state_config option"

datatype server_tls_config = Manual tls_identity | AcmeServer acme_tls_config

record tls_config =
  tls_server :: server_tls_config
  tls_client :: "tls_identity option"

definition ca_cert_path :: "server_tls_config \<Rightarrow> string option" where
  "ca_cert_path s = (case s of Manual i \<Rightarrow> Some (tid_ca_cert_path i) | AcmeServer a \<Rightarrow> atc_ca_cert_path a)"

definition as_manual :: "server_tls_config \<Rightarrow> tls_identity option" where
  "as_manual s = (case s of Manual i \<Rightarrow> Some i | AcmeServer _ \<Rightarrow> None)"

subsection \<open>The configuration (\<open>types.rs\<close>)\<close>

record raw_relay_authz_entry =
  rae_backend_id :: string
  rae_allowed_cns :: "string list"
  rae_allowed_spkis :: "string list"

record reduction_config =
  cfg_listen :: listen_config
  cfg_tls :: tls_config
  cfg_backends :: "backend_config list"
  cfg_routes :: "route_config list"
  cfg_balancer :: balancer_config
  cfg_proxy :: proxy_config
  cfg_compression :: compression_config
  cfg_health :: health_config
  cfg_access :: access_control_config
  cfg_ratelimit :: rate_limit_config
  cfg_metrics :: "string option"
  cfg_circuit_breaker :: circuit_breaker_config
  cfg_timeouts :: timeout_config
  cfg_retry :: retry_config
  cfg_tracing :: tracing_config
  cfg_tunnel :: tunnel_config
  cfg_cache :: cache_config
  cfg_raw_relay_authz :: "raw_relay_authz_entry list"
  cfg_ingress :: "ingress_config list"
  cfg_http_redirect :: http_redirect_config
  cfg_health_endpoint :: health_endpoint_config

end
