(* ===== verification/Identity.thy ===== *)
theory Identity
  imports Config_Types
begin

section \<open>Peer identity, revocation and raw-relay authorisation\<close>

text \<open>
  \<open>tls/identity.rs\<close>, \<open>tunnel/revocation.rs\<close>, the load part of \<open>tunnel/revocation_reload.rs\<close> and
  \<open>proxy/raw_authz.rs\<close>. Parsing a certificate and SHA-256 are parameters: \<open>parse_x509\<close> delivers the
  subject's common names (each its text or the error of reading it) and the raw public key info. The hex
  forms of a key hash are written by \<open>spki_hex\<close> and read by two different functions of the code;
  the lemmas show that they agree.
\<close>

definition MAX_COMMON_NAME_LEN :: nat where "MAX_COMMON_NAME_LEN = 64"
definition SPKI_SHA256_LEN :: nat where "SPKI_SHA256_LEN = 32"
definition SPKI_HEX_LEN :: nat where "SPKI_HEX_LEN = SPKI_SHA256_LEN * 2"
definition MAX_BACKEND_ID_LEN :: nat where "MAX_BACKEND_ID_LEN = 256"

definition HEX_ALPHABET :: string where
  "HEX_ALPHABET = ''0123456789abcdef''"

record peer_identity =
  common_name :: string
  spki_sha256 :: bytes

record x509_certificate =
  x_common_names :: "(string + string) list"
  x_public_key_raw :: bytes

definition from_leaf_der ::
    "(bytes \<Rightarrow> string + x509_certificate) \<Rightarrow> (bytes \<Rightarrow> bytes) \<Rightarrow> bytes \<Rightarrow> peer_identity result" where
  "from_leaf_der parse_x509 sha256 der =
     bind_res (case parse_x509 der of Inl e \<Rightarrow> Inl (Identity (ParseLeafCert e)) | Inr c \<Rightarrow> Inr c) (\<lambda>cert.
     bind_res (case x_common_names cert of [] \<Rightarrow> Inl (Identity NoCommonName) | cn # _ \<Rightarrow> Inr cn) (\<lambda>cn_attr.
     bind_res (case cn_attr of Inl e \<Rightarrow> Inl (Identity (CommonNameNotUtf8 e)) | Inr s \<Rightarrow> Inr s) (\<lambda>cn_str.
     bind_res (case array_string_from MAX_COMMON_NAME_LEN cn_str of
         None \<Rightarrow> Inl (Identity CommonNameTooLong) | Some s \<Rightarrow> Inr s) (\<lambda>cn.
     bind_res (let h = sha256 (x_public_key_raw cert)
               in if length h = SPKI_SHA256_LEN then Inr h else Inl (Identity SpkiHashLength)) (\<lambda>h.
     Inr \<lparr>common_name = cn, spki_sha256 = h\<rparr>)))))"

text \<open>The peer's chain of a finished handshake; the leaf comes first.\<close>

definition from_tls_stream ::
    "(bytes \<Rightarrow> string + x509_certificate) \<Rightarrow> (bytes \<Rightarrow> bytes) \<Rightarrow> bytes list option \<Rightarrow> peer_identity result" where
  "from_tls_stream parse_x509 sha256 peer_certificates =
     (case peer_certificates of
        Some (leaf # _) \<Rightarrow> from_leaf_der parse_x509 sha256 leaf
      | _ \<Rightarrow> Inl (Identity NoTlsPeerCertificate))"

datatype quic_identity = QuicChain "bytes list" | QuicOther

definition from_quic_connection ::
    "(bytes \<Rightarrow> string + x509_certificate) \<Rightarrow> (bytes \<Rightarrow> bytes) \<Rightarrow> quic_identity option \<Rightarrow> peer_identity result" where
  "from_quic_connection parse_x509 sha256 ident =
     (case ident of
        None \<Rightarrow> Inl (Identity NoQuicIdentity)
      | Some QuicOther \<Rightarrow> Inl (Identity QuicIdentityNotChain)
      | Some (QuicChain []) \<Rightarrow> Inl (Identity QuicChainEmpty)
      | Some (QuicChain (leaf # _)) \<Rightarrow> from_leaf_der parse_x509 sha256 leaf)"

unbundle bit_operations_syntax

definition hex_byte :: "u8 \<Rightarrow> string" where
  "hex_byte b = [HEX_ALPHABET ! unat (drop_bit 4 b), HEX_ALPHABET ! unat (b AND 0x0f)]"

definition spki_hex :: "peer_identity \<Rightarrow> string" where
  "spki_hex p = concat (map hex_byte (spki_sha256 p))"

subsection \<open>Revocation\<close>

record revocation_entry =
  re_spki :: "string option"
  re_backend_id :: "string option"
  re_reason :: string

record revocation_set =
  rs_spki :: "bytes set"
  rs_backend_ids :: "string set"

definition revocation_empty :: revocation_set where
  "revocation_empty = \<lparr>rs_spki = {}, rs_backend_ids = {}\<rparr>"

definition is_revoked :: "revocation_set \<Rightarrow> peer_identity \<Rightarrow> bool" where
  "is_revoked r p \<longleftrightarrow> spki_sha256 p \<in> rs_spki r \<or> common_name p \<in> rs_backend_ids r"

definition hex_nibble :: "nat \<Rightarrow> char \<Rightarrow> config_error + u8" where
  "hex_nibble index c =
     (let b = (of_char c :: nat)
      in if 48 \<le> b \<and> b \<le> 57 then Inr (of_nat (b - 48))
         else if 97 \<le> b \<and> b \<le> 102 then Inr (of_nat (b - 97 + 10))
         else if 65 \<le> b \<and> b \<le> 70 then Inr (of_nat (b - 65 + 10))
         else Inl (RevocationSpkiNonHex index c))"

fun decode_pairs :: "nat \<Rightarrow> string \<Rightarrow> config_error + bytes" where
  "decode_pairs index (h # l # cs) =
     bind_res (hex_nibble index h) (\<lambda>hi. bind_res (hex_nibble index l) (\<lambda>lo.
     bind_res (decode_pairs index cs) (\<lambda>bs. Inr ((push_bit 4 hi OR lo) # bs))))"
| "decode_pairs index _ = Inr []"

definition decode_spki_hex :: "string \<Rightarrow> nat \<Rightarrow> config_error + bytes" where
  "decode_spki_hex hex index =
     (if length hex \<noteq> SPKI_HEX_LEN then Inl (RevocationSpkiLength index (length hex))
      else decode_pairs index hex)"

definition revocation_step :: "nat \<Rightarrow> revocation_set \<Rightarrow> revocation_entry \<Rightarrow> config_error + revocation_set" where
  "revocation_step index r e =
     (if re_spki e = None \<and> re_backend_id e = None then Inl (RevocationNeither index)
      else bind_res (case re_spki e of None \<Rightarrow> Inr r
             | Some hex \<Rightarrow> bind_res (decode_spki_hex hex index) (\<lambda>h. Inr (r\<lparr>rs_spki := insert h (rs_spki r)\<rparr>))) (\<lambda>r1.
           case re_backend_id e of None \<Rightarrow> Inr r1
             | Some i \<Rightarrow> (case array_string_from MAX_BACKEND_ID_LEN i of
                 None \<Rightarrow> Inl (RevocationIdTooLong index)
               | Some j \<Rightarrow> Inr (r1\<lparr>rs_backend_ids := insert j (rs_backend_ids r1)\<rparr>))))"

definition revocation_entries :: "revocation_entry list \<Rightarrow> config_error + revocation_set" where
  "revocation_entries es = fold_res (\<lambda>r (i, e). revocation_step i r e) revocation_empty (enumerate 0 es)"

definition revocation_parse ::
    "(string \<Rightarrow> string + revocation_entry list) \<Rightarrow> string \<Rightarrow> revocation_set result" where
  "revocation_parse from_str text =
     (case from_str text of Inl e \<Rightarrow> Inl (ConfigParse e)
      | Inr es \<Rightarrow> (case revocation_entries es of Inl e \<Rightarrow> Inl (Config e) | Inr r \<Rightarrow> Inr r))"

subsection \<open>Raw-relay authorisation\<close>

record backend_policy =
  bp_cns :: "string set"
  bp_spkis :: "string set"

type_synonym raw_relay_authz = "string \<Rightarrow> backend_policy option"

definition lower_hex :: "string \<Rightarrow> char \<Rightarrow> config_error + char" where
  "lower_hex backend_id c =
     (let b = (of_char c :: nat)
      in if (48 \<le> b \<and> b \<le> 57) \<or> (97 \<le> b \<and> b \<le> 102) then Inr c
         else if 65 \<le> b \<and> b \<le> 70 then Inr (char_of (b + 32))
         else Inl (AuthzSpkiNonHex backend_id c))"

definition normalize_spki_hex :: "string \<Rightarrow> string \<Rightarrow> config_error + string" where
  "normalize_spki_hex hex backend_id =
     (if length hex \<noteq> SPKI_HEX_LEN then Inl (AuthzSpkiLength backend_id (length hex))
      else fold_res (\<lambda>out c. bind_res (lower_hex backend_id c) (\<lambda>d. Inr (out @ [d]))) [] hex)"

definition authz_step ::
    "string set \<Rightarrow> raw_relay_authz \<Rightarrow> raw_relay_authz_entry \<Rightarrow> config_error + raw_relay_authz" where
  "authz_step known m e =
     (if rae_backend_id e \<notin> known then Inl (AuthzUnknownBackend (rae_backend_id e))
      else if rae_allowed_cns e = [] \<and> rae_allowed_spkis e = [] then Inl (AuthzNoIdentity (rae_backend_id e))
      else bind_res (fold_res (\<lambda>acc h. bind_res (normalize_spki_hex h (rae_backend_id e)) (\<lambda>n. Inr (insert n acc)))
             {} (rae_allowed_spkis e)) (\<lambda>spkis.
           if m (rae_backend_id e) \<noteq> None then Inl (AuthzDuplicate (rae_backend_id e))
           else Inr (m(rae_backend_id e \<mapsto> \<lparr>bp_cns = set (rae_allowed_cns e), bp_spkis = spkis\<rparr>))))"

definition authz_new :: "raw_relay_authz_entry list \<Rightarrow> string set \<Rightarrow> config_error + raw_relay_authz" where
  "authz_new entries known = fold_res (authz_step known) Map.empty entries"

definition is_allowed_raw :: "raw_relay_authz \<Rightarrow> string \<Rightarrow> peer_identity \<Rightarrow> bool" where
  "is_allowed_raw m backend_id p = (case m backend_id of None \<Rightarrow> False
     | Some pol \<Rightarrow> common_name p \<in> bp_cns pol \<or> spki_hex p \<in> bp_spkis pol)"

subsection \<open>Hex digits\<close>

lemma HEX_ALPHABET_map: "HEX_ALPHABET = map (\<lambda>n. if n < 10 then char_of (48 + n) else char_of (87 + n)) [0..<16 :: nat]"
  by code_simp

lemma HEX_ALPHABET_nth: "n < 16 \<Longrightarrow> HEX_ALPHABET ! n = (if n < 10 then char_of (48 + n) else char_of (87 + n))"
  by (simp add: HEX_ALPHABET_map)

definition hex_val :: "char \<Rightarrow> nat option" where
  "hex_val c = (let b = (of_char c :: nat)
      in if 48 \<le> b \<and> b \<le> 57 then Some (b - 48)
         else if 97 \<le> b \<and> b \<le> 102 then Some (b - 87)
         else if 65 \<le> b \<and> b \<le> 70 then Some (b - 55) else None)"

lemma hex_nibble_val: "hex_nibble i c = Inr v \<longleftrightarrow> (\<exists>n. hex_val c = Some n \<and> v = of_nat n)"
  by (auto simp: hex_nibble_def hex_val_def Let_def)

lemma hex_val_less: "hex_val c = Some n \<Longrightarrow> n < 16"
  by (auto simp: hex_val_def Let_def split: if_splits)

lemma lower_hex_val: "lower_hex b c = Inr d \<longleftrightarrow> (\<exists>n. hex_val c = Some n \<and> d = HEX_ALPHABET ! n)"
proof -
  have "(char_of (of_char c + 32 :: nat) :: char) = HEX_ALPHABET ! (of_char c - 55)"
    if "65 \<le> (of_char c :: nat)" "(of_char c :: nat) \<le> 70"
  proof -
    have "\<not> (of_char c :: nat) - 55 < 10" "(of_char c :: nat) - 55 < 16"
      "87 + ((of_char c :: nat) - 55) = of_char c + 32" using that by linarith+
    with HEX_ALPHABET_nth [of "of_char c - 55"] show ?thesis by simp
  qed
  moreover have "c = HEX_ALPHABET ! (of_char c - 48)" if "48 \<le> (of_char c :: nat)" "(of_char c :: nat) \<le> 57"
  proof -
    have "(of_char c :: nat) - 48 < 10" using that by linarith
    with that HEX_ALPHABET_nth [of "of_char c - 48"] show ?thesis by simp
  qed
  moreover have "c = HEX_ALPHABET ! (of_char c - 87)" if "97 \<le> (of_char c :: nat)" "(of_char c :: nat) \<le> 102"
  proof -
    have "\<not> (of_char c :: nat) - 87 < 10" "(of_char c :: nat) - 87 < 16" using that by linarith+
    with that HEX_ALPHABET_nth [of "of_char c - 87"] show ?thesis by simp
  qed
  ultimately show ?thesis by (auto simp: lower_hex_def hex_val_def Let_def)
qed

lemma hex_val_alphabet: "n < 16 \<Longrightarrow> hex_val (HEX_ALPHABET ! n) = Some n"
  by (simp add: HEX_ALPHABET_nth hex_val_def Let_def)

lemma low_nibble: "(b :: u8) AND 0x0f = take_bit 4 b"
  by (simp add: take_bit_eq_mask mask_eq_exp_minus_1)

lemma nibbles_of_byte: "push_bit 4 (drop_bit 4 b) OR (b AND 0x0f) = (b :: u8)"
  unfolding low_nibble by (rule bit_word_eqI) (auto simp: bit_simps)

lemma nibble_bounds: "unat (drop_bit 4 (b :: u8)) < 16" "unat (b AND 0x0f :: u8) < 16"
proof -
  have "unat b < 256" using unsigned_less [where 'a = nat, of b] by simp
  then have "unat b div 16 < 16" by linarith
  then show "unat (drop_bit 4 b) < 16" by (simp only: unsigned_drop_bit_eq) (simp add: drop_bit_eq_div take_bit_eq_mod)
  show "unat (b AND 0x0f) < 16"
    unfolding low_nibble by (simp only: unsigned_take_bit_eq) (simp add: take_bit_eq_mod)
qed

lemma nibbles_join:
  assumes "h < 16" "l < 16"
  shows "unat (drop_bit 4 (push_bit 4 (of_nat h) OR of_nat l :: u8)) = h"
    and "unat ((push_bit 4 (of_nat h) OR of_nat l :: u8) AND 0x0f) = l"
proof -
  have w: "unat (of_nat h :: u8) = h" "unat (of_nat l :: u8) = l"
    using assms by (simp_all add: unat_of_nat)
  have hi: "take_bit 4 (of_nat h :: u8) = of_nat h" "take_bit 4 (of_nat l :: u8) = of_nat l"
    using assms by (simp_all only: word_unat_eq_iff unsigned_take_bit_eq w) (simp_all add: take_bit_eq_mod)
  have "drop_bit 4 (push_bit 4 (of_nat h) OR of_nat l :: u8) = take_bit 4 (of_nat h)"
    by (subst hi(2) [symmetric], rule bit_word_eqI) (auto simp: bit_simps)
  then show "unat (drop_bit 4 (push_bit 4 (of_nat h) OR of_nat l :: u8)) = h" using hi(1) w(1) by simp
  have "take_bit 4 (push_bit 4 (of_nat h) OR of_nat l :: u8) = take_bit 4 (of_nat l)"
    by (rule bit_word_eqI) (auto simp: bit_simps)
  then show "unat ((push_bit 4 (of_nat h) OR of_nat l :: u8) AND 0x0f) = l"
    unfolding low_nibble using hi(2) w(2) by simp
qed

subsection \<open>Writing and reading a key hash\<close>

lemma hex_nibble_alphabet: "n < 16 \<Longrightarrow> hex_nibble i (HEX_ALPHABET ! n) = Inr (of_nat n)"
  by (simp add: hex_nibble_val hex_val_alphabet)

lemma decode_pairs_hex: "decode_pairs i (concat (map hex_byte bs)) = Inr bs"
  by (induction bs) (simp_all add: hex_byte_def hex_nibble_alphabet nibble_bounds nibbles_of_byte)

lemma length_hex: "length (concat (map hex_byte bs)) = 2 * length bs"
  by (induction bs) (simp_all add: hex_byte_def)

lemma decode_pairs_lower:
  "decode_pairs i cs = Inr bs \<Longrightarrow> even (length cs) \<Longrightarrow>
   map hex_val cs = map (\<lambda>c. hex_val c) (concat (map hex_byte bs)) \<and> list_all (\<lambda>c. hex_val c \<noteq> None) cs"
proof (induction i cs arbitrary: bs rule: decode_pairs.induct)
  case (1 index h l cs)
  from "1.prems"(1) obtain hi lo bs' where n: "hex_nibble index h = Inr hi" "hex_nibble index l = Inr lo"
      "decode_pairs index cs = Inr bs'" "bs = (push_bit 4 hi OR lo) # bs'"
    by (auto simp: res_simps)
  then obtain x y where x: "hex_val h = Some x" "hi = of_nat x" and y: "hex_val l = Some y" "lo = of_nat y"
    by (auto simp: hex_nibble_val)
  have b: "x < 16" "y < 16" using x y by (auto dest: hex_val_less)
  have "hex_byte (push_bit 4 hi OR lo) = [HEX_ALPHABET ! x, HEX_ALPHABET ! y]"
    by (simp only: hex_byte_def x(2) y(2) nibbles_join [OF b])
  then show ?case using "1.IH" [OF n(3)] "1.prems"(2) n(4) x y b
    by (simp add: hex_val_alphabet)
qed auto

lemma decode_total: "even (length cs) \<Longrightarrow> list_all (\<lambda>c. hex_val c \<noteq> None) cs \<Longrightarrow> \<exists>bs. decode_pairs i cs = Inr bs"
proof (induction i cs rule: decode_pairs.induct)
  case (1 index h l cs)
  then obtain x y where "hex_val h = Some x" "hex_val l = Some y" by auto
  then have "hex_nibble index h = Inr (of_nat x)" "hex_nibble index l = Inr (of_nat y)"
    by (simp_all add: hex_nibble_val)
  with 1 show ?case by auto
qed auto

lemma normalize_loop:
  "fold_res (\<lambda>out c. bind_res (lower_hex b c) (\<lambda>d. Inr (out @ [d]))) acc cs = Inr out \<longleftrightarrow>
   list_all (\<lambda>c. hex_val c \<noteq> None) cs \<and> out = acc @ map (\<lambda>c. HEX_ALPHABET ! the (hex_val c)) cs"
proof (induction cs arbitrary: acc)
  case (Cons c cs)
  show ?case
  proof (cases "hex_val c")
    case None
    then have "\<nexists>d. lower_hex b c = Inr d" by (simp add: lower_hex_val)
    then show ?thesis using None by (cases "lower_hex b c") auto
  next
    case (Some n)
    then have "lower_hex b c = Inr (HEX_ALPHABET ! n)" by (simp add: lower_hex_val)
    with Some Cons.IH show ?thesis by simp
  qed
qed auto

text \<open>
  The two readers agree: \<open>raw_authz\<close>'s normal form of a hex string is the writer's text of the hash that
  \<open>revocation\<close> decodes from it, in either letter case.
\<close>

lemma normalize_iff_decode:
  "normalize_spki_hex hex b = Inr out \<longleftrightarrow> (\<exists>bs. decode_spki_hex hex i = Inr bs \<and> out = concat (map hex_byte bs))"
proof (cases "length hex = SPKI_HEX_LEN")
  case True
  then have ev: "even (length hex)" by (simp add: SPKI_HEX_LEN_def)
  have hex_eq: "concat (map hex_byte bs) = map (\<lambda>c. HEX_ALPHABET ! the (hex_val c)) hex"
    if "decode_pairs i hex = Inr bs" for bs
  proof -
    from decode_pairs_lower [OF that ev]
    have m: "map hex_val hex = map hex_val (concat (map hex_byte bs))" by simp
    have "map (\<lambda>c. HEX_ALPHABET ! the (hex_val c)) cs = cs" if "set cs \<subseteq> (\<lambda>n. HEX_ALPHABET ! n) ` {..<16}" for cs
      using that by (induction cs) (auto simp: hex_val_alphabet)
    moreover have "set (concat (map hex_byte bs)) \<subseteq> (\<lambda>n. HEX_ALPHABET ! n) ` {..<16}"
      using nibble_bounds by (auto simp: hex_byte_def)
    ultimately have "concat (map hex_byte bs) = map (\<lambda>c. HEX_ALPHABET ! the (hex_val c)) (concat (map hex_byte bs))"
      by metis
    also have "\<dots> = map (\<lambda>v. HEX_ALPHABET ! the v) (map hex_val (concat (map hex_byte bs)))" by simp
    also have "\<dots> = map (\<lambda>c. HEX_ALPHABET ! the (hex_val c)) hex" by (simp add: m [symmetric])
    finally show ?thesis .
  qed
  show ?thesis
    using True hex_eq decode_total [OF ev, of i] decode_pairs_lower [OF _ ev, of i]
    unfolding normalize_spki_hex_def decode_spki_hex_def by (auto simp: normalize_loop)
qed (simp add: normalize_spki_hex_def decode_spki_hex_def)

lemma hex_inj: "concat (map hex_byte as) = concat (map hex_byte bs) \<Longrightarrow> as = bs"
  by (metis decode_pairs_hex sum.inject(2))

text \<open>
  The hex form of a key hash round trips: reading back what \<open>spki_hex\<close> writes for a 32-byte
  hash gives the hash, for the denylist reader and, as its own normal form, for the raw-relay reader.
\<close>
theorem spki_hex_roundtrip:
  assumes "length (spki_sha256 p) = SPKI_SHA256_LEN"
  shows "decode_spki_hex (spki_hex p) i = Inr (spki_sha256 p) \<and> normalize_spki_hex (spki_hex p) b = Inr (spki_hex p)"
proof -
  have "decode_spki_hex (spki_hex p) i = Inr (spki_sha256 p)" for i
    using assms by (simp add: decode_spki_hex_def spki_hex_def length_hex SPKI_HEX_LEN_def decode_pairs_hex)
  then show ?thesis using normalize_iff_decode [of "spki_hex p" b "spki_hex p" i] by (simp add: spki_hex_def)
qed

theorem spki_hex_roundtrip_witness:
  "decode_spki_hex (spki_hex \<lparr>common_name = ''d'', spki_sha256 = replicate 32 0xa7\<rparr>) 3 = Inr (replicate 32 0xa7)"
  using spki_hex_roundtrip [of "\<lparr>common_name = ''d'', spki_sha256 = replicate 32 0xa7\<rparr>" 3]
  by (simp add: SPKI_SHA256_LEN_def)

subsection \<open>What the denylist and the allowlist mean\<close>

lemma decode_index: "decode_spki_hex h i = Inr bs \<Longrightarrow> decode_spki_hex h j = Inr bs"
  using normalize_iff_decode [of h b "concat (map hex_byte bs)" i for b]
    normalize_iff_decode [of h b "concat (map hex_byte bs)" j for b] hex_inj by blast

definition names_revoked :: "revocation_entry \<Rightarrow> peer_identity \<Rightarrow> bool" where
  "names_revoked e p \<longleftrightarrow> (\<exists>h. re_spki e = Some h \<and> decode_spki_hex h 0 = Inr (spki_sha256 p))
     \<or> re_backend_id e = Some (common_name p)"

lemma revocation_step_revoked:
  assumes "revocation_step i r e = Inr r'"
  shows "is_revoked r' p \<longleftrightarrow> is_revoked r p \<or> names_revoked e p"
proof -
  have d: "decode_spki_hex h i = Inr bs \<Longrightarrow> decode_spki_hex h 0 = Inr bs" for h bs by (rule decode_index)
  from assms d show ?thesis
    by (cases "re_spki e"; cases "re_backend_id e")
       (auto simp: revocation_step_def res_simps is_revoked_def names_revoked_def split: option.splits)
qed

lemma revocation_fold_revoked:
  "fold_res (\<lambda>r (i, e). revocation_step i r e) r (enumerate n es) = Inr r' \<Longrightarrow>
   is_revoked r' p \<longleftrightarrow> is_revoked r p \<or> (\<exists>e \<in> set es. names_revoked e p)"
proof (induction es arbitrary: r n)
  case (Cons e es)
  then obtain r1 where r1: "revocation_step n r e = Inr r1"
      "fold_res (\<lambda>r (i, e). revocation_step i r e) r1 (enumerate (Suc n) es) = Inr r'"
    by (auto split: sum.splits)
  from Cons.IH [OF r1(2)] revocation_step_revoked [OF r1(1)] show ?case by auto
qed simp

text \<open>
  Claim C26. A denylist that parses revokes exactly the identities it names: a peer is revoked if and only
  if some entry's hex decodes to its key hash or some entry's \<open>backend_id\<close> is its certificate's common
  name. No entry is dropped silently.
\<close>
theorem revocation_exact:
  assumes "revocation_parse from_str text = Inr r"
  shows "\<exists>es. from_str text = Inr es \<and>
     (\<forall>p. is_revoked r p = (\<exists>e \<in> set es. names_revoked e p))"
proof -
  from assms obtain es where es: "from_str text = Inr es" "revocation_entries es = Inr r"
    by (auto simp: revocation_parse_def split: sum.splits)
  from es(2) have "is_revoked r p = (\<exists>e \<in> set es. names_revoked e p)" for p
    using revocation_fold_revoked [of revocation_empty 0 es r p]
    by (simp add: revocation_entries_def is_revoked_def revocation_empty_def)
  with es(1) show ?thesis by blast
qed

theorem revocation_exact_witness:
  "\<exists>r. revocation_parse (\<lambda>_. Inr [\<lparr>re_spki = None, re_backend_id = Some ''dev-7'', re_reason = ''lost''\<rparr>]) ''x'' = Inr r
     \<and> is_revoked r \<lparr>common_name = ''dev-7'', spki_sha256 = []\<rparr>"
proof -
  let ?f = "\<lambda>_ :: string. Inr [\<lparr>re_spki = None, re_backend_id = Some ''dev-7'', re_reason = ''lost''\<rparr>]
    :: string + revocation_entry list"
  let ?r = "revocation_empty\<lparr>rs_backend_ids := {''dev-7''}\<rparr>"
  have p: "revocation_parse ?f ''x'' = Inr ?r"
    by (simp add: revocation_parse_def revocation_entries_def revocation_step_def revocation_empty_def
        MAX_BACKEND_ID_LEN_def)
  from revocation_exact [OF p] have "is_revoked ?r \<lparr>common_name = ''dev-7'', spki_sha256 = []\<rparr>"
    by (auto simp: names_revoked_def)
  with p show ?thesis by blast
qed

lemma spki_fold:
  "fold_res (\<lambda>acc h. bind_res (normalize_spki_hex h b) (\<lambda>n. Inr (insert n acc))) acc hs = Inr out \<Longrightarrow>
   out = acc \<union> {n. \<exists>h \<in> set hs. normalize_spki_hex h b = Inr n}"
proof (induction hs arbitrary: acc)
  case (Cons h hs)
  then obtain n where n: "normalize_spki_hex h b = Inr n" by (cases "normalize_spki_hex h b") auto
  with Cons.prems Cons.IH [of "insert n acc"] show ?case by auto
qed simp

definition permits :: "raw_relay_authz_entry \<Rightarrow> peer_identity \<Rightarrow> bool" where
  "permits e p \<longleftrightarrow> common_name p \<in> set (rae_allowed_cns e)
     \<or> (\<exists>h \<in> set (rae_allowed_spkis e). decode_spki_hex h 0 = Inr (spki_sha256 p))"

lemma authz_step_policy:
  assumes "authz_step known m e = Inr m'"
  shows "m (rae_backend_id e) = None \<and> rae_backend_id e \<in> known
     \<and> is_allowed_raw m' k p = (if k = rae_backend_id e then permits e p else is_allowed_raw m k p)"
proof -
  let ?b = "rae_backend_id e"
  from assms obtain spkis where f: "fold_res (\<lambda>acc h. bind_res (normalize_spki_hex h ?b) (\<lambda>n. Inr (insert n acc)))
      {} (rae_allowed_spkis e) = Inr spkis" and m: "m ?b = None" "?b \<in> known"
      and m': "m' = m(?b \<mapsto> \<lparr>bp_cns = set (rae_allowed_cns e), bp_spkis = spkis\<rparr>)"
    by (auto simp: authz_step_def res_simps split: if_splits)
  have "spki_hex p \<in> spkis \<longleftrightarrow> (\<exists>h \<in> set (rae_allowed_spkis e). decode_spki_hex h 0 = Inr (spki_sha256 p))"
    using spki_fold [OF f] by (auto simp: spki_hex_def normalize_iff_decode [where i = 0] dest: hex_inj)
  with m m' show ?thesis by (simp add: is_allowed_raw_def permits_def)
qed

lemma authz_fold:
  "fold_res (authz_step known) m es = Inr m' \<Longrightarrow> (\<forall>e \<in> set es. m (rae_backend_id e) = None) \<and>
   (is_allowed_raw m' k p \<longleftrightarrow> is_allowed_raw m k p \<or> (\<exists>e \<in> set es. rae_backend_id e = k \<and> permits e p))"
proof (induction es arbitrary: m)
  case (Cons e es)
  then obtain m1 where m1: "authz_step known m e = Inr m1" "fold_res (authz_step known) m1 es = Inr m'"
    by (auto split: sum.splits)
  have dom: "m1 i = None \<Longrightarrow> m i = None" for i
    using m1(1) by (auto simp: authz_step_def res_simps split: if_splits)
  have none: "m (rae_backend_id e) = None" using authz_step_policy [OF m1(1)] by simp
  then have "\<not> is_allowed_raw m (rae_backend_id e) p" by (simp add: is_allowed_raw_def)
  then show ?case using Cons.IH [OF m1(2)] authz_step_policy [OF m1(1), of k p] dom none by auto
qed simp

text \<open>
  Raw-relay authorisation fails closed and is exact: a policy that builds admits an identity to a
  backend if and only if an entry for that backend lists its common name or, in either letter case, the
  hex of its key hash; a backend without an entry admits nobody.
\<close>
theorem raw_authz_exact:
  assumes "authz_new entries known = Inr m"
  shows "is_allowed_raw m k p \<longleftrightarrow> (\<exists>e \<in> set entries. rae_backend_id e = k \<and> permits e p)"
  using authz_fold [of known Map.empty entries m k p] assms by (simp add: authz_new_def is_allowed_raw_def)

theorem raw_authz_exact_witness:
  "\<exists>m. authz_new [\<lparr>rae_backend_id = ''cam'', rae_allowed_cns = [''dev-1''], rae_allowed_spkis = []\<rparr>] {''cam''} = Inr m
     \<and> is_allowed_raw m ''cam'' \<lparr>common_name = ''dev-1'', spki_sha256 = []\<rparr>
     \<and> \<not> is_allowed_raw m ''other'' \<lparr>common_name = ''dev-1'', spki_sha256 = []\<rparr>"
proof -
  let ?e = "\<lparr>rae_backend_id = ''cam'', rae_allowed_cns = [''dev-1''], rae_allowed_spkis = []\<rparr>"
  let ?m = "[''cam'' \<mapsto> \<lparr>bp_cns = {''dev-1''}, bp_spkis = {}\<rparr>]"
  have "authz_new [?e] {''cam''} = Inr ?m" by (simp add: authz_new_def authz_step_def)
  with raw_authz_exact [OF this] show ?thesis by (auto simp: permits_def)
qed

end
