(* ===== verification/Http.thy ===== *)
theory Http
  imports Identity
begin

section \<open>HTTP data\<close>

text \<open>
  The part of the http crate's data the program handles: a header map is the list of its fields, names in
  lower case, a repeated name carrying several values; a response has a status, headers and a body.
  Header values are byte strings; \<open>to_str\<close> succeeds on visible ASCII and tab only. The second
  part models \<open>proxy/handler/headers.rs\<close> and the pure predicates of \<open>proxy/handler/policy.rs\<close>;
  \<open>header_name\<close> is \<open>HeaderName::from_bytes\<close>, a parameter.
\<close>

type_synonym header_map = "(string \<times> string) list"

definition hget_all :: "header_map \<Rightarrow> string \<Rightarrow> string list" where
  "hget_all h n = map snd (filter (\<lambda>f. fst f = n) h)"

definition hget :: "header_map \<Rightarrow> string \<Rightarrow> string option" where
  "hget h n = (case hget_all h n of [] \<Rightarrow> None | v # _ \<Rightarrow> Some v)"

definition hcontains :: "header_map \<Rightarrow> string \<Rightarrow> bool" where
  "hcontains h n \<longleftrightarrow> n \<in> set (map fst h)"

definition hremove :: "string \<Rightarrow> header_map \<Rightarrow> header_map" where
  "hremove n h = filter (\<lambda>f. fst f \<noteq> n) h"

definition hinsert :: "string \<Rightarrow> string \<Rightarrow> header_map \<Rightarrow> header_map" where
  "hinsert n v h = hremove n h @ [(n, v)]"

definition visible_ascii :: "string \<Rightarrow> bool" where
  "visible_ascii s = list_all (\<lambda>c. let b = (of_char c :: nat) in (32 \<le> b \<and> b < 127) \<or> b = 9) s"

definition to_str :: "string \<Rightarrow> string option" where
  "to_str v = (if visible_ascii v then Some v else None)"

definition header_value_from_str :: "string \<Rightarrow> string option" where
  "header_value_from_str s = (if visible_ascii s then Some s else None)"

record response =
  resp_status :: nat
  resp_headers :: header_map
  resp_body :: bytes

subsection \<open>Field lemmas\<close>

lemma hget_all_hremove [simp]: "hget_all (hremove n h) m = (if m = n then [] else hget_all h m)"
  by (induction h) (auto simp: hget_all_def hremove_def)

lemma hget_hremove [simp]: "hget (hremove n h) m = (if m = n then None else hget h m)"
  by (simp add: hget_def)

lemma hcontains_hremove [simp]: "hcontains (hremove n h) m \<longleftrightarrow> m \<noteq> n \<and> hcontains h m"
  by (auto simp: hcontains_def hremove_def)

lemma hget_all_hinsert [simp]: "hget_all (hinsert n v h) m = (if m = n then [v] else hget_all h m)"
  using hget_all_hremove [of n h m] by (auto simp: hget_all_def hinsert_def)

lemma hremove_hinsert [simp]: "hremove n (hinsert n v h) = hremove n h"
  by (simp add: hinsert_def hremove_def)

lemma hremove_commute: "hremove n (hremove m h) = hremove m (hremove n h)"
  by (simp add: hremove_def conj_commute)

lemma hremove_hinsert_other: "n \<noteq> m \<Longrightarrow> hremove n (hinsert m v h) = hinsert m v (hremove n h)"
  by (simp add: hinsert_def hremove_def conj_commute)

lemma hremove_idem [simp]: "hremove n (hremove n h) = hremove n h"
  by (simp add: hremove_def)

lemma hcontains_hinsert [simp]: "hcontains (hinsert n v h) m \<longleftrightarrow> m = n \<or> hcontains h m"
  by (auto simp: hcontains_def hinsert_def hremove_def)

lemma hcontains_fold_remove: "hcontains (fold hremove ns h) m \<longleftrightarrow> m \<notin> set ns \<and> hcontains h m"
  by (induction ns arbitrary: h) auto

lemma hget_all_fold_remove: "hget_all (fold hremove ns h) m = (if m \<in> set ns then [] else hget_all h m)"
  by (induction ns arbitrary: h) auto

subsection \<open>Forwarded headers (\<open>proxy/handler/headers.rs\<close>)\<close>

definition HEADER_CLIENT_ID :: string where "HEADER_CLIENT_ID = ''x-reduction-client-id''"
definition HEADER_CLIENT_SPKI :: string where "HEADER_CLIENT_SPKI = ''x-reduction-client-spki''"
definition HEADER_X_FORWARDED_FOR :: string where "HEADER_X_FORWARDED_FOR = ''x-forwarded-for''"
definition HEADER_X_REAL_IP :: string where "HEADER_X_REAL_IP = ''x-real-ip''"
definition HEADER_IDEMPOTENCY_KEY :: string where "HEADER_IDEMPOTENCY_KEY = ''idempotency-key''"

definition HOP_BY_HOP_HEADERS :: "string list" where
  "HOP_BY_HOP_HEADERS = [''connection'', ''keep-alive'', ''proxy-authenticate'', ''proxy-authorization'',
     ''proxy-connection'', ''te'', ''trailer'', ''transfer-encoding'', ''upgrade'', ''http2-settings'']"

definition apply_identity_headers :: "peer_identity option \<Rightarrow> header_map \<Rightarrow> header_map \<times> unit result" where
  "apply_identity_headers ident h0 =
     (let h = hremove HEADER_CLIENT_SPKI (hremove HEADER_CLIENT_ID h0)
      in case ident of
           None \<Rightarrow> (h, Inr ())
         | Some p \<Rightarrow>
             (case header_value_from_str (common_name p) of
                None \<Rightarrow> (h, Inl (Forward ''invalid client-id header''))
              | Some cn \<Rightarrow>
                  (case header_value_from_str (spki_hex p) of
                     None \<Rightarrow> (h, Inl (Forward ''invalid client-spki header''))
                   | Some spki \<Rightarrow> (hinsert HEADER_CLIENT_SPKI spki (hinsert HEADER_CLIENT_ID cn h), Inr ()))))"

definition apply_forwarded_headers :: "ip_addr \<Rightarrow> header_map \<Rightarrow> header_map \<times> unit result" where
  "apply_forwarded_headers client_ip h0 =
     (let h = fold hremove [HEADER_X_FORWARDED_FOR, ''x-forwarded-proto'', ''x-forwarded-host'', ''forwarded'',
                            HEADER_X_REAL_IP] h0
      in case header_value_from_str (show_ip client_ip) of
           None \<Rightarrow> (h, Inl (Forward ''invalid client-ip header''))
         | Some ip \<Rightarrow> (hinsert HEADER_X_REAL_IP ip (hinsert HEADER_X_FORWARDED_FOR ip h), Inr ()))"

definition connection_nominated :: "(string \<Rightarrow> string option) \<Rightarrow> header_map \<Rightarrow> string list" where
  "connection_nominated header_name h =
     List.map_filter (\<lambda>tok. header_name (trim tok))
       (concat (map (split_on CHR '','') (List.map_filter to_str (hget_all h ''connection''))))"

definition strip_hop_by_hop_headers :: "(string \<Rightarrow> string option) \<Rightarrow> header_map \<Rightarrow> header_map" where
  "strip_hop_by_hop_headers header_name h =
     (let nominated = connection_nominated header_name h
      in fold hremove nominated (fold hremove HOP_BY_HOP_HEADERS h))"

subsection \<open>Request and response predicates (\<open>proxy/handler/policy.rs\<close>)\<close>

definition response_is_encoded :: "response \<Rightarrow> bool" where
  "response_is_encoded r = hcontains (resp_headers r) ''content-encoding''"

definition is_cacheable_status :: "nat \<Rightarrow> bool" where
  "is_cacheable_status st \<longleftrightarrow> st = 200"

definition vary_permits_caching :: "header_map \<Rightarrow> bool" where
  "vary_permits_caching h =
     (case Option.bind (hget h ''vary'') to_str of
        None \<Rightarrow> True
      | Some vary \<Rightarrow> list_all (\<lambda>tok. to_ascii_lowercase (trim tok)
            \<in> {''accept-encoding'', HEADER_CLIENT_ID, HEADER_CLIENT_SPKI}) (split_on CHR '','' vary))"

definition response_permits_shared_caching :: "bool \<Rightarrow> bool \<Rightarrow> bool" where
  "response_permits_shared_caching request_has_cookie is_public \<longleftrightarrow> \<not> request_has_cookie \<and> is_public"

definition is_retryable_status :: "nat \<Rightarrow> bool" where
  "is_retryable_status st \<longleftrightarrow> st \<in> {502, 503, 429}"

definition is_idempotent_method :: "string \<Rightarrow> bool" where
  "is_idempotent_method m \<longleftrightarrow> m \<in> {''GET'', ''HEAD'', ''OPTIONS'', ''TRACE'', ''PUT'', ''DELETE''}"

definition retries_permitted :: "string \<Rightarrow> header_map \<Rightarrow> bool" where
  "retries_permitted m h \<longleftrightarrow> is_idempotent_method m \<or>
     (case hget h HEADER_IDEMPOTENCY_KEY of None \<Rightarrow> False | Some v \<Rightarrow> v \<noteq> [])"

subsection \<open>No forged metadata survives\<close>

lemma header_consts_distinct [simp]:
  "HEADER_CLIENT_ID \<noteq> HEADER_CLIENT_SPKI" "HEADER_CLIENT_SPKI \<noteq> HEADER_CLIENT_ID"
  "HEADER_X_FORWARDED_FOR \<noteq> HEADER_X_REAL_IP" "HEADER_X_REAL_IP \<noteq> HEADER_X_FORWARDED_FOR"
  by (simp_all add: HEADER_CLIENT_ID_def HEADER_CLIENT_SPKI_def HEADER_X_FORWARDED_FOR_def HEADER_X_REAL_IP_def)

text \<open>
  Identity headers cannot be forged: whatever the client sent, after \<open>apply_identity_headers\<close> the
  identity fields are exactly the handshake-proven values, each once, or absent for an anonymous client
  or on an error; every other field is unchanged.
\<close>
theorem identity_headers_unforgeable:
  "case apply_identity_headers ident h of (h', r) \<Rightarrow>
     hget_all h' HEADER_CLIENT_ID = (case ident of Some p \<Rightarrow> if r = Inr () then [common_name p] else [] | None \<Rightarrow> [])
   \<and> hget_all h' HEADER_CLIENT_SPKI = (case ident of Some p \<Rightarrow> if r = Inr () then [spki_hex p] else [] | None \<Rightarrow> [])
   \<and> fold hremove [HEADER_CLIENT_ID, HEADER_CLIENT_SPKI] h' = fold hremove [HEADER_CLIENT_ID, HEADER_CLIENT_SPKI] h"
  by (auto simp: apply_identity_headers_def header_value_from_str_def Let_def hremove_hinsert_other
      hremove_commute [of HEADER_CLIENT_ID HEADER_CLIENT_SPKI] split: option.splits if_splits)

text \<open>
  Forwarding metadata cannot be forged: after \<open>apply_forwarded_headers\<close> the peer address is the only
  value of \<open>x-forwarded-for\<close> and \<open>x-real-ip\<close>, and \<open>x-forwarded-proto\<close>, \<open>x-forwarded-host\<close> and
  \<open>forwarded\<close> are gone.
\<close>
theorem forwarded_headers_unforgeable:
  "case apply_forwarded_headers ip h of (h', r) \<Rightarrow>
     hget_all h' HEADER_X_FORWARDED_FOR = (if r = Inr () then [show_ip ip] else [])
   \<and> hget_all h' HEADER_X_REAL_IP = (if r = Inr () then [show_ip ip] else [])
   \<and> \<not> hcontains h' ''x-forwarded-proto'' \<and> \<not> hcontains h' ''x-forwarded-host'' \<and> \<not> hcontains h' ''forwarded''"
  by (auto simp: apply_forwarded_headers_def header_value_from_str_def Let_def
      HEADER_X_FORWARDED_FOR_def HEADER_X_REAL_IP_def split: option.splits if_splits)

text \<open>
  Connection-local fields never cross the proxy: after \<open>strip_hop_by_hop_headers\<close> no hop-by-hop
  field and no field nominated by any \<open>Connection\<close> value remains, and every other field keeps all its
  values in order.
\<close>
theorem hop_by_hop_stripped:
  "hget_all (strip_hop_by_hop_headers header_name h) n =
     (if n \<in> set HOP_BY_HOP_HEADERS \<or> n \<in> set (connection_nominated header_name h) then [] else hget_all h n)"
  by (simp add: strip_hop_by_hop_headers_def Let_def hget_all_fold_remove)

end
