(* ===== verification/Lru.thy ===== *)
theory Lru
  imports Reduction_Prelude
begin

section \<open>The LRU cache of the lru crate, as a parameter\<close>

text \<open>
  \<open>lru_ops\<close> collects the operations of \<open>lru::LruCache\<close> that the program calls. \<open>lru_doc\<close> states their
  documented behaviour as far as the program relies on it: a stored value is found until it is evicted,
  replaced or popped, and no operation invents or alters an entry. Eviction order is left open.
  \<open>alist_lru\<close> is one implementation with that behaviour.
\<close>

record ('l, 'k, 'v) lru_ops =
  lru_new :: "nat \<Rightarrow> 'l"
  lru_put :: "'k \<Rightarrow> 'v \<Rightarrow> 'l \<Rightarrow> 'l"
  lru_peek :: "'l \<Rightarrow> 'k \<Rightarrow> 'v option"
  lru_get :: "'k \<Rightarrow> 'l \<Rightarrow> 'l \<times> 'v option"
  lru_pop :: "'k \<Rightarrow> 'l \<Rightarrow> 'l"
  lru_clear :: "'l \<Rightarrow> 'l"

definition lru_doc :: "('l, 'k, 'v) lru_ops \<Rightarrow> bool" where
  "lru_doc ops \<longleftrightarrow>
     (\<forall>n k. lru_peek ops (lru_new ops n) k = None) \<and>
     (\<forall>l k v. lru_peek ops (lru_put ops k v l) k = Some v) \<and>
     (\<forall>l k v k'. k' \<noteq> k \<longrightarrow> lru_peek ops (lru_put ops k v l) k' \<in> {None, lru_peek ops l k'}) \<and>
     (\<forall>l k. snd (lru_get ops k l) = lru_peek ops l k \<and> lru_peek ops (fst (lru_get ops k l)) = lru_peek ops l) \<and>
     (\<forall>l k. lru_peek ops (lru_pop ops k l) = (lru_peek ops l)(k := None)) \<and>
     (\<forall>l k. lru_peek ops (lru_clear ops l) k = None)"

lemma lru_docD:
  assumes "lru_doc ops"
  shows "lru_peek ops (lru_new ops n) k = None"
    and "lru_peek ops (lru_put ops k v l) k = Some v"
    and "k' \<noteq> k \<Longrightarrow> lru_peek ops (lru_put ops k v l) k' \<in> {None, lru_peek ops l k'}"
    and "snd (lru_get ops k l) = lru_peek ops l k"
    and "lru_peek ops (fst (lru_get ops k l)) = lru_peek ops l"
    and "lru_peek ops (lru_pop ops k l) = (lru_peek ops l)(k := None)"
    and "lru_peek ops (lru_clear ops l) k = None"
  using assms unfolding lru_doc_def by blast+

subsection \<open>An implementation with the documented behaviour\<close>

definition alist_put :: "'k \<Rightarrow> 'v \<Rightarrow> nat \<times> ('k \<times> 'v) list \<Rightarrow> nat \<times> ('k \<times> 'v) list" where
  "alist_put k v l = (fst l, (k, v) # take (fst l - 1) (filter (\<lambda>p. fst p \<noteq> k) (snd l)))"

definition alist_get :: "'k \<Rightarrow> nat \<times> ('k \<times> 'v) list \<Rightarrow> (nat \<times> ('k \<times> 'v) list) \<times> 'v option" where
  "alist_get k l = (case map_of (snd l) k of
     None \<Rightarrow> (l, None) | Some v \<Rightarrow> ((fst l, (k, v) # filter (\<lambda>p. fst p \<noteq> k) (snd l)), Some v))"

definition alist_lru :: "(nat \<times> ('k \<times> 'v) list, 'k, 'v) lru_ops" where
  "alist_lru = \<lparr>lru_new = (\<lambda>n. (n, [])), lru_put = alist_put, lru_peek = (\<lambda>l. map_of (snd l)),
     lru_get = alist_get, lru_pop = (\<lambda>k l. (fst l, filter (\<lambda>p. fst p \<noteq> k) (snd l))),
     lru_clear = (\<lambda>l. (fst l, []))\<rparr>"

lemma map_of_filter_neq: "map_of (filter (\<lambda>p. fst p \<noteq> k) xs) = (map_of xs)(k := None)"
  by (induction xs) auto

lemma map_of_take: "map_of (take n xs) k \<in> {None, map_of xs k}"
proof (induction xs arbitrary: n)
  case (Cons x xs)
  then show ?case by (cases n) auto
qed simp

lemma alist_lru_doc: "lru_doc alist_lru"
proof -
  have put: "map_of (take n (filter (\<lambda>p. fst p \<noteq> k) xs)) k' \<in> {None, map_of xs k'}" if "k' \<noteq> k"
    for n k k' and xs :: "('a \<times> 'b) list"
    using map_of_take [of n "filter (\<lambda>p. fst p \<noteq> k) xs" k'] that by (simp add: map_of_filter_neq)
  then show ?thesis
    unfolding lru_doc_def
    by (auto simp: alist_lru_def alist_put_def alist_get_def map_of_filter_neq split: option.split)
qed

end
