(* ===== verification/Cache.thy ===== *)
theory Cache
  imports Http Lru Config_Types
begin

section \<open>The response cache\<close>

text \<open>
  \<open>cache_control.rs\<close> (the directives of a response) and \<open>cache.rs\<close> (the per-identity response cache).
  The LRU container is the parameter \<open>ops\<close>; the clock reading is passed in. The lemmas show that the
  joined key is injective, that the stack and heap forms of the key agree, and that every hit is a response
  stored earlier under the same method, path and identity, not yet expired and free of session cookies.
\<close>

subsection \<open>Cache-Control\<close>

record cache_directives =
  cd_no_store :: bool
  cd_no_transform :: bool
  cd_is_private :: bool
  cd_is_public :: bool
  cd_max_age :: "u64 option"

definition default_directives :: cache_directives where
  "default_directives = \<lparr>cd_no_store = False, cd_no_transform = False, cd_is_private = False,
     cd_is_public = False, cd_max_age = None\<rparr>"

definition strip_prefix_ci :: "string \<Rightarrow> string \<Rightarrow> string option" where
  "strip_prefix_ci s p =
     (if length s < length p then None
      else if eq_ignore_ascii_case (take (length p) s) p then Some (drop (length p) s) else None)"

definition parse_directive :: "string \<Rightarrow> cache_directives \<Rightarrow> cache_directives" where
  "parse_directive part d =
     (let t = trim part in
      if eq_ignore_ascii_case t ''no-store'' then d\<lparr>cd_no_store := True\<rparr>
      else if eq_ignore_ascii_case t ''no-transform'' then d\<lparr>cd_no_transform := True\<rparr>
      else if eq_ignore_ascii_case t ''private'' then d\<lparr>cd_is_private := True\<rparr>
      else if eq_ignore_ascii_case t ''public'' then d\<lparr>cd_is_public := True\<rparr>
      else case strip_prefix_ci t ''max-age='' of
             Some v \<Rightarrow> d\<lparr>cd_max_age := map_option of_nat (parse_unsigned 64 (trim v))\<rparr>
           | None \<Rightarrow> d)"

definition parse_directives :: "string \<Rightarrow> cache_directives" where
  "parse_directives header = fold parse_directive (split_on CHR '','' header) default_directives"

definition directives_from_response :: "header_map \<Rightarrow> cache_directives" where
  "directives_from_response h =
     (case hget h ''cache-control'' of
        None \<Rightarrow> default_directives
      | Some v \<Rightarrow> (case to_str v of None \<Rightarrow> default_directives | Some s \<Rightarrow> parse_directives s))"

subsection \<open>Keys\<close>

record cache_key_ref =
  key_method :: string
  key_path :: string
  key_identity :: string

definition CACHE_KEY_STACK_CAP :: nat where "CACHE_KEY_STACK_CAP = 512"

definition write_cache_key :: "string \<Rightarrow> string \<Rightarrow> string \<Rightarrow> string" where
  "write_cache_key m p i =
     show_nat (length m) @ '':'' @ m @ show_nat (length p) @ '':'' @ p @ show_nat (length i) @ '':'' @ i"

definition cache_key_from :: "cache_key_ref \<Rightarrow> string" where
  "cache_key_from k = write_cache_key (key_method k) (key_path k) (key_identity k)"

datatype key_buf = Stack string | Heap string

primrec key_buf_deref :: "key_buf \<Rightarrow> string" where
  "key_buf_deref (Stack s) = s"
| "key_buf_deref (Heap s) = s"

definition build_lookup_key :: "string \<Rightarrow> string \<Rightarrow> string \<Rightarrow> key_buf" where
  "build_lookup_key m p i =
     (case array_string_from CACHE_KEY_STACK_CAP (write_cache_key m p i) of
        Some s \<Rightarrow> Stack s
      | None \<Rightarrow> Heap (write_cache_key m p i))"

subsection \<open>The cache\<close>

definition UNCACHEABLE_HEADERS :: "string list" where
  "UNCACHEABLE_HEADERS = [''set-cookie'', ''set-cookie2'', ''connection'', ''keep-alive'', ''proxy-authenticate'',
     ''proxy-authorization'', ''te'', ''trailer'', ''transfer-encoding'', ''upgrade'']"

definition sanitized_for_cache :: "header_map \<Rightarrow> header_map" where
  "sanitized_for_cache h = fold hremove UNCACHEABLE_HEADERS h"

record cached_response =
  cr_status :: nat
  cr_headers :: header_map
  cr_body :: bytes
  cr_inserted_at :: instant
  cr_ttl :: duration

definition is_expired :: "instant \<Rightarrow> cached_response \<Rightarrow> bool" where
  "is_expired now e \<longleftrightarrow> cr_ttl e < elapsed now (cr_inserted_at e)"

record 'l response_cache =
  rc_store :: 'l
  rc_config :: cache_config

definition cache_new :: "('l, string, cached_response) lru_ops \<Rightarrow> cache_config \<Rightarrow> 'l response_cache" where
  "cache_new ops cfg = \<lparr>rc_store = lru_new ops (cac_max_entries cfg), rc_config = cfg\<rparr>"

definition cache_get :: "('l, string, cached_response) lru_ops \<Rightarrow> instant \<Rightarrow> cache_key_ref \<Rightarrow> 'l response_cache
    \<Rightarrow> 'l response_cache \<times> response option" where
  "cache_get ops now k c =
     (let lookup = key_buf_deref (build_lookup_key (key_method k) (key_path k) (key_identity k));
          (st, found) = lru_get ops lookup (rc_store c)
      in case found of
           None \<Rightarrow> (c\<lparr>rc_store := st\<rparr>, None)
         | Some e \<Rightarrow>
             if is_expired now e then (c\<lparr>rc_store := lru_pop ops lookup st\<rparr>, None)
             else (c\<lparr>rc_store := st\<rparr>,
                   Some \<lparr>resp_status = cr_status e, resp_headers = cr_headers e, resp_body = cr_body e\<rparr>))"

definition cache_put :: "('l, string, cached_response) lru_ops \<Rightarrow> instant \<Rightarrow> cache_key_ref \<Rightarrow> nat \<Rightarrow> header_map
    \<Rightarrow> bytes \<Rightarrow> cache_directives \<Rightarrow> 'l response_cache \<Rightarrow> 'l response_cache \<times> bool" where
  "cache_put ops now k status h body d c =
     (if cd_no_store d \<or> cd_is_private d then (c, False)
      else if cac_max_entry_bytes (rc_config c) < length body then (c, False)
      else
        let ttl_secs = (case cd_max_age d of Some a \<Rightarrow> a | None \<Rightarrow> cac_default_ttl_secs (rc_config c))
        in if ttl_secs = 0 then (c, False)
           else (c\<lparr>rc_store := lru_put ops (cache_key_from k)
                     \<lparr>cr_status = status, cr_headers = sanitized_for_cache h, cr_body = body,
                      cr_inserted_at = now, cr_ttl = from_secs (unat ttl_secs)\<rparr> (rc_store c)\<rparr>, True))"

definition cache_clear :: "('l, string, cached_response) lru_ops \<Rightarrow> 'l response_cache \<Rightarrow> 'l response_cache" where
  "cache_clear ops c = c\<lparr>rc_store := lru_clear ops (rc_store c)\<rparr>"

text \<open>Histories of cache calls, oldest first.\<close>

datatype cache_op =
    Put instant cache_key_ref nat header_map bytes cache_directives
  | Get instant cache_key_ref
  | Clear

fun cache_step :: "('l, string, cached_response) lru_ops \<Rightarrow> cache_op \<Rightarrow> 'l response_cache \<Rightarrow> 'l response_cache" where
  "cache_step ops (Put now k st h b d) c = fst (cache_put ops now k st h b d c)"
| "cache_step ops (Get now k) c = fst (cache_get ops now k c)"
| "cache_step ops Clear c = cache_clear ops c"

definition cache_run :: "('l, string, cached_response) lru_ops \<Rightarrow> cache_config \<Rightarrow> cache_op list \<Rightarrow> 'l response_cache" where
  "cache_run ops cfg h = fold (cache_step ops) h (cache_new ops cfg)"

subsection \<open>The key encoding is injective\<close>

lemma show_nat_inject: "show_nat a = show_nat b \<Longrightarrow> a = b"
  by (metis read_show_nat)

lemma length_prefix_inject:
  assumes "show_nat (length a) @ CHR '':'' # a @ r = show_nat (length b) @ CHR '':'' # b @ s"
  shows "a = b \<and> r = s"
proof -
  have "show_nat (length a) = show_nat (length b) \<and> CHR '':'' = CHR '':'' \<and> a @ r = b @ s"
    using digits_split_unique [OF assms, of is_digit_char] show_nat_digits by (simp add: is_digit_char_def)
  then have "length a = length b" and "a @ r = b @ s" using show_nat_inject by auto
  then show ?thesis by simp
qed

lemma write_cache_key_inject:
  assumes "write_cache_key m p i = write_cache_key m' p' i'"
  shows "m = m' \<and> p = p' \<and> i = i'"
proof -
  have "m = m' \<and> show_nat (length p) @ CHR '':'' # p @ (show_nat (length i) @ CHR '':'' # i @ []) =
      show_nat (length p') @ CHR '':'' # p' @ (show_nat (length i') @ CHR '':'' # i' @ [])"
    using assms length_prefix_inject [of m _ m'] by (simp add: write_cache_key_def)
  then show ?thesis
    using length_prefix_inject [of p _ p'] length_prefix_inject [of i "[]" i' "[]"] by blast
qed

lemma lookup_key_eq [simp]:
  "key_buf_deref (build_lookup_key (key_method k) (key_path k) (key_identity k)) = cache_key_from k"
  by (simp add: build_lookup_key_def cache_key_from_def split: option.split)

lemma cache_key_from_eq:
  "(cache_key_from k = cache_key_from k') =
   (key_method k = key_method k' \<and> key_path k = key_path k' \<and> key_identity k = key_identity k')"
  using write_cache_key_inject [of "key_method k" "key_path k" "key_identity k" "key_method k'" "key_path k'" "key_identity k'"]
  unfolding cache_key_from_def by metis

text \<open>
  Claim C30. The cache key separates clients: two (method, path, identity) triples share a stored key exactly
  when they are equal, whatever characters they contain, and the borrowed lookup key equals the stored key
  both on the stack and in the heap fallback.
\<close>
theorem cache_key_exact:
  fixes k k' :: cache_key_ref
  shows "(key_buf_deref (build_lookup_key (key_method k) (key_path k) (key_identity k)) = cache_key_from k') =
   (key_method k = key_method k' \<and> key_path k = key_path k' \<and> key_identity k = key_identity k')"
  by (simp only: lookup_key_eq cache_key_from_eq)

lemma cache_key_from_inject: "cache_key_from k = cache_key_from k' \<Longrightarrow> (k :: cache_key_ref) = k'"
  unfolding cache_key_from_eq by simp

subsection \<open>What a hit may be\<close>

definition stored_by :: "cache_config \<Rightarrow> cache_op \<Rightarrow> string \<Rightarrow> cached_response \<Rightarrow> bool" where
  "stored_by cfg op key e \<longleftrightarrow>
     (case op of
        Put now k st h b d \<Rightarrow>
          key = cache_key_from k \<and> \<not> cd_no_store d \<and> \<not> cd_is_private d \<and> length b \<le> cac_max_entry_bytes cfg \<and>
          e = \<lparr>cr_status = st, cr_headers = sanitized_for_cache h, cr_body = b, cr_inserted_at = now,
               cr_ttl = from_secs (unat (case cd_max_age d of Some a \<Rightarrow> a | None \<Rightarrow> cac_default_ttl_secs cfg))\<rparr>
      | _ \<Rightarrow> False)"

definition cache_inv :: "('l, string, cached_response) lru_ops \<Rightarrow> cache_config \<Rightarrow> cache_op set \<Rightarrow> 'l response_cache \<Rightarrow> bool" where
  "cache_inv ops cfg H c \<longleftrightarrow> rc_config c = cfg \<and>
     (\<forall>key e. lru_peek ops (rc_store c) key = Some e \<longrightarrow> (\<exists>op\<in>H. stored_by cfg op key e))"

lemma cache_inv_sub:
  assumes "cache_inv ops cfg H c" and "\<And>key. lru_peek ops st key \<in> {None, lru_peek ops (rc_store c) key}"
  shows "cache_inv ops cfg (insert op H) (c\<lparr>rc_store := st\<rparr>)"
  using assms unfolding cache_inv_def by (simp, metis option.distinct(1))

lemma cache_step_inv:
  assumes doc: "lru_doc ops" and inv: "cache_inv ops cfg H c"
  shows "cache_inv ops cfg (insert op H) (cache_step ops op c)"
proof -
  note sub = cache_inv_sub [OF inv]
  have same: "cache_inv ops cfg (insert op H) c" using sub [of "rc_store c" op] by simp
  have cfg: "rc_config c = cfg" using inv by (simp add: cache_inv_def)
  show ?thesis
  proof (cases op)
    case (Put now k st h b d)
    define e where "e = \<lparr>cr_status = st, cr_headers = sanitized_for_cache h, cr_body = b, cr_inserted_at = now,
        cr_ttl = from_secs (unat (case cd_max_age d of Some a \<Rightarrow> a | None \<Rightarrow> cac_default_ttl_secs cfg))\<rparr>"
    have "cache_inv ops cfg (insert op H) (c\<lparr>rc_store := lru_put ops (cache_key_from k) e (rc_store c)\<rparr>)"
      if "stored_by cfg op (cache_key_from k) e"
      unfolding cache_inv_def
    proof (simp add: cfg, intro allI impI)
      fix key e'
      assume peek: "lru_peek ops (lru_put ops (cache_key_from k) e (rc_store c)) key = Some e'"
      show "stored_by cfg op key e' \<or> (\<exists>op\<in>H. stored_by cfg op key e')"
      proof (cases "key = cache_key_from k")
        case True then show ?thesis using that peek lru_docD(2) [OF doc, of "cache_key_from k" e "rc_store c"] by simp
      next
        case False
        then have "lru_peek ops (rc_store c) key = Some e'"
          using lru_docD(3) [OF doc False, of e "rc_store c"] peek by auto
        then show ?thesis using inv by (simp add: cache_inv_def)
      qed
    qed
    moreover have "stored_by cfg op (cache_key_from k) e"
      if "\<not> (cd_no_store d \<or> cd_is_private d)" "\<not> cac_max_entry_bytes cfg < length b"
      using that by (simp add: Put stored_by_def e_def)
    ultimately show ?thesis
      unfolding Put cache_step.simps cache_put_def Let_def cfg [symmetric] e_def
      using same Put by (simp add: cfg)
  next
    case (Get now k)
    obtain st found where g: "lru_get ops (cache_key_from k) (rc_store c) = (st, found)" by fastforce
    then have st: "lru_peek ops st = lru_peek ops (rc_store c)"
      using lru_docD(5) [OF doc, of "cache_key_from k" "rc_store c"] by simp
    have "cache_inv ops cfg (insert op H) (c\<lparr>rc_store := st\<rparr>)" by (rule sub) (simp add: st)
    moreover have "cache_inv ops cfg (insert op H) (c\<lparr>rc_store := lru_pop ops (cache_key_from k) st\<rparr>)"
      by (rule sub) (simp add: st lru_docD(6) [OF doc])
    ultimately show ?thesis by (simp add: Get cache_get_def g split: option.split)
  next
    case Clear
    then show ?thesis using sub [of "lru_clear ops (rc_store c)" op] by (simp add: cache_clear_def lru_docD(7) [OF doc])
  qed
qed

lemma cache_run_inv: "lru_doc ops \<Longrightarrow> cache_inv ops cfg (set h) (cache_run ops cfg h)"
proof (induction h rule: rev_induct)
  case Nil then show ?case by (simp add: cache_run_def cache_new_def cache_inv_def lru_docD(1))
next
  case (snoc op h)
  then have "cache_inv ops cfg (insert op (set h)) (cache_step ops op (cache_run ops cfg h))"
    by (intro cache_step_inv) simp_all
  then show ?case by (simp add: cache_run_def)
qed

lemma cache_get_result:
  assumes "lru_doc ops"
  shows "snd (cache_get ops now k c) =
    (case lru_peek ops (rc_store c) (cache_key_from k) of
       Some e \<Rightarrow> if is_expired now e then None
                 else Some \<lparr>resp_status = cr_status e, resp_headers = cr_headers e, resp_body = cr_body e\<rparr>
     | None \<Rightarrow> None)"
  using lru_docD(4) [OF assms, of "cache_key_from k" "rc_store c"]
  by (auto simp: cache_get_def Let_def split: prod.split option.split)

text \<open>
  Claim C29. Every cache hit is legitimate: after any history of cache calls, a response served for a key was
  put earlier under that same method, path and identity, with directives that allow storing and a body
  within the limit, it is no older than its time to live, and it carries none of the headers a shared
  cache must not replay.
\<close>
theorem cache_hit_sound:
  assumes doc: "lru_doc ops"
    and hit: "snd (cache_get ops now k (cache_run ops cfg h)) = Some r"
  shows "\<exists>t st hs b d. Put t k st hs b d \<in> set h
     \<and> \<not> cd_no_store d \<and> \<not> cd_is_private d \<and> length b \<le> cac_max_entry_bytes cfg
     \<and> now - t \<le> unat (case cd_max_age d of Some a \<Rightarrow> a | None \<Rightarrow> cac_default_ttl_secs cfg) * 1000000000
     \<and> resp_status r = st \<and> resp_body r = b
     \<and> (\<forall>n. hget_all (resp_headers r) n = (if n \<in> set UNCACHEABLE_HEADERS then [] else hget_all hs n))"
proof -
  obtain e where e: "lru_peek ops (rc_store (cache_run ops cfg h)) (cache_key_from k) = Some e"
      and ne: "\<not> is_expired now e"
      and r: "r = \<lparr>resp_status = cr_status e, resp_headers = cr_headers e, resp_body = cr_body e\<rparr>"
    using hit unfolding cache_get_result [OF doc] by (auto split: option.splits if_splits)
  obtain op where op: "op \<in> set h" and st: "stored_by cfg op (cache_key_from k) e"
    using cache_run_inv [OF doc, of cfg h] e unfolding cache_inv_def by blast
  obtain t k' st' hs b d where P: "op = Put t k' st' hs b d"
    using st by (cases op) (auto simp: stored_by_def)
  have k: "k' = k" using st P cache_key_from_inject [of k k'] by (simp add: stored_by_def)
  show ?thesis
    using op st ne unfolding P k
    by (intro exI [of _ t] exI [of _ st'] exI [of _ hs] exI [of _ b] exI [of _ d])
      (simp add: stored_by_def r is_expired_def elapsed_def from_secs_def sanitized_for_cache_def hget_all_fold_remove)
qed

text \<open>
  A stored response is served until it expires and never after a flush: right after a put, a lookup
  of the same key at any later time returns the stored response while its time to live has not passed and
  nothing afterwards, a refused put changes nothing, and after \<open>clear\<close> every lookup misses.
\<close>
theorem cache_put_then_get:
  assumes doc: "lru_doc ops" and put: "cache_put ops now k st hs b d c = (c', ok)"
  shows "snd (cache_get ops now' k c') =
      (if \<not> ok then snd (cache_get ops now' k c)
       else if unat (case cd_max_age d of Some a \<Rightarrow> a | None \<Rightarrow> cac_default_ttl_secs (rc_config c)) * 1000000000 < now' - now
       then None
       else Some \<lparr>resp_status = st, resp_headers = sanitized_for_cache hs, resp_body = b\<rparr>)
    \<and> (ok = (\<not> cd_no_store d \<and> \<not> cd_is_private d \<and> length b \<le> cac_max_entry_bytes (rc_config c)
             \<and> (case cd_max_age d of Some a \<Rightarrow> a | None \<Rightarrow> cac_default_ttl_secs (rc_config c)) \<noteq> 0))
    \<and> snd (cache_get ops now' k'' (cache_clear ops c)) = None"
proof (intro conjI)
  show "snd (cache_get ops now' k'' (cache_clear ops c)) = None"
    by (simp add: cache_get_result [OF doc] cache_clear_def lru_docD(7) [OF doc])
qed (use put in \<open>auto simp: cache_put_def Let_def cache_get_result [OF doc] lru_docD(2) [OF doc] is_expired_def
      elapsed_def from_secs_def split: if_splits\<close>)

subsection \<open>Concrete histories\<close>

definition demo_key :: "string \<Rightarrow> cache_key_ref" where
  "demo_key i = \<lparr>key_method = ''GET'', key_path = ''/a'', key_identity = i\<rparr>"

definition demo_headers :: header_map where
  "demo_headers = [(''set-cookie'', ''s=1''), (''x'', ''y'')]"

theorem cache_hit_sound_witness:
  "\<exists>r. snd (cache_get alist_lru 5 (demo_key ''d1'')
      (cache_run alist_lru default_cache_config [Put 1 (demo_key ''d1'') 200 demo_headers [] default_directives])) = Some r
    \<and> hget_all (resp_headers r) ''set-cookie'' = []"
proof -
  let ?h = "[Put 1 (demo_key ''d1'') 200 demo_headers [] default_directives]"
  have ok: "snd (cache_get alist_lru 5 (demo_key ''d1'') (cache_run alist_lru default_cache_config ?h)) =
      Some \<lparr>resp_status = 200, resp_headers = sanitized_for_cache demo_headers, resp_body = []\<rparr>"
    unfolding cache_get_result [OF alist_lru_doc]
    by (simp add: cache_run_def cache_new_def cache_put_def Let_def
        default_directives_def default_cache_config_def alist_lru_def alist_put_def is_expired_def elapsed_def from_secs_def)
  have "''set-cookie'' \<in> set UNCACHEABLE_HEADERS" by (simp add: UNCACHEABLE_HEADERS_def)
  then show ?thesis using cache_hit_sound [OF alist_lru_doc ok] ok by metis
qed

theorem cache_put_then_get_witness:
  "snd (cache_get alist_lru 5 (demo_key ''d1'') (fst (cache_put alist_lru 1 (demo_key ''d1'') 200 demo_headers []
      default_directives (cache_new alist_lru default_cache_config)))) =
   Some \<lparr>resp_status = 200, resp_headers = [(''x'', ''y'')], resp_body = []\<rparr>"
proof -
  let ?p = "cache_put alist_lru 1 (demo_key ''d1'') 200 demo_headers [] default_directives
      (cache_new alist_lru default_cache_config)"
  have ok: "snd ?p"
    by (simp add: cache_put_def default_directives_def cache_new_def default_cache_config_def)
  then have ok': "\<not> \<not> snd ?p" by blast
  have fresh: "\<not> unat (case cd_max_age default_directives of Some a \<Rightarrow> a
      | None \<Rightarrow> cac_default_ttl_secs (rc_config (cache_new alist_lru default_cache_config))) * 1000000000 < 5 - 1"
    by (simp add: default_directives_def cache_new_def default_cache_config_def)
  have san: "sanitized_for_cache demo_headers = [(''x'', ''y'')]"
    by (simp add: sanitized_for_cache_def demo_headers_def UNCACHEABLE_HEADERS_def hremove_def)
  show ?thesis
    using cache_put_then_get [OF alist_lru_doc, of 1 "demo_key ''d1''" 200 demo_headers "[]" default_directives
        "cache_new alist_lru default_cache_config" "fst ?p" "snd ?p" 5 "demo_key ''d2''", OF prod.collapse [symmetric],
        THEN conjunct1]
    unfolding if_not_P [OF ok'] if_not_P [OF fresh] san .
qed

end
