(* ===== verification/Config.thy ===== *)
theory Config
  imports Config_Types
begin

section \<open>Cross-field validation (\<open>ReductionConfig::validate\<close>)\<close>

text \<open>
  One definition per \<open>validate_*\<close> method of \<open>config/types.rs\<close>, composed in the order of the code, and
  for each the exact condition under which it accepts. \<open>load_config\<close> composes them with reading the
  file (\<open>config/mod.rs\<close>), \<open>load_or_recover\<close> being \<open>fs_util.rs\<close>.
\<close>

definition MAX_ENVELOPE_FRAME :: nat where
  "MAX_ENVELOPE_FRAME = 64 * 1024"

text \<open>The loop shape of three validators: insert into a set and fail on a repeated key.\<close>

definition check_fresh :: "('x \<Rightarrow> 'k) \<Rightarrow> ('x \<Rightarrow> 'e) \<Rightarrow> 'k set \<Rightarrow> 'x \<Rightarrow> 'e + 'k set" where
  "check_fresh key err seen x = (if key x \<in> seen then Inl (err x) else Inr (insert (key x) seen))"

definition validate_no_duplicate_backend_ids :: "reduction_config \<Rightarrow> config_error + unit" where
  "validate_no_duplicate_backend_ids cfg =
     bind_res (fold_res (check_fresh bc_id (\<lambda>b. DuplicateBackendId (bc_id b))) {} (cfg_backends cfg))
       (\<lambda>_. Inr ())"

definition validate_route :: "string set \<Rightarrow> string set \<Rightarrow> route_config \<Rightarrow> config_error + string set" where
  "validate_route pools seen r =
     (if \<not> starts_with (rc_path_prefix r) ''/'' then Inl (PrefixNoSlash (rc_path_prefix r))
      else bind_res (check_fresh rc_path_prefix (\<lambda>r. DuplicatePrefix (rc_path_prefix r)) seen r) (\<lambda>seen'.
        if rc_backend_id r \<notin> pools then Inl (RouteNoPool (rc_path_prefix r) (rc_backend_id r))
        else Inr seen'))"

definition validate_routes :: "reduction_config \<Rightarrow> config_error + unit" where
  "validate_routes cfg =
     bind_res (fold_res (validate_route (set (map bc_pool (cfg_backends cfg)))) {} (cfg_routes cfg))
       (\<lambda>_. Inr ())"

definition validate_retry_backoff :: "reduction_config \<Rightarrow> config_error + unit" where
  "validate_retry_backoff cfg =
     (let r = cfg_retry cfg
      in if rtc_base_delay_ms r > rtc_max_delay_ms r
         then Inl (RetryBaseAboveMax (rtc_base_delay_ms r) (rtc_max_delay_ms r)) else Inr ())"

definition validate_ingress_caps :: "ingress_config \<Rightarrow> config_error + unit" where
  "validate_ingress_caps g =
     (if igc_max_datagram_bytes g = 0 \<or> igc_batch_max_datagrams g = 0 \<or> igc_batch_max_bytes g = 0
         \<or> igc_queue_depth_per_backend g = 0 \<or> igc_recv_buffer_bytes g = 0
      then Inl (IngressZeroCap (igc_id g))
      else if igc_max_datagram_bytes g > MAX_UDP_DATAGRAM_BYTES
      then Inl (IngressDatagramTooLarge (igc_id g) (igc_max_datagram_bytes g))
      else if igc_batch_max_bytes g < igc_max_datagram_bytes g
      then Inl (IngressBatchTooSmall (igc_id g) (igc_batch_max_bytes g) (igc_max_datagram_bytes g))
      else if unat (igc_batch_max_bytes g) > MAX_ENVELOPE_FRAME
      then Inl (IngressBatchTooLarge (igc_id g) (igc_batch_max_bytes g))
      else Inr ())"

definition validate_ingress_entry ::
    "string set \<Rightarrow> bool \<Rightarrow> socket_addr set \<Rightarrow> ingress_config \<Rightarrow> config_error + socket_addr set" where
  "validate_ingress_entry quic_ids has_allowlist seen g =
     (if igc_backend_ids g = [] then Inl (IngressNoBackends (igc_id g))
      else bind_res (check_all (\<lambda>i. if i \<in> quic_ids then None else Some (IngressNotQuic (igc_id g) i))
             (igc_backend_ids g)) (\<lambda>_.
           bind_res (validate_ingress_caps g) (\<lambda>_.
           bind_res (check_fresh igc_listen (\<lambda>g. IngressDuplicateListen (igc_listen g)) seen g) (\<lambda>seen'.
             if \<not> is_private_listen_addr (sa_ip (igc_listen g)) \<and> \<not> has_allowlist
             then Inl (IngressNotPrivate (igc_id g) (igc_listen g)) else Inr seen'))))"

definition quic_backend_ids :: "reduction_config \<Rightarrow> string set" where
  "quic_backend_ids cfg = set (map bc_id (filter (\<lambda>b. bc_transport b = Quic) (cfg_backends cfg)))"

definition validate_ingress :: "reduction_config \<Rightarrow> config_error + unit" where
  "validate_ingress cfg =
     bind_res (fold_res (validate_ingress_entry (quic_backend_ids cfg) (acc_allow (cfg_access cfg) \<noteq> []))
       {} (cfg_ingress cfg)) (\<lambda>_. Inr ())"

definition validate_backend_schemes :: "reduction_config \<Rightarrow> config_error + unit" where
  "validate_backend_schemes cfg =
     check_all (\<lambda>b. if is_plaintext (bc_scheme b) \<and> bc_transport b \<noteq> Tcp
                    then Some (PlainHttpOverQuic (bc_id b)) else None) (cfg_backends cfg)"

definition needs_client_tls :: "reduction_config \<Rightarrow> bool" where
  "needs_client_tls cfg = list_ex backend_needs_client_tls (cfg_backends cfg)"

definition validate_client_identity :: "reduction_config \<Rightarrow> config_error + unit" where
  "validate_client_identity cfg =
     (if tls_client (cfg_tls cfg) \<noteq> None then Inr ()
      else check_all (\<lambda>b. if backend_needs_client_tls b
                          then Some (ClientIdentityMissing (bc_id b) (bc_transport b = Quic)) else None)
             (cfg_backends cfg))"

definition validate_acme_inbound_ca :: "reduction_config \<Rightarrow> config_error + unit" where
  "validate_acme_inbound_ca cfg =
     (case tls_server (cfg_tls cfg) of Manual _ \<Rightarrow> Inr ()
      | AcmeServer a \<Rightarrow>
          if builds_verifier (lc_client_auth (cfg_listen cfg)) \<and> atc_ca_cert_path a = None
          then Inl AcmeCaMissing else Inr ())"

definition validate_http_redirect :: "reduction_config \<Rightarrow> config_error + unit" where
  "validate_http_redirect cfg =
     (let r = cfg_http_redirect cfg; host = trim (hrc_to_host r)
      in if \<not> hrc_enabled r then Inr ()
         else if host = [] then Inl RedirectNoHost
         else if contains_str host ''://'' \<or> CHR ''/'' \<in> set host then Inl (RedirectNotBare host)
         else if hrc_listen r = lc_address (cfg_listen cfg) then Inl (RedirectCollidesMain (hrc_listen r))
         else Inr ())"

definition validate_health_endpoint :: "reduction_config \<Rightarrow> config_error + unit" where
  "validate_health_endpoint cfg =
     (let h = cfg_health_endpoint cfg
      in if \<not> hec_enabled h then Inr ()
         else if hec_listen h = lc_address (cfg_listen cfg) then Inl (HealthCollidesMain (hec_listen h))
         else if hrc_enabled (cfg_http_redirect cfg) \<and> hec_listen h = hrc_listen (cfg_http_redirect cfg)
         then Inl (HealthCollidesRedirect (hec_listen h))
         else Inr ())"

definition validate_acme_barrel_state :: "reduction_config \<Rightarrow> config_error + unit" where
  "validate_acme_barrel_state cfg =
     (case tls_server (cfg_tls cfg) of Manual _ \<Rightarrow> Inr ()
      | AcmeServer a \<Rightarrow> (case atc_barrel_state a of None \<Rightarrow> Inr ()
          | Some b \<Rightarrow> if bsc_persist_command b = [] then Inl AcmePersistEmpty else Inr ()))"

definition validate :: "reduction_config \<Rightarrow> config_error + unit" where
  "validate cfg =
     bind_res (validate_no_duplicate_backend_ids cfg) (\<lambda>_.
     bind_res (validate_routes cfg) (\<lambda>_.
     bind_res (validate_retry_backoff cfg) (\<lambda>_.
     bind_res (validate_ingress cfg) (\<lambda>_.
     bind_res (validate_backend_schemes cfg) (\<lambda>_.
     bind_res (validate_client_identity cfg) (\<lambda>_.
     bind_res (validate_acme_inbound_ca cfg) (\<lambda>_.
     bind_res (validate_http_redirect cfg) (\<lambda>_.
     bind_res (validate_health_endpoint cfg) (\<lambda>_.
     validate_acme_barrel_state cfg)))))))))"

text \<open>
  \<open>fs_util.rs\<close>: a file is absent, unreadable (with the error text) or has contents; \<open>rename_ok\<close> is
  whether the quarantine rename succeeds and \<open>ts\<close> the Unix time in seconds.
\<close>

datatype file_node = Missing | Unreadable string | FileText string

type_synonym files = "string \<Rightarrow> file_node"

definition corrupt_path :: "string \<Rightarrow> nat \<Rightarrow> string" where
  "corrupt_path path ts = path @ ''.corrupt.'' @ show_nat ts"

definition load_or_recover ::
    "(string \<Rightarrow> string + 'a) \<Rightarrow> bool \<Rightarrow> nat \<Rightarrow> string \<Rightarrow> files \<Rightarrow> files \<times> 'a result" where
  "load_or_recover parse_fn rename_ok ts path fs =
     (case fs path of
        Missing \<Rightarrow> (fs, Inl (Io ''not found''))
      | Unreadable e \<Rightarrow> (fs, Inl (Io e))
      | FileText c \<Rightarrow>
          (case parse_fn c of
             Inr v \<Rightarrow> (fs, Inr v)
           | Inl e \<Rightarrow>
               (if rename_ok then fs(path := Missing, corrupt_path path ts := FileText c) else fs,
                Inl (ConfigParse e))))"

definition load_config ::
    "(string \<Rightarrow> string + reduction_config) \<Rightarrow> bool \<Rightarrow> nat \<Rightarrow> string \<Rightarrow> files \<Rightarrow> files \<times> reduction_config result"
  where
  "load_config from_str rename_ok ts path fs =
     (let (fs', r) = load_or_recover from_str rename_ok ts path fs
      in (fs', bind_res r (\<lambda>cfg. bind_res (map_err Config (validate cfg)) (\<lambda>_. Inr cfg))))"

subsection \<open>What each validator accepts\<close>

named_theorems validate_ok \<open>acceptance conditions of the validators\<close>

lemma check_fresh_ok [simp]: "check_fresh key err seen x = Inr t \<longleftrightarrow> key x \<notin> seen \<and> t = insert (key x) seen"
  by (auto simp: check_fresh_def)

text \<open>A loop that checks a condition on each element and the freshness of its key.\<close>

lemma fold_fresh_ok:
  assumes "\<And>seen x t. f seen x = Inr t \<longleftrightarrow> P x \<and> key x \<notin> seen \<and> t = insert (key x) seen"
  shows "(\<exists>t. fold_res f seen xs = Inr t) \<longleftrightarrow>
         (\<forall>x \<in> set xs. P x) \<and> distinct (map key xs) \<and> set (map key xs) \<inter> seen = {}"
proof (induction xs arbitrary: seen)
  case Nil
  then show ?case by simp
next
  case (Cons x xs)
  show ?case
  proof (cases "f seen x")
    case (Inl e)
    then have "\<not> (P x \<and> key x \<notin> seen)" using assms [of seen x] by auto
    with Inl show ?thesis by auto
  next
    case (Inr t)
    with assms [of seen x t] have "P x" "key x \<notin> seen" "t = insert (key x) seen" by auto
    with Inr Cons.IH [of t] show ?thesis by auto
  qed
qed

lemma bind_unit_ok: "bind_res m (\<lambda>_. Inr ()) = Inr () \<longleftrightarrow> (\<exists>t. m = Inr t)"
  by (cases m) auto

lemma validate_no_duplicate_ok [validate_ok]:
  "validate_no_duplicate_backend_ids cfg = Inr () \<longleftrightarrow> distinct (map bc_id (cfg_backends cfg))"
  unfolding validate_no_duplicate_backend_ids_def bind_unit_ok
  by (subst fold_fresh_ok [where P = "\<lambda>_. True" and key = bc_id]) auto

lemma validate_routes_ok [validate_ok]:
  "validate_routes cfg = Inr () \<longleftrightarrow>
     (\<forall>r \<in> set (cfg_routes cfg). starts_with (rc_path_prefix r) ''/''
        \<and> rc_backend_id r \<in> bc_pool ` set (cfg_backends cfg))
     \<and> distinct (map rc_path_prefix (cfg_routes cfg))"
  unfolding validate_routes_def bind_unit_ok
  by (subst fold_fresh_ok [where key = rc_path_prefix and P = "\<lambda>r. starts_with (rc_path_prefix r) ''/''
        \<and> rc_backend_id r \<in> bc_pool ` set (cfg_backends cfg)"])
     (auto simp: validate_route_def res_simps)

lemma validate_retry_ok [validate_ok]:
  "validate_retry_backoff cfg = Inr () \<longleftrightarrow> rtc_base_delay_ms (cfg_retry cfg) \<le> rtc_max_delay_ms (cfg_retry cfg)"
  by (auto simp: validate_retry_backoff_def Let_def not_less [symmetric])

definition ingress_caps_ok :: "ingress_config \<Rightarrow> bool" where
  "ingress_caps_ok g \<longleftrightarrow> 0 < igc_max_datagram_bytes g \<and> 0 < igc_batch_max_datagrams g
     \<and> 0 < igc_queue_depth_per_backend g \<and> 0 < igc_recv_buffer_bytes g
     \<and> igc_max_datagram_bytes g \<le> MAX_UDP_DATAGRAM_BYTES
     \<and> igc_max_datagram_bytes g \<le> igc_batch_max_bytes g
     \<and> unat (igc_batch_max_bytes g) \<le> MAX_ENVELOPE_FRAME"

lemma validate_caps_ok [validate_ok]: "validate_ingress_caps g = Inr () \<longleftrightarrow> ingress_caps_ok g"
  by (auto simp: validate_ingress_caps_def ingress_caps_ok_def not_less word_neq_0_conv)

definition ingress_entry_ok :: "reduction_config \<Rightarrow> ingress_config \<Rightarrow> bool" where
  "ingress_entry_ok cfg g \<longleftrightarrow> igc_backend_ids g \<noteq> [] \<and> set (igc_backend_ids g) \<subseteq> quic_backend_ids cfg
     \<and> ingress_caps_ok g
     \<and> (is_private_listen_addr (sa_ip (igc_listen g)) \<or> acc_allow (cfg_access cfg) \<noteq> [])"

lemma validate_ingress_ok [validate_ok]:
  "validate_ingress cfg = Inr () \<longleftrightarrow>
     (\<forall>g \<in> set (cfg_ingress cfg). ingress_entry_ok cfg g) \<and> distinct (map igc_listen (cfg_ingress cfg))"
  unfolding validate_ingress_def bind_unit_ok
  by (subst fold_fresh_ok [where key = igc_listen and P = "ingress_entry_ok cfg"])
     (auto simp: validate_ingress_entry_def ingress_entry_ok_def res_simps validate_ok split: if_splits)

lemma validate_schemes_ok [validate_ok]:
  "validate_backend_schemes cfg = Inr () \<longleftrightarrow>
     (\<forall>b \<in> set (cfg_backends cfg). bc_scheme b = Http \<longrightarrow> bc_transport b = Tcp)"
  by (auto simp: validate_backend_schemes_def res_simps is_plaintext_def split: backend_scheme.splits)

lemma validate_client_identity_ok [validate_ok]:
  "validate_client_identity cfg = Inr () \<longleftrightarrow> (needs_client_tls cfg \<longrightarrow> tls_client (cfg_tls cfg) \<noteq> None)"
  by (auto simp: validate_client_identity_def res_simps needs_client_tls_def list_ex_iff split: if_splits)

lemma validate_acme_ca_ok [validate_ok]:
  "validate_acme_inbound_ca cfg = Inr () \<longleftrightarrow>
     (builds_verifier (lc_client_auth (cfg_listen cfg)) \<longrightarrow> ca_cert_path (tls_server (cfg_tls cfg)) \<noteq> None)"
  by (auto simp: validate_acme_inbound_ca_def ca_cert_path_def split: server_tls_config.splits)

definition redirect_ok :: "reduction_config \<Rightarrow> bool" where
  "redirect_ok cfg \<longleftrightarrow> (hrc_enabled (cfg_http_redirect cfg) \<longrightarrow>
     trim (hrc_to_host (cfg_http_redirect cfg)) \<noteq> [] \<and>
     CHR ''/'' \<notin> set (trim (hrc_to_host (cfg_http_redirect cfg))) \<and>
     hrc_listen (cfg_http_redirect cfg) \<noteq> lc_address (cfg_listen cfg))"

lemma contains_str_set: "contains_str s p \<Longrightarrow> set p \<subseteq> set s"
proof (induction s)
  case (Cons c s)
  then show ?case
    by (metis contains_str.simps(2) dual_order.trans set_append set_subset_Cons starts_with_iff sup_ge1)
qed simp

lemma validate_redirect_ok [validate_ok]: "validate_http_redirect cfg = Inr () \<longleftrightarrow> redirect_ok cfg"
  using contains_str_set [of "trim (hrc_to_host (cfg_http_redirect cfg))" "''://''"]
  by (auto simp: validate_http_redirect_def redirect_ok_def Let_def)

definition health_endpoint_ok :: "reduction_config \<Rightarrow> bool" where
  "health_endpoint_ok cfg \<longleftrightarrow> (hec_enabled (cfg_health_endpoint cfg) \<longrightarrow>
     hec_listen (cfg_health_endpoint cfg) \<noteq> lc_address (cfg_listen cfg) \<and>
     (hrc_enabled (cfg_http_redirect cfg) \<longrightarrow>
        hec_listen (cfg_health_endpoint cfg) \<noteq> hrc_listen (cfg_http_redirect cfg)))"

lemma validate_health_ok [validate_ok]: "validate_health_endpoint cfg = Inr () \<longleftrightarrow> health_endpoint_ok cfg"
  by (auto simp: validate_health_endpoint_def health_endpoint_ok_def Let_def)

definition barrel_ok :: "reduction_config \<Rightarrow> bool" where
  "barrel_ok cfg \<longleftrightarrow> (\<forall>a b. tls_server (cfg_tls cfg) = AcmeServer a \<longrightarrow> atc_barrel_state a = Some b \<longrightarrow>
     bsc_persist_command b \<noteq> [])"

lemma validate_barrel_ok [validate_ok]: "validate_acme_barrel_state cfg = Inr () \<longleftrightarrow> barrel_ok cfg"
  by (auto simp: validate_acme_barrel_state_def barrel_ok_def split: server_tls_config.splits option.splits)

text \<open>The topology part of a valid configuration, on which routing and balancing rest.\<close>

definition topology_ok :: "reduction_config \<Rightarrow> bool" where
  "topology_ok cfg \<longleftrightarrow> distinct (map bc_id (cfg_backends cfg))
     \<and> (\<forall>r \<in> set (cfg_routes cfg). starts_with (rc_path_prefix r) ''/''
          \<and> rc_backend_id r \<in> bc_pool ` set (cfg_backends cfg))
     \<and> distinct (map rc_path_prefix (cfg_routes cfg))
     \<and> (\<forall>b \<in> set (cfg_backends cfg). bc_scheme b = Http \<longrightarrow> bc_transport b = Tcp)
     \<and> (needs_client_tls cfg \<longrightarrow> tls_client (cfg_tls cfg) \<noteq> None)"

definition sections_ok :: "reduction_config \<Rightarrow> bool" where
  "sections_ok cfg \<longleftrightarrow> rtc_base_delay_ms (cfg_retry cfg) \<le> rtc_max_delay_ms (cfg_retry cfg)
     \<and> (\<forall>g \<in> set (cfg_ingress cfg). ingress_entry_ok cfg g) \<and> distinct (map igc_listen (cfg_ingress cfg))
     \<and> (builds_verifier (lc_client_auth (cfg_listen cfg)) \<longrightarrow> ca_cert_path (tls_server (cfg_tls cfg)) \<noteq> None)
     \<and> redirect_ok cfg \<and> health_endpoint_ok cfg \<and> barrel_ok cfg"

lemma validate_iff: "validate cfg = Inr () \<longleftrightarrow> topology_ok cfg \<and> sections_ok cfg"
  by (simp add: validate_def res_simps validate_ok topology_ok_def sections_ok_def) blast

text \<open>
  Claim C28. \<open>load_config\<close> returns a configuration only when the file parses and satisfies every
  cross-field invariant, and then the file stays in place: unique backend ids, every route naming a
  pool that has a backend and a prefix that starts with a slash and occurs once, no cleartext QUIC
  backend, a client identity whenever a backend needs one, and the listener sections consistent.
\<close>
theorem load_config_sound:
  "load_config from_str rename_ok ts path fs = (fs', Inr cfg) \<longleftrightarrow>
     fs' = fs \<and> (\<exists>c. fs path = FileText c \<and> from_str c = Inr cfg) \<and> topology_ok cfg \<and> sections_ok cfg"
  by (auto simp: load_config_def load_or_recover_def res_simps map_err_def
        validate_iff [symmetric] split: file_node.splits sum.splits prod.splits if_splits)

text \<open>
  Quarantine only hits unparseable files: when loading changes the file system at all, the
  file did not parse, its text is preserved under the quarantine name and the result is the parse
  error. A file that parses but violates an invariant is left where it is.
\<close>
theorem load_config_quarantine:
  assumes "load_config from_str rename_ok ts path fs = (fs', r)" and "fs' \<noteq> fs"
  shows "\<exists>c e. fs path = FileText c \<and> from_str c = Inl e \<and> r = Inl (ConfigParse e)
     \<and> fs' path = Missing \<and> fs' (corrupt_path path ts) = FileText c"
proof -
  have "corrupt_path path ts \<noteq> path" by (simp add: corrupt_path_def)
  then show ?thesis using assms
    by (auto simp: load_config_def load_or_recover_def split: file_node.splits sum.splits prod.splits if_splits)
qed

theorem load_config_quarantine_witness:
  "\<exists>c e. FileText ''['' = FileText c \<and> (Inl ''bad'' :: string + reduction_config) = Inl e
     \<and> snd (load_config (\<lambda>_. Inl ''bad'') True 7 ''c.toml'' ((\<lambda>_. Missing)(''c.toml'' := FileText ''['')))
         = Inl (ConfigParse e)"
proof -
  let ?fs = "(\<lambda>_. Missing)(''c.toml'' := FileText ''['')"
  let ?out = "load_config (\<lambda>_. Inl ''bad'') True 7 ''c.toml'' ?fs"
  have "fst ?out (''c.toml'') = Missing"
    by (simp add: load_config_def load_or_recover_def corrupt_path_def)
  then have "fst ?out \<noteq> ?fs" by (metis file_node.distinct(3) fun_upd_same)
  from load_config_quarantine [OF _ this, of "\<lambda>_. Inl ''bad''" True 7 "''c.toml''" "snd ?out"]
  show ?thesis by auto
qed

end
