(* ===== verification/Router.thy ===== *)
theory Router
  imports Http Config
begin

section \<open>Routing, the HTTPS redirect and the health probes\<close>

text \<open>
  \<open>proxy/router.rs\<close>: routes sorted by descending prefix length (Rust's \<open>sort_by_key\<close> is stable, as is
  \<^term>\<open>sort_key\<close>) and searched front to back. \<open>redirect.rs\<close>: the port-80 redirect. \<open>health_endpoint.rs\<close>: the
  readiness flag and its two probes; the listeners around them are not modelled.
\<close>

record route =
  rt_path_prefix :: string
  rt_backend_id :: string
  rt_timeout_secs :: "u64 option"

record route_match =
  rm_backend_id :: string
  rm_timeout_secs :: "u64 option"

type_synonym router = "route list"

definition route_of :: "route_config \<Rightarrow> route" where
  "route_of rc = \<lparr>rt_path_prefix = rc_path_prefix rc, rt_backend_id = rc_backend_id rc, rt_timeout_secs = rc_timeout_secs rc\<rparr>"

definition router_new :: "route_config list \<Rightarrow> router" where
  "router_new rcs = sort_key (\<lambda>r. - int (length (rt_path_prefix r))) (map route_of rcs)"

definition route_applies :: "string \<Rightarrow> route \<Rightarrow> bool" where
  "route_applies path r \<longleftrightarrow> (let p = rt_path_prefix r in
     starts_with path p \<and> (length path = length p \<or> ends_with p ''/'' \<or> path ! length p = CHR ''/''))"

fun match_route :: "router \<Rightarrow> string \<Rightarrow> route_match option" where
  "match_route [] path = None"
| "match_route (r # rs) path =
     (if route_applies path r then Some \<lparr>rm_backend_id = rt_backend_id r, rm_timeout_secs = rt_timeout_secs r\<rparr>
      else match_route rs path)"

subsection \<open>Redirect\<close>

definition redirect_location :: "string \<Rightarrow> string \<Rightarrow> string" where
  "redirect_location host pq = ''https://'' @ host @ pq"

definition build_redirect :: "string \<Rightarrow> string \<Rightarrow> response" where
  "build_redirect host pq =
     (case header_value_from_str (redirect_location host pq) of
        Some v \<Rightarrow> \<lparr>resp_status = 308, resp_headers = hinsert ''location'' v [], resp_body = []\<rparr>
      | None \<Rightarrow> \<lparr>resp_status = 400, resp_headers = [], resp_body = []\<rparr>)"

definition redirect_handler :: "string \<Rightarrow> string option \<Rightarrow> header_map \<Rightarrow> response" where
  "redirect_handler host path_and_query req_headers =
     build_redirect host (case path_and_query of None \<Rightarrow> ''/'' | Some pq \<Rightarrow> pq)"

subsection \<open>Probes\<close>

definition STATE_STARTING :: u8 where "STATE_STARTING = 0"
definition STATE_READY :: u8 where "STATE_READY = 1"
definition STATE_DRAINING :: u8 where "STATE_DRAINING = 2"

type_synonym readiness = u8

definition readiness_new :: readiness where "readiness_new = STATE_STARTING"
definition set_ready :: "readiness \<Rightarrow> readiness" where "set_ready s = STATE_READY"
definition set_draining :: "readiness \<Rightarrow> readiness" where "set_draining s = STATE_DRAINING"
definition is_ready :: "readiness \<Rightarrow> bool" where "is_ready s \<longleftrightarrow> s = STATE_READY"

definition label :: "readiness \<Rightarrow> string" where
  "label s = (if s = STATE_READY then ''ready'' else if s = STATE_DRAINING then ''draining'' else ''starting'')"

definition text_response :: "nat \<Rightarrow> string \<Rightarrow> nat \<times> string" where
  "text_response status body = (status, body)"

definition livez :: "nat \<times> string" where "livez = text_response 200 ''alive''"

definition readyz :: "readiness \<Rightarrow> nat \<times> string" where
  "readyz s = (if is_ready s then text_response 200 ''ready''
     else if label s = ''draining'' then text_response 503 ''draining'' else text_response 503 ''starting'')"

subsection \<open>The longest prefix wins\<close>

lemma match_route_None: "match_route rs path = None \<longleftrightarrow> (\<forall>r\<in>set rs. \<not> route_applies path r)"
  by (induction rs) auto

lemma match_route_first:
  assumes "match_route rs path = Some m" and "sorted (map f rs)"
  obtains r where "r \<in> set rs" "route_applies path r" "\<forall>r'\<in>set rs. route_applies path r' \<longrightarrow> f r \<le> f r'"
    "m = \<lparr>rm_backend_id = rt_backend_id r, rm_timeout_secs = rt_timeout_secs r\<rparr>"
  using assms by (induction rs arbitrary: thesis) (auto split: if_splits)

lemma set_router_new [simp]: "set (router_new rcs) = route_of ` set rcs"
  by (simp add: router_new_def)

lemma router_new_sorted: "sorted (map (\<lambda>r. - int (length (rt_path_prefix r))) (router_new rcs))"
  by (simp add: router_new_def)

definition prefix_applies :: "string \<Rightarrow> string \<Rightarrow> bool" where
  "prefix_applies path p \<longleftrightarrow> (\<exists>rest. path = p @ rest \<and> (rest = [] \<or> (p \<noteq> [] \<and> last p = CHR ''/'') \<or> hd rest = CHR ''/''))"

lemma ends_with_single: "ends_with p [c] \<longleftrightarrow> p \<noteq> [] \<and> last p = c"
  by (cases p rule: rev_cases) (auto simp: ends_with_def)

lemma route_applies_iff: "route_applies path r \<longleftrightarrow> prefix_applies path (rt_path_prefix r)"
proof (cases "starts_with path (rt_path_prefix r)")
  case True
  then obtain rest where "path = rt_path_prefix r @ rest"
    unfolding starts_with_def by (metis append_take_drop_id)
  then show ?thesis
    by (cases rest) (auto simp: route_applies_def prefix_applies_def starts_with_def ends_with_single Let_def)
qed (auto simp: route_applies_def prefix_applies_def starts_with_def Let_def)

lemma prefix_applies_same_length:
  "prefix_applies path p \<Longrightarrow> prefix_applies path q \<Longrightarrow> length p = length q \<Longrightarrow> p = q"
  by (auto simp: prefix_applies_def)

lemma match_route_longest:
  assumes "match_route (router_new rcs) path = Some m"
  obtains rc where "rc \<in> set rcs" "prefix_applies path (rc_path_prefix rc)"
    "\<forall>rc'\<in>set rcs. prefix_applies path (rc_path_prefix rc') \<longrightarrow> length (rc_path_prefix rc') \<le> length (rc_path_prefix rc)"
    "m = \<lparr>rm_backend_id = rc_backend_id rc, rm_timeout_secs = rc_timeout_secs rc\<rparr>"
proof -
  obtain r where r: "r \<in> set (router_new rcs)" "route_applies path r"
      "\<forall>r'\<in>set (router_new rcs). route_applies path r' \<longrightarrow> - int (length (rt_path_prefix r)) \<le> - int (length (rt_path_prefix r'))"
      "m = \<lparr>rm_backend_id = rt_backend_id r, rm_timeout_secs = rt_timeout_secs r\<rparr>"
    using match_route_first [OF assms router_new_sorted] by blast
  then obtain rc where "rc \<in> set rcs" "r = route_of rc" by auto
  with r show thesis by (intro that [of rc]) (auto simp: route_of_def route_applies_iff)
qed

text \<open>
  Claim C31. Longest-prefix routing: with pairwise different prefixes (what validation enforces), a request
  path is routed to the configuration entry whose prefix is the longest one ending at a path-segment
  boundary, and to none exactly when no entry's prefix applies.
\<close>
theorem routing_longest_prefix:
  assumes dist: "distinct (map rc_path_prefix rcs)"
  shows "match_route (router_new rcs) path = Some m \<longleftrightarrow>
    (\<exists>rc\<in>set rcs. prefix_applies path (rc_path_prefix rc)
       \<and> (\<forall>rc'\<in>set rcs. prefix_applies path (rc_path_prefix rc') \<longrightarrow> length (rc_path_prefix rc') \<le> length (rc_path_prefix rc))
       \<and> m = \<lparr>rm_backend_id = rc_backend_id rc, rm_timeout_secs = rc_timeout_secs rc\<rparr>)"
    (is "?l \<longleftrightarrow> ?r")
proof
  assume ?l then show ?r by (rule match_route_longest) blast
next
  assume ?r
  then obtain rc where rc: "rc \<in> set rcs" "prefix_applies path (rc_path_prefix rc)"
      "\<forall>rc'\<in>set rcs. prefix_applies path (rc_path_prefix rc') \<longrightarrow> length (rc_path_prefix rc') \<le> length (rc_path_prefix rc)"
      "m = \<lparr>rm_backend_id = rc_backend_id rc, rm_timeout_secs = rc_timeout_secs rc\<rparr>" by blast
  have "route_applies path (route_of rc)" using rc(2) by (simp add: route_applies_iff route_of_def)
  then obtain m' where m': "match_route (router_new rcs) path = Some m'"
    using rc(1) match_route_None [of "router_new rcs" path] by (cases "match_route (router_new rcs) path") auto
  then obtain rc' where rc': "rc' \<in> set rcs" "prefix_applies path (rc_path_prefix rc')"
      "\<forall>rc''\<in>set rcs. prefix_applies path (rc_path_prefix rc'') \<longrightarrow> length (rc_path_prefix rc'') \<le> length (rc_path_prefix rc')"
      "m' = \<lparr>rm_backend_id = rc_backend_id rc', rm_timeout_secs = rc_timeout_secs rc'\<rparr>"
    by (rule match_route_longest) blast
  have "rc_path_prefix rc = rc_path_prefix rc'"
    using rc rc' by (intro prefix_applies_same_length [of path]) (auto intro: antisym)
  then have "rc = rc'" using dist rc(1) rc'(1) by (auto simp: distinct_map dest: inj_onD)
  then show ?l using m' rc(4) rc'(4) by simp
qed

definition demo_routes :: "route_config list" where
  "demo_routes = [\<lparr>rc_path_prefix = ''/'', rc_backend_id = ''web'', rc_timeout_secs = None\<rparr>,
                  \<lparr>rc_path_prefix = ''/api'', rc_backend_id = ''api'', rc_timeout_secs = Some 5\<rparr>]"

theorem routing_longest_prefix_witness:
  "match_route (router_new demo_routes) ''/api/x'' = Some \<lparr>rm_backend_id = ''api'', rm_timeout_secs = Some 5\<rparr>"
proof -
  have "distinct (map rc_path_prefix demo_routes)" by (simp add: demo_routes_def)
  then show ?thesis
    unfolding routing_longest_prefix [OF \<open>distinct _\<close>] by (simp add: demo_routes_def prefix_applies_def)
qed

text \<open>
  The redirect never leaves the configured host: whatever the request's headers, a redirect points
  at \<open>https://\<close>, the configured host and the request's own path and query, and a target that is no valid
  header value yields 400 without a location.
\<close>
theorem redirect_closed:
  "(let r = redirect_handler host pq req_headers;
        target = ''https://'' @ host @ (case pq of None \<Rightarrow> ''/'' | Some q \<Rightarrow> q)
    in (resp_status r, hget_all (resp_headers r) ''location'') =
         (if visible_ascii target then (308, [target]) else (400, []))
       \<and> redirect_handler host pq other_headers = r)"
  by (auto simp: redirect_handler_def build_redirect_def redirect_location_def header_value_from_str_def Let_def
      hinsert_def hremove_def hget_all_def)

end
