(* ===== verification/Framing.thy ===== *)
theory Framing
  imports Errors
begin

section \<open>Byte streams and length-prefixed frames\<close>

text \<open>
  What the tunnel and the ingress protocol share: a reader is the bytes its peer still delivers before
  closing, a writer records what it sent and how many more bytes the transport takes before it fails.
  bitcode, the codec of both protocols, is a parameter: an encoder to bytes and a decoder that answers a
  value, an error or (caught by \<open>catch_unwind\<close>) a panic. \<open>framed_stream\<close> is the contract a stream of
  frames gives its users; both protocols implement it.
\<close>

type_synonym reader = bytes

definition read_exact :: "nat \<Rightarrow> reader \<Rightarrow> (string + bytes) \<times> reader" where
  "read_exact n r = (if length r < n then (Inl ''early eof'', []) else (Inr (take n r), drop n r))"

record writer =
  w_out :: bytes
  w_room :: nat
  w_flush_ok :: bool

definition write_all :: "bytes \<Rightarrow> writer \<Rightarrow> (string + unit) \<times> writer" where
  "write_all bs w =
     (if length bs \<le> w_room w then (Inr (), w\<lparr>w_out := w_out w @ bs, w_room := w_room w - length bs\<rparr>)
      else (Inl ''broken pipe'', w\<lparr>w_out := w_out w @ take (w_room w) bs, w_room := 0\<rparr>))"

definition flush :: "writer \<Rightarrow> (string + unit) \<times> writer" where
  "flush w = (if w_flush_ok w then (Inr (), w) else (Inl ''broken pipe'', w))"

datatype 'f decode_outcome = DecodePanic | DecodeError string | Decoded 'f

text \<open>Sequencing of calls that may fail: \<open>?\<close> after \<open>map_err\<close>.\<close>

definition io_err :: "(string \<Rightarrow> reduction_error) \<Rightarrow> (string + 'a) \<times> 's \<Rightarrow> 'a result \<times> 's" where
  "io_err f m = (case m of (Inl e, s) \<Rightarrow> (Inl (f e), s) | (Inr x, s) \<Rightarrow> (Inr x, s))"

definition io_bind :: "'a result \<times> 's \<Rightarrow> ('a \<Rightarrow> 's \<Rightarrow> 'b result \<times> 's) \<Rightarrow> 'b result \<times> 's" where
  "io_bind m k = (case m of (Inl e, s) \<Rightarrow> (Inl e, s) | (Inr x, s) \<Rightarrow> k x s)"

lemma io_bind_simps [simp]: "io_bind (Inl e, s) k = (Inl e, s)" "io_bind (Inr x, s) k = k x s"
  by (simp_all add: io_bind_def)

lemma io_err_simps [simp]: "io_err f (Inl e, s) = (Inl (f e), s)" "io_err f (Inr x, s) = (Inr x, s)"
  by (simp_all add: io_err_def)

lemma io_bind_ok: "io_bind m k = (Inr y, t) \<longleftrightarrow> (\<exists>x s. m = (Inr x, s) \<and> k x s = (Inr y, t))"
  by (auto simp: io_bind_def split: prod.splits sum.splits)

lemma io_err_ok: "io_err f m = (Inr x, s) \<longleftrightarrow> m = (Inr x, s)"
  by (auto simp: io_err_def split: prod.splits sum.splits)

subsection \<open>Big-endian words\<close>

lemma be_step:
  fixes w :: "'a::len word"
  shows "push_bit 8 (drop_bit (m + 8) w) OR ucast (ucast (drop_bit m w) :: 8 word) = drop_bit m w"
proof (rule bit_word_eqI)
  fix n
  assume "n < LENGTH('a)"
  then show "bit (push_bit 8 (drop_bit (m + 8) w) OR ucast (ucast (drop_bit m w) :: 8 word)) n = bit (drop_bit m w) n"
    by (cases "n < 8") (auto simp: bit_simps)
qed

lemma from_be_bytes_prefix:
  fixes w :: "'a::len word"
  assumes "LENGTH('a) = 8 * n" and "k \<le> n"
  shows "from_be_bytes (map (\<lambda>i. ucast (drop_bit (8 * (n - 1 - i)) w)) [0..<k]) = drop_bit (8 * (n - k)) w"
  using assms(2)
proof (induction k)
  case 0
  have "drop_bit (8 * n) w = 0" using assms(1) by (intro bit_word_eqI) (auto simp: bit_simps dest: bit_imp_le_length)
  then show ?case by (simp add: from_be_bytes_def)
next
  case (Suc k)
  have e: "8 * (n - k) = 8 * (n - Suc k) + 8" using Suc.prems by simp
  have i: "n - 1 - k = n - Suc k" by simp
  show ?case using Suc by (simp add: from_be_bytes_def e i be_step)
qed

lemma from_be_bytes_be_bytes:
  fixes w :: "'a::len word"
  assumes "LENGTH('a) = 8 * n"
  shows "from_be_bytes (be_bytes n w) = w"
  using from_be_bytes_prefix [OF assms order_refl] by (simp add: be_bytes_def)

lemma from_be_bytes_32 [simp]: "from_be_bytes (be_bytes 4 w) = (w :: u32)"
  by (rule from_be_bytes_be_bytes) simp

lemma from_be_bytes_128 [simp]: "from_be_bytes (be_bytes 16 w) = (w :: 128 word)"
  by (rule from_be_bytes_be_bytes) simp

lemma length_be_bytes [simp]: "length (be_bytes n w) = n"
  by (simp add: be_bytes_def)

lemma read_exact_append [simp]: "length bs = n \<Longrightarrow> read_exact n (bs @ rest) = (Inr bs, rest)"
  by (simp add: read_exact_def)

lemma write_all_ok: "write_all bs w = (Inr (), w') \<Longrightarrow>
    w_out w' = w_out w @ bs \<and> w_flush_ok w' = w_flush_ok w"
  by (auto simp: write_all_def split: if_splits)

lemma flush_writer [simp]: "snd (flush w) = w"
  by (simp add: flush_def)

lemma unat_len_u32: "n \<le> 65536 \<Longrightarrow> unat (of_nat n :: u32) = n"
  by (simp add: unat_of_nat take_bit_nat_eq_self_iff)

lemma u32_total: "min (4 + unat (x :: u32)) (2 ^ 64 - 1) = 4 + unat x"
proof -
  have "unat x < 2 ^ 32" using unsigned_less [where 'a = nat, of x] by simp
  then show ?thesis by simp
qed

subsection \<open>The contract of a framed stream\<close>

fun send_all :: "('f \<Rightarrow> writer \<Rightarrow> unit result \<times> writer) \<Rightarrow> 'f list \<Rightarrow> writer \<Rightarrow> unit result \<times> writer" where
  "send_all wr [] w = (Inr (), w)"
| "send_all wr (f # fs) w =
     (case wr f w of (Inl e, w') \<Rightarrow> (Inl e, w') | (Inr _, w') \<Rightarrow> send_all wr fs w')"

fun receive_all :: "(reader \<Rightarrow> 'f result \<times> reader) \<Rightarrow> nat \<Rightarrow> reader \<Rightarrow> 'f list result \<times> reader" where
  "receive_all rd 0 r = (Inr [], r)"
| "receive_all rd (Suc n) r =
     (case rd r of
        (Inl e, r') \<Rightarrow> (Inl e, r')
      | (Inr f, r') \<Rightarrow> (case receive_all rd n r' of (Inl e, r'') \<Rightarrow> (Inl e, r'') | (Inr fs, r'') \<Rightarrow> (Inr (f # fs), r'')))"

locale framed_stream =
  fixes wr :: "'f \<Rightarrow> writer \<Rightarrow> unit result \<times> writer"
    and rd :: "reader \<Rightarrow> 'f result \<times> reader"
    and good :: "'f \<Rightarrow> bool"
  assumes one_frame: "\<lbrakk>wr f w = (Inr (), w'); good f\<rbrakk> \<Longrightarrow>
      \<exists>bs. w_out w' = w_out w @ bs \<and> (\<forall>rest. rd (bs @ rest) = (Inr f, rest))"
begin

lemma in_order_delivery:
  assumes "send_all wr fs w = (Inr (), w')" and "list_all good fs"
  shows "\<exists>bs. w_out w' = w_out w @ bs \<and> (\<forall>rest. receive_all rd (length fs) (bs @ rest) = (Inr fs, rest))"
  using assms
proof (induction fs arbitrary: w)
  case (Cons f fs)
  obtain w1 where w1: "wr f w = (Inr (), w1)" and tail: "send_all wr fs w1 = (Inr (), w')"
    using Cons.prems(1) by (auto split: prod.splits sum.splits)
  obtain b1 where b1: "w_out w1 = w_out w @ b1" "\<forall>rest. rd (b1 @ rest) = (Inr f, rest)"
    using one_frame [OF w1] Cons.prems(2) by auto
  obtain b2 where b2: "w_out w' = w_out w1 @ b2" "\<forall>rest. receive_all rd (length fs) (b2 @ rest) = (Inr fs, rest)"
    using Cons.IH [OF tail] Cons.prems(2) by auto
  show ?case by (rule exI [of _ "b1 @ b2"]) (simp add: b1 b2)
qed simp

end

end
