(* ===== verification/Ingress_Protocol.thy ===== *)
theory Ingress_Protocol
  imports Framing Config
begin

section \<open>The ingress protocol (\<open>ingress/protocol.rs\<close>)\<close>

text \<open>
  Preamble, peer addresses, datagrams, envelopes and their framing, with bitcode as the parameters
  \<open>bc_encode\<close> and \<open>bc_decode\<close>. The theorems: envelopes are read back in order, the two decoders accept
  the same frames, a hostile length prefix is refused before a payload byte is read, and a peer address
  survives the 16-byte wire form up to the fold of IPv4-mapped addresses.
\<close>

definition ENVELOPE_LENGTH_PREFIX_SIZE :: nat where "ENVELOPE_LENGTH_PREFIX_SIZE = 4"
definition INGRESS_MAGIC :: bytes where "INGRESS_MAGIC = [0x52, 0x44, 0x49, 0x47]"
definition INGRESS_VERSION :: u8 where "INGRESS_VERSION = 1"

definition ingress_write_preamble :: "writer \<Rightarrow> unit result \<times> writer" where
  "ingress_write_preamble w =
     io_bind (io_err (\<lambda>e. Ingress (''write preamble: '' @ e)) (write_all (INGRESS_MAGIC @ [INGRESS_VERSION]) w)) (\<lambda>_ w.
     io_err (\<lambda>e. Ingress (''flush preamble: '' @ e)) (flush w))"

definition ingress_read_preamble :: "reader \<Rightarrow> u8 result \<times> reader" where
  "ingress_read_preamble r =
     io_bind (io_err (\<lambda>e. Ingress (''read preamble: '' @ e)) (read_exact 5 r)) (\<lambda>buf r.
       if take 4 buf \<noteq> INGRESS_MAGIC
       then (Inl (Ingress ''bad protocol magic: peer is not a reduction ingress endpoint''), r)
       else (Inr (buf ! 4), r))"

record peer =
  peer_ip :: bytes
  peer_port :: u16

definition from_socket_addr :: "socket_addr \<Rightarrow> peer" where
  "from_socket_addr addr =
     \<lparr>peer_ip = (case sa_ip addr of V4 v4 \<Rightarrow> octets (V6 (to_ipv6_mapped v4)) | V6 v6 \<Rightarrow> octets (V6 v6)),
      peer_port = sa_port addr\<rparr>"

definition peer_socket_addr :: "peer \<Rightarrow> socket_addr" where
  "peer_socket_addr p =
     (let v6 = from_be_bytes (peer_ip p) :: 128 word;
          ip = (case to_ipv4_mapped v6 of Some v4 \<Rightarrow> V4 v4 | None \<Rightarrow> V6 v6)
      in \<lparr>sa_ip = ip, sa_port = peer_port p\<rparr>)"

record datagram =
  dg_peer :: peer
  dg_recv_at_unix_nanos :: u64
  dg_payload :: bytes

datatype (plugins only: size code) envelope =
    EnvHello string u16
  | EnvBatch "datagram list"
  | EnvOpen peer

definition envelope_encode :: "('f \<Rightarrow> bytes) \<Rightarrow> 'f \<Rightarrow> bytes result" where
  "envelope_encode bc_encode envelope =
     (let payload = bc_encode envelope in
      if MAX_ENVELOPE_FRAME < length payload
      then Inl (Ingress (''envelope frame too large: '' @ show_nat (length payload) @ '' bytes''))
      else if 2 ^ 32 \<le> length payload
      then Inl (Ingress (''envelope payload too large: '' @ show_nat (length payload) @ '' bytes''))
      else Inr (be_bytes 4 (of_nat (length payload) :: u32) @ payload))"

definition envelope_safe_decode :: "(bytes \<Rightarrow> 'f decode_outcome) \<Rightarrow> bytes \<Rightarrow> 'f result" where
  "envelope_safe_decode bc_decode payload =
     (case bc_decode payload of
        DecodePanic \<Rightarrow> Inl (Ingress ''decode panic (possibly oversized field)'')
      | DecodeError e \<Rightarrow> Inl (Ingress (''decode error: '' @ e))
      | Decoded f \<Rightarrow> Inr f)"

definition envelope_decode :: "(bytes \<Rightarrow> 'f decode_outcome) \<Rightarrow> bytes \<Rightarrow> 'f result" where
  "envelope_decode bc_decode buf =
     (if length buf < ENVELOPE_LENGTH_PREFIX_SIZE then Inl (Ingress ''frame too short for length prefix'')
      else let len = unat (from_be_bytes (take 4 buf) :: u32)
           in if MAX_ENVELOPE_FRAME < len then Inl (Ingress (''frame too large: '' @ show_nat len @ '' bytes''))
              else let expected_total = min (ENVELOPE_LENGTH_PREFIX_SIZE + len) (2 ^ 64 - 1)
                   in if length buf < expected_total
                      then Inl (Ingress (''frame truncated: expected '' @ show_nat expected_total @ '' bytes, got '' @ show_nat (length buf)))
                      else envelope_safe_decode bc_decode (drop ENVELOPE_LENGTH_PREFIX_SIZE (take expected_total buf)))"

definition envelope_read_frame :: "(bytes \<Rightarrow> 'f decode_outcome) \<Rightarrow> reader \<Rightarrow> 'f result \<times> reader" where
  "envelope_read_frame bc_decode r =
     io_bind (io_err (\<lambda>e. Ingress (''read length: '' @ e)) (read_exact ENVELOPE_LENGTH_PREFIX_SIZE r)) (\<lambda>len_buf r.
       let len = unat (from_be_bytes len_buf :: u32)
       in if MAX_ENVELOPE_FRAME < len then (Inl (Ingress (''frame too large: '' @ show_nat len @ '' bytes'')), r)
          else io_bind (io_err (\<lambda>e. Ingress (''read payload: '' @ e)) (read_exact len r)) (\<lambda>payload r.
                 (envelope_safe_decode bc_decode payload, r)))"

definition envelope_write_frame :: "('f \<Rightarrow> bytes) \<Rightarrow> 'f \<Rightarrow> writer \<Rightarrow> unit result \<times> writer" where
  "envelope_write_frame bc_encode envelope w =
     (case envelope_encode bc_encode envelope of
        Inl e \<Rightarrow> (Inl e, w)
      | Inr frame \<Rightarrow>
          io_bind (io_err (\<lambda>e. Ingress (''write frame: '' @ e)) (write_all frame w)) (\<lambda>_ w.
          io_err (\<lambda>e. Ingress (''flush frame: '' @ e)) (flush w)))"

subsection \<open>Envelopes survive the stream\<close>

lemma envelope_encode_ok: "envelope_encode bc_encode f = Inr bs \<Longrightarrow>
    length (bc_encode f) \<le> MAX_ENVELOPE_FRAME \<and> bs = be_bytes 4 (of_nat (length (bc_encode f)) :: u32) @ bc_encode f"
  by (auto simp: envelope_encode_def Let_def split: if_splits)

lemma envelope_read_written:
  assumes "envelope_encode bc_encode f = Inr bs" and "bc_decode (bc_encode f) = Decoded f"
  shows "envelope_read_frame bc_decode (bs @ rest) = (Inr f, rest)"
proof -
  have "unat (of_nat (length (bc_encode f)) :: u32) = length (bc_encode f)"
    using envelope_encode_ok [OF assms(1)] by (simp add: MAX_ENVELOPE_FRAME_def unat_len_u32)
  then show ?thesis
    using envelope_encode_ok [OF assms(1)] assms(2)
    by (simp add: envelope_read_frame_def ENVELOPE_LENGTH_PREFIX_SIZE_def Let_def envelope_safe_decode_def)
qed

lemma envelope_write_frame_ok:
  assumes "envelope_write_frame bc_encode f w = (Inr (), w')"
  shows "\<exists>bs. envelope_encode bc_encode f = Inr bs \<and> w_out w' = w_out w @ bs"
proof -
  obtain bs w1 where e: "envelope_encode bc_encode f = Inr bs" and w1: "write_all bs w = (Inr (), w1)"
      and fl: "flush w1 = (Inr (), w')"
    using assms unfolding envelope_write_frame_def by (auto simp: io_bind_ok io_err_ok split: sum.splits)
  have "w' = w1" using arg_cong [OF fl, of snd] by simp
  then show ?thesis using e write_all_ok [OF w1] by simp
qed

interpretation ingress_stream: framed_stream "envelope_write_frame bc_encode" "envelope_read_frame bc_decode"
    "\<lambda>f. bc_decode (bc_encode f) = Decoded f"
  for bc_encode :: "'f \<Rightarrow> bytes" and bc_decode :: "bytes \<Rightarrow> 'f decode_outcome"
proof unfold_locales
  fix f :: 'f and w w'
  assume "envelope_write_frame bc_encode f w = (Inr (), w')" and "bc_decode (bc_encode f) = Decoded f"
  then show "\<exists>bs. w_out w' = w_out w @ bs \<and> (\<forall>rest. envelope_read_frame bc_decode (bs @ rest) = (Inr f, rest))"
    using envelope_write_frame_ok envelope_read_written by metis
qed

text \<open>
  Claim C40. Envelopes arrive complete and in order: a sequence of envelopes written without an error is read
  back as the same sequence, leaving the bytes that follow (the raw relay stream after an \<open>Open\<close>)
  untouched, for any envelopes that bitcode decodes back from their encoding.
\<close>
theorem envelopes_in_order:
  assumes "send_all (envelope_write_frame bc_encode) fs w = (Inr (), w')"
    and "list_all (\<lambda>f. bc_decode (bc_encode f) = Decoded f) fs"
  shows "\<exists>bs. w_out w' = w_out w @ bs
    \<and> (\<forall>rest. receive_all (envelope_read_frame bc_decode) (length fs) (bs @ rest) = (Inr fs, rest))"
  using assms by (rule ingress_stream.in_order_delivery)

definition demo_env_encode :: "envelope \<Rightarrow> bytes" where
  "demo_env_encode f = (case f of EnvHello _ w \<Rightarrow> [ucast w] | _ \<Rightarrow> [])"

definition demo_env_decode :: "bytes \<Rightarrow> envelope decode_outcome" where
  "demo_env_decode bs = (if bs = [3] then Decoded (EnvHello ''i'' 3) else DecodeError ''x'')"

theorem envelopes_in_order_witness:
  "\<exists>bs. w_out (snd (send_all (envelope_write_frame demo_env_encode) [EnvHello ''i'' 3]
        \<lparr>w_out = [], w_room = 9, w_flush_ok = True\<rparr>)) = bs
    \<and> receive_all (envelope_read_frame demo_env_decode) 1 (bs @ [1]) = (Inr [EnvHello ''i'' 3], [1])"
proof -
  let ?w' = "\<lparr>w_out = [0, 0, 0, 1, 3], w_room = 4, w_flush_ok = True\<rparr>"
  have be: "be_bytes 4 (1 :: u32) = [0, 0, 0, 1]" by code_simp
  have s: "send_all (envelope_write_frame demo_env_encode) [EnvHello ''i'' 3] \<lparr>w_out = [], w_room = 9, w_flush_ok = True\<rparr>
      = (Inr (), ?w')"
    by (simp add: envelope_write_frame_def envelope_encode_def demo_env_encode_def MAX_ENVELOPE_FRAME_def write_all_def
        flush_def be)
  have g: "list_all (\<lambda>f. demo_env_decode (demo_env_encode f) = Decoded f) [EnvHello ''i'' 3]"
    by (simp add: demo_env_encode_def demo_env_decode_def)
  show ?thesis using envelopes_in_order [OF s g] unfolding s by auto
qed

subsection \<open>Hostile prefixes\<close>

lemma envelope_read_frame_iff:
  "fst (envelope_read_frame bc_decode buf) = Inr f \<longleftrightarrow>
     4 \<le> length buf \<and> (let len = unat (from_be_bytes (take 4 buf) :: u32) in
       len \<le> MAX_ENVELOPE_FRAME \<and> 4 + len \<le> length buf \<and> bc_decode (take len (drop 4 buf)) = Decoded f)"
  by (auto simp: envelope_read_frame_def ENVELOPE_LENGTH_PREFIX_SIZE_def Let_def read_exact_def envelope_safe_decode_def
      split: decode_outcome.splits)

text \<open>
  A frame is accepted exactly when its declared length is within the limit, the bytes are all there
  and bitcode decodes them; the slice decoder and the stream decoder agree on this, so a declared length
  above the limit never reaches the decoder, whatever the decoder would do with it.
\<close>
theorem envelope_decoders_exact:
  "(envelope_decode bc_decode buf = Inr f) = (fst (envelope_read_frame bc_decode buf) = Inr f)
   \<and> (fst (envelope_read_frame bc_decode buf) = Inr f) =
     (4 \<le> length buf \<and> unat (from_be_bytes (take 4 buf) :: u32) \<le> 65536
      \<and> 4 + unat (from_be_bytes (take 4 buf) :: u32) \<le> length buf
      \<and> bc_decode (take (unat (from_be_bytes (take 4 buf) :: u32)) (drop 4 buf)) = Decoded f)"
proof
  show "(envelope_decode bc_decode buf = Inr f) = (fst (envelope_read_frame bc_decode buf) = Inr f)"
    unfolding envelope_read_frame_iff envelope_decode_def ENVELOPE_LENGTH_PREFIX_SIZE_def Let_def u32_total drop_take
    by (auto simp: envelope_safe_decode_def split: decode_outcome.splits)
qed (auto simp: envelope_read_frame_iff MAX_ENVELOPE_FRAME_def Let_def)

text \<open>
  Peer addresses survive the wire: the 16-byte form of a socket address converts back to the same
  address with IPv4-mapped IPv6 folded to IPv4, and the port is kept.
\<close>
theorem peer_roundtrip:
  "peer_socket_addr (from_socket_addr addr) = addr\<lparr>sa_ip := to_canonical (sa_ip addr)\<rparr>
   \<and> length (peer_ip (from_socket_addr addr)) = 16"
proof (cases "sa_ip addr")
  case (V4 a)
  have "to_ipv4_mapped (to_ipv6_mapped a) = Some a" by (simp add: to_ipv4_mapped_Some)
  then show ?thesis using V4 by (simp add: peer_socket_addr_def from_socket_addr_def octets_def)
qed (simp add: peer_socket_addr_def from_socket_addr_def octets_def to_canonical_def split: option.split)

end
