(* ===== verification/Ingress_Batch.thy ===== *)
theory Ingress_Batch
  imports Ingress_Protocol
begin

section \<open>Batching (\<open>ingress/batch.rs\<close>)\<close>

text \<open>
  The per-backend accumulator of datagrams and its flush triggers. \<open>usize\<close> is 64 bits. \<open>accumulate\<close> is
  the receive loop's use of one batch (push, test, take). The theorems: nothing is lost or reordered by
  batching, every emitted batch respects the count limit, and its payload exceeds the byte limit by
  less than one datagram; the last bound is sharp, so a validated configuration can produce a batch
  larger than a frame may be.
\<close>

datatype flush_reason = FlushCount | FlushBytes | FlushLinger

record batch_limits =
  bl_max_datagrams :: u32
  bl_max_bytes :: u32
  bl_linger :: duration

record batch =
  ba_datagrams :: "datagram list"
  ba_payload_bytes :: nat
  ba_opened_at :: "instant option"

definition batch_new :: batch where
  "batch_new = \<lparr>ba_datagrams = [], ba_payload_bytes = 0, ba_opened_at = None\<rparr>"

definition batch_is_empty :: "batch \<Rightarrow> bool" where
  "batch_is_empty b \<longleftrightarrow> ba_datagrams b = []"

definition batch_push :: "instant \<Rightarrow> datagram \<Rightarrow> batch \<Rightarrow> batch" where
  "batch_push now d b =
     (let b1 = (if ba_datagrams b = [] then b\<lparr>ba_opened_at := Some now\<rparr> else b)
      in b1\<lparr>ba_payload_bytes := min (ba_payload_bytes b1 + length (dg_payload d)) (2 ^ 64 - 1),
            ba_datagrams := ba_datagrams b1 @ [d]\<rparr>)"

definition fill_flush :: "batch_limits \<Rightarrow> batch \<Rightarrow> flush_reason option" where
  "fill_flush l b =
     (if ba_datagrams b = [] then None
      else if unat (bl_max_datagrams l) \<le> length (ba_datagrams b) then Some FlushCount
      else if unat (bl_max_bytes l) \<le> ba_payload_bytes b then Some FlushBytes
      else None)"

definition linger_expired :: "batch_limits \<Rightarrow> instant \<Rightarrow> batch \<Rightarrow> bool" where
  "linger_expired l now b = (case ba_opened_at b of Some opened \<Rightarrow> bl_linger l \<le> now - opened | None \<Rightarrow> False)"

definition linger_deadline :: "batch_limits \<Rightarrow> batch \<Rightarrow> instant option" where
  "linger_deadline l b = map_option (\<lambda>opened. opened + bl_linger l) (ba_opened_at b)"

definition batch_take :: "batch \<Rightarrow> batch \<times> datagram list" where
  "batch_take b = (b\<lparr>ba_payload_bytes := 0, ba_opened_at := None, ba_datagrams := []\<rparr>, ba_datagrams b)"

text \<open>The receive loop on one backend: the batches handed off, in order, and the batch left open.\<close>

fun accumulate :: "batch_limits \<Rightarrow> (instant \<times> datagram) list \<Rightarrow> batch \<Rightarrow> datagram list list \<times> batch" where
  "accumulate l [] b = ([], b)"
| "accumulate l ((now, d) # ds) b =
     (let b1 = batch_push now d b
      in case fill_flush l b1 of
           None \<Rightarrow> accumulate l ds b1
         | Some _ \<Rightarrow> (case batch_take b1 of (b2, out) \<Rightarrow>
                        (case accumulate l ds b2 of (outs, b3) \<Rightarrow> (out # outs, b3))))"

subsection \<open>The batch invariant\<close>

definition payload_sum :: "datagram list \<Rightarrow> nat" where
  "payload_sum ds = sum_list (map (length \<circ> dg_payload) ds)"

definition batch_ok :: "batch \<Rightarrow> bool" where
  "batch_ok b \<longleftrightarrow> ba_payload_bytes b = min (payload_sum (ba_datagrams b)) (2 ^ 64 - 1)
     \<and> (ba_opened_at b = None \<longleftrightarrow> ba_datagrams b = [])"

lemma batch_ok_new [simp]: "batch_ok batch_new"
  by (simp add: batch_ok_def batch_new_def payload_sum_def)

lemma batch_ok_push [simp]: "batch_ok b \<Longrightarrow> batch_ok (batch_push now d b)"
  by (auto simp: batch_ok_def batch_push_def payload_sum_def Let_def)

lemma batch_take_simps [simp]:
  "snd (batch_take b) = ba_datagrams b" "ba_datagrams (fst (batch_take b)) = []" "batch_ok (fst (batch_take b))"
  by (simp_all add: batch_take_def batch_ok_def payload_sum_def)

lemma batch_push_datagrams [simp]: "ba_datagrams (batch_push now d b) = ba_datagrams b @ [d]"
  by (simp add: batch_push_def Let_def)

definition under_limits :: "batch_limits \<Rightarrow> batch \<Rightarrow> bool" where
  "under_limits l b \<longleftrightarrow> batch_ok b \<and> fill_flush l b = None"

lemma under_limits_take [simp]: "under_limits l (fst (batch_take b))"
  by (simp add: under_limits_def fill_flush_def)

lemma push_bounds:
  assumes "under_limits l b" and "length (dg_payload d) \<le> m" and "0 < bl_max_datagrams l" "0 < bl_max_bytes l"
  shows "length (ba_datagrams (batch_push now d b)) \<le> unat (bl_max_datagrams l)
    \<and> payload_sum (ba_datagrams (batch_push now d b)) < unat (bl_max_bytes l) + m"
proof -
  have pos: "0 < unat (bl_max_datagrams l)" "0 < unat (bl_max_bytes l)"
    using assms(3,4) by (simp_all add: word_less_nat_alt)
  have w: "unat (bl_max_bytes l) < 2 ^ 32" using unsigned_less [where 'a = nat, of "bl_max_bytes l"] by simp
  show ?thesis
  proof (cases "ba_datagrams b = []")
    case True
    then show ?thesis using assms(2) pos by (simp add: payload_sum_def)
  next
    case False
    then have "length (ba_datagrams b) < unat (bl_max_datagrams l)"
        and "min (payload_sum (ba_datagrams b)) (2 ^ 64 - 1) < unat (bl_max_bytes l)"
      using assms(1) by (auto simp: under_limits_def fill_flush_def batch_ok_def split: if_splits)
    then show ?thesis using assms(2) w by (auto simp: payload_sum_def min_def split: if_splits)
  qed
qed

lemma accumulate_spec:
  assumes "accumulate l ds b = (outs, b')" and "under_limits l b" and "0 < bl_max_datagrams l" "0 < bl_max_bytes l"
    and "list_all (\<lambda>(t, d). length (dg_payload d) \<le> m) ds"
  shows "concat outs @ ba_datagrams b' = ba_datagrams b @ map snd ds \<and> under_limits l b'
    \<and> list_all (\<lambda>out. out \<noteq> [] \<and> length out \<le> unat (bl_max_datagrams l) \<and> payload_sum out < unat (bl_max_bytes l) + m) outs"
  using assms
proof (induction l ds b arbitrary: outs b' rule: accumulate.induct)
  case (2 l now d ds b)
  let ?b1 = "batch_push now d b"
  have ok: "batch_ok ?b1" using "2.prems"(2) by (simp add: under_limits_def)
  show ?case
  proof (cases "fill_flush l ?b1")
    case None
    then show ?thesis
      using "2.IH"(1) [OF refl None, of outs b'] "2.prems" ok by (simp add: under_limits_def Let_def)
  next
    case (Some r)
    obtain outs1 b2 where acc: "accumulate l ds (fst (batch_take ?b1)) = (outs1, b2)" by fastforce
    have res: "outs = ba_datagrams ?b1 # outs1" "b' = b2"
      using "2.prems"(1) Some acc by (auto simp: Let_def batch_take_def)
    have "concat outs1 @ ba_datagrams b2 = map snd ds \<and> under_limits l b2
        \<and> list_all (\<lambda>out. out \<noteq> [] \<and> length out \<le> unat (bl_max_datagrams l) \<and> payload_sum out < unat (bl_max_bytes l) + m) outs1"
      using "2.IH"(2) [OF refl Some prod.collapse acc] "2.prems" by simp
    then show ?thesis
      using push_bounds [OF "2.prems"(2) _ "2.prems"(3,4), of d m now] "2.prems"(5) by (simp add: res)
  qed
qed simp

text \<open>
  Claim C38. Batching loses and reorders nothing and keeps its limits: feeding datagrams of at most \<open>m\<close> bytes
  into an empty batch, the batches handed off followed by the open one are the input in order; each
  handed-off batch is non-empty, has at most \<open>max_datagrams\<close> datagrams and fewer than \<open>max_bytes + m\<close>
  payload bytes.
\<close>
theorem batching_faithful:
  assumes "accumulate l ds batch_new = (outs, b')" and "0 < bl_max_datagrams l" and "0 < bl_max_bytes l"
    and "list_all (\<lambda>(t, d). length (dg_payload d) \<le> m) ds"
  shows "concat outs @ ba_datagrams b' = map snd ds
    \<and> list_all (\<lambda>out. out \<noteq> [] \<and> length out \<le> unat (bl_max_datagrams l) \<and> payload_sum out < unat (bl_max_bytes l) + m) outs"
proof -
  have "under_limits l batch_new" by (simp add: under_limits_def fill_flush_def batch_new_def batch_ok_def payload_sum_def)
  from accumulate_spec [OF assms(1) this assms(2-4)] show ?thesis by (simp add: batch_new_def)
qed

subsection \<open>A batch larger than a frame\<close>

definition demo_datagram :: "nat \<Rightarrow> datagram" where
  "demo_datagram n = \<lparr>dg_peer = \<lparr>peer_ip = [], peer_port = 1\<rparr>, dg_recv_at_unix_nanos = 0, dg_payload = replicate n 0\<rparr>"

theorem batching_faithful_witness:
  "fst (accumulate \<lparr>bl_max_datagrams = 2, bl_max_bytes = 100, bl_linger = 5\<rparr>
      [(0, demo_datagram 1), (1, demo_datagram 2), (2, demo_datagram 1)] batch_new)
    = [[demo_datagram 1, demo_datagram 2]]"
proof -
  let ?l = "\<lparr>bl_max_datagrams = 2, bl_max_bytes = 100, bl_linger = 5\<rparr> :: batch_limits"
  let ?ds = "[(0, demo_datagram 1), (1, demo_datagram 2), (2, demo_datagram 1)] :: (instant \<times> datagram) list"
  let ?b' = "\<lparr>ba_datagrams = [demo_datagram 1], ba_payload_bytes = 1, ba_opened_at = Some 2\<rparr> :: batch"
  have a: "accumulate ?l ?ds batch_new = ([[demo_datagram 1, demo_datagram 2]], ?b')"
    by (simp add: batch_new_def batch_push_def fill_flush_def batch_take_def demo_datagram_def)
  have "concat [[demo_datagram 1, demo_datagram 2]] @ ba_datagrams ?b' = map snd ?ds"
    using batching_faithful [OF a, of 2] by (simp add: demo_datagram_def)
  then show ?thesis using a by simp
qed

definition cap_limits :: "ingress_config \<Rightarrow> batch_limits" where
  "cap_limits g = \<lparr>bl_max_datagrams = igc_batch_max_datagrams g, bl_max_bytes = igc_batch_max_bytes g,
     bl_linger = from_millis (unat (igc_linger_ms g))\<rparr>"

text \<open>
  The byte limit is tested after the datagram is added, so it does not keep a batch within a frame:
  with the default limits of an ingress entry there are admissible datagrams that are handed off as one
  batch whose payload alone exceeds the largest frame the protocol encodes.
\<close>
theorem batch_exceeds_frame:
  "\<exists>ds outs b. let g = default_ingress_config ident proto listen ids in
     list_ex (\<lambda>out. MAX_ENVELOPE_FRAME < payload_sum out) outs
   \<and> accumulate (cap_limits g) ds batch_new = (outs, b)
   \<and> filter (\<lambda>(t, d). unat (igc_max_datagram_bytes g) < length (dg_payload d)) ds = []"
proof -
  let ?ds = "map (\<lambda>n. (0 :: instant, demo_datagram n)) [8000, 8000, 8000, 8000, 8000, 8000, 8000, 5439, 8192]"
  have "list_ex (\<lambda>out. MAX_ENVELOPE_FRAME < payload_sum out) [map snd ?ds]"
    by (simp add: payload_sum_def demo_datagram_def MAX_ENVELOPE_FRAME_def)
  moreover have "accumulate (cap_limits (default_ingress_config ident proto listen ids)) ?ds batch_new
      = ([map snd ?ds], batch_new)"
    by (simp add: batch_new_def batch_push_def fill_flush_def batch_take_def demo_datagram_def cap_limits_def
        default_ingress_config_def Let_def)
  moreover have "filter (\<lambda>(t, d). unat (igc_max_datagram_bytes (default_ingress_config ident proto listen ids))
      < length (dg_payload d)) ?ds = []"
    by (simp add: demo_datagram_def default_ingress_config_def)
  ultimately show ?thesis unfolding Let_def by blast
qed

end
