(* ===== verification/Health.thy ===== *)
theory Health
  imports Config_Types Lru
begin

section \<open>Backend health (\<open>health/state.rs\<close>, \<open>health/subscriber.rs\<close>)\<close>

text \<open>
  \<open>HealthState\<close> keeps the last report per backend in an LRU cache (a parameter, theory \<open>Lru\<close>) together with
  its arrival instant. A report that is older than the staleness limit counts as absent. Reports are
  decoded by bitcode, a parameter of \<open>handle_message\<close>.
\<close>

datatype availability = Online | Offline

definition is_online :: "availability \<Rightarrow> bool" where
  "is_online a \<longleftrightarrow> a = Online"

record backend_health =
  bh_backend_id :: string
  bh_load :: f64
  bh_latency_ms :: u32
  bh_availability :: availability

type_synonym health_broadcast = "backend_health list"

record 'l health_state =
  hs_entries :: 'l
  hs_staleness_ttl :: duration
  hs_latency_threshold_ms :: u32

type_synonym 'l health_lru = "('l, string, backend_health \<times> instant) lru_ops"

definition MAX_BACKENDS :: nat where
  "MAX_BACKENDS = unat HARD_MAX_BACKENDS"

definition health_new :: "'l health_lru \<Rightarrow> 'l health_state" where
  "health_new ops = \<lparr>hs_entries = lru_new ops MAX_BACKENDS, hs_staleness_ttl = from_secs 300,
     hs_latency_threshold_ms = 500\<rparr>"

definition health_with_config :: "'l health_lru \<Rightarrow> u32 \<Rightarrow> duration \<Rightarrow> u32 \<Rightarrow> 'l health_state" where
  "health_with_config ops capacity ttl latency =
     \<lparr>hs_entries = lru_new ops (min (max (unat capacity) 1) MAX_BACKENDS), hs_staleness_ttl = ttl,
      hs_latency_threshold_ms = latency\<rparr>"

definition health_update :: "'l health_lru \<Rightarrow> instant \<Rightarrow> health_broadcast \<Rightarrow> 'l health_state \<Rightarrow> 'l health_state" where
  "health_update ops now entries hs =
     hs\<lparr>hs_entries := fold (\<lambda>e l. lru_put ops (bh_backend_id e) (e, now) l) entries (hs_entries hs)\<rparr>"

definition health_is_valid :: "'l health_lru \<Rightarrow> instant \<Rightarrow> 'l health_state \<Rightarrow> string \<Rightarrow> bool" where
  "health_is_valid ops now hs k = (case lru_peek ops (hs_entries hs) k of
     None \<Rightarrow> False | Some (_, received_at) \<Rightarrow> elapsed now received_at < hs_staleness_ttl hs)"

definition weight_factor :: "'l health_lru \<Rightarrow> instant \<Rightarrow> 'l health_state \<Rightarrow> string \<Rightarrow> f64" where
  "weight_factor ops now hs k =
     (if \<not> health_is_valid ops now hs k then Fin 1
      else (case lru_peek ops (hs_entries hs) k of
              None \<Rightarrow> Fin 1
            | Some (h, _) \<Rightarrow>
                if \<not> is_online (bh_availability h) then Fin 0
                else
                  (let load_factor = f64_sub (Fin 1) (f64_clamp (bh_load h) (Fin 0) (Fin 1));
                       latency_factor =
                         (if bh_latency_ms h > hs_latency_threshold_ms hs
                          then f64_div (f64_of_nat (unat (hs_latency_threshold_ms hs))) (f64_of_nat (unat (bh_latency_ms h)))
                          else Fin 1)
                   in f64_mul load_factor latency_factor)))"

definition health_get :: "'l health_lru \<Rightarrow> 'l health_state \<Rightarrow> string \<Rightarrow> backend_health option" where
  "health_get ops hs k = map_option fst (lru_peek ops (hs_entries hs) k)"

definition handle_message ::
    "(bytes \<Rightarrow> string + health_broadcast) \<Rightarrow> 'l health_lru \<Rightarrow> instant \<Rightarrow> bytes \<Rightarrow> 'l health_state \<Rightarrow> 'l health_state" where
  "handle_message decode ops now data hs = (case decode data of
     Inr broadcast \<Rightarrow> health_update ops now broadcast hs | Inl _ \<Rightarrow> hs)"

subsection \<open>Weights\<close>

text \<open>No stored report has a NaN load (the transport does not exclude one).\<close>

definition loads_ok :: "'l health_lru \<Rightarrow> 'l health_state \<Rightarrow> bool" where
  "loads_ok ops hs \<longleftrightarrow> (\<forall>k h t. lru_peek ops (hs_entries hs) k = Some (h, t) \<longrightarrow> bh_load h \<noteq> NaN)"

lemma nat_ratio_unit:
  assumes "a < b" "b < 2 ^ 53"
  shows "unit_f64 (f64_div (f64_of_nat a) (f64_of_nat b))"
proof -
  have "0 \<le> real a / real b" "real a / real b \<le> 1" using assms by simp_all
  from f64_fin_bounded [OF this] assms show ?thesis
    by (auto simp: f64_of_nat_def unit_f64_def)
qed

lemma latency_factor_unit: "t < l \<Longrightarrow> unit_f64 (f64_div (f64_of_nat (unat (t :: u32))) (f64_of_nat (unat l)))"
  using unsigned_less [where 'a = nat, of l] by (intro nat_ratio_unit) (simp_all add: word_less_nat_alt)

lemma weight_factor_unit:
  assumes "loads_ok ops hs"
  shows "unit_f64 (weight_factor ops now hs k)"
proof (cases "health_is_valid ops now hs k")
  case False
  then show ?thesis by (simp add: weight_factor_def)
next
  case True
  then obtain h t where p: "lru_peek ops (hs_entries hs) k = Some (h, t)"
    by (auto simp: health_is_valid_def split: option.splits)
  then have "bh_load h \<noteq> NaN" using assms by (auto simp: loads_ok_def)
  then have l: "unit_f64 (f64_sub (Fin 1) (f64_clamp (bh_load h) (Fin 0) (Fin 1)))"
    by (intro one_minus_unit clamp_unit)
  have "unit_f64 (if bh_latency_ms h > hs_latency_threshold_ms hs
      then f64_div (f64_of_nat (unat (hs_latency_threshold_ms hs))) (f64_of_nat (unat (bh_latency_ms h))) else Fin 1)"
    using latency_factor_unit by simp
  from mul_unit [OF l this] p True show ?thesis by (simp add: weight_factor_def Let_def)
qed

lemma weight_factor_offline:
  assumes "health_is_valid ops now hs k" "health_get ops hs k = Some h" "bh_availability h = Offline"
  shows "weight_factor ops now hs k = Fin 0"
  using assms by (auto simp: weight_factor_def health_get_def is_online_def split: option.splits)

lemma update_peek:
  assumes "lru_doc ops" and "distinct (map bh_backend_id es)" and "e \<in> set es"
  shows "\<exists>p. lru_peek ops (fold (\<lambda>e l. lru_put ops (bh_backend_id e) (e, now) l) es l) (bh_backend_id e) = p
     \<and> (p = None \<or> p = Some (e, now))"
  using assms(2,3)
proof (induction es arbitrary: l rule: rev_induct)
  case (snoc x xs)
  let ?l = "fold (\<lambda>e l. lru_put ops (bh_backend_id e) (e, now) l) xs l"
  show ?case
  proof (cases "x = e")
    case True
    then show ?thesis by (simp add: lru_docD(2) [OF assms(1)])
  next
    case False
    with snoc.prems have "bh_backend_id e \<noteq> bh_backend_id x" "e \<in> set xs" "distinct (map bh_backend_id xs)"
      by (auto simp: image_iff)
    with snoc.IH [of l] lru_docD(3) [OF assms(1), of "bh_backend_id e" "bh_backend_id x" "(x, now)" ?l]
    show ?thesis by auto
  qed
qed simp

end
