(* ===== verification/Interfaces.thy ===== *)
theory Interfaces
  imports Reduction_Prelude
begin

section \<open>Contracts shared by several components\<close>

text \<open>
  Three contracts of the program, each implemented more than once. \<open>acl_first_gate\<close>: an admission gate that
  consults the access list before anything stateful (UDP and TCP ingress, HTTP requests, raw relays).
  \<open>ledger\<close>: 64-bit counters of what entered, was relayed and was dropped (UDP and TCP ingress).
  \<open>permit_pool\<close>: a bounded number of permits (request queues, TCP ingress connections).
\<close>

subsection \<open>Admission gates\<close>

fun gate_run :: "('q \<Rightarrow> 's \<Rightarrow> 's \<times> bool) \<Rightarrow> 'q list \<Rightarrow> 's \<Rightarrow> 's \<times> ('q \<times> bool) list" where
  "gate_run gate [] s = (s, [])"
| "gate_run gate (q # qs) s =
     (case gate q s of (s1, ok) \<Rightarrow> (case gate_run gate qs s1 of (s2, rs) \<Rightarrow> (s2, (q, ok) # rs)))"

locale acl_first_gate =
  fixes allowed :: "'q \<Rightarrow> bool"
    and gate :: "'q \<Rightarrow> 's \<Rightarrow> 's \<times> bool"
  assumes denied_first: "\<not> allowed q \<Longrightarrow> gate q s = (s, False)"
begin

lemma admitted_allowed: "gate q s = (s', True) \<Longrightarrow> allowed q"
  using denied_first [of q s] by auto

lemma denied_traffic_invisible:
  "gate_run gate (filter allowed qs) s =
     (fst (gate_run gate qs s), filter (\<lambda>r. allowed (fst r)) (snd (gate_run gate qs s)))"
  by (induction qs arbitrary: s) (auto simp: denied_first split: prod.split)

end

subsection \<open>Ledgers\<close>

locale ledger =
  fixes entered relayed dropped :: "'c \<Rightarrow> u64"
    and enter :: "'c \<Rightarrow> 'c"
    and relay :: "'m \<Rightarrow> 'c \<Rightarrow> 'c"
    and discard :: "'r \<Rightarrow> 'c \<Rightarrow> 'c"
    and relay_count :: "'m \<Rightarrow> u64"
    and discard_count :: "'r \<Rightarrow> u64"
  assumes enter_law: "entered (enter c) = entered c + 1 \<and> relayed (enter c) = relayed c \<and> dropped (enter c) = dropped c"
    and relay_law: "entered (relay m c) = entered c \<and> relayed (relay m c) = relayed c + relay_count m \<and> dropped (relay m c) = dropped c"
    and discard_law: "entered (discard r c) = entered c \<and> relayed (discard r c) = relayed c \<and> dropped (discard r c) = dropped c + discard_count r"
begin

lemma settled:
  assumes "entered c = relayed c + dropped c + n"
  shows "entered (enter c) = relayed (enter c) + dropped (enter c) + (n + 1)"
    and "entered (relay m c) = relayed (relay m c) + dropped (relay m c) + (n - relay_count m)"
    and "entered (discard r c) = relayed (discard r c) + dropped (discard r c) + (n - discard_count r)"
  using assms by (simp_all add: enter_law relay_law discard_law algebra_simps)

end

subsection \<open>Permits\<close>

datatype permit_op = Acquire | Release

fun permit_run :: "('s \<Rightarrow> 's option) \<Rightarrow> ('s \<Rightarrow> 's) \<Rightarrow> permit_op list \<Rightarrow> nat \<times> 's \<Rightarrow> nat \<times> 's" where
  "permit_run acq rel [] hs = hs"
| "permit_run acq rel (Acquire # ops) (h, s) =
     permit_run acq rel ops (case acq s of Some s' \<Rightarrow> (h + 1, s') | None \<Rightarrow> (h, s))"
| "permit_run acq rel (Release # ops) (h, s) =
     permit_run acq rel ops (if h = 0 then (h, s) else (h - 1, rel s))"

text \<open>Each acquisition hands out a permit and a permit is released once: \<open>h\<close> counts the permits held.\<close>

locale permit_pool =
  fixes avail :: "'s \<Rightarrow> nat"
    and acq :: "'s \<Rightarrow> 's option"
    and rel :: "'s \<Rightarrow> 's"
  assumes acq_some: "acq s = Some s' \<Longrightarrow> avail s' + 1 = avail s"
    and acq_none: "acq s = None \<longleftrightarrow> avail s = 0"
    and rel_law: "avail (rel s) = avail s + 1"
begin

lemma conserved:
  "permit_run acq rel ops (h, s) = (h', s') \<Longrightarrow> h' + avail s' = h + avail s"
proof (induction ops arbitrary: h s)
  case (Cons x ops)
  show ?case
  proof (cases x)
    case Acquire
    with Cons show ?thesis by (cases "acq s") (auto dest: acq_some)
  next
    case Release
    with Cons show ?thesis by (cases h) (auto simp: rel_law)
  qed
qed simp

lemma bounded: "permit_run acq rel ops (0, s) = (h, s') \<Longrightarrow> h \<le> avail s"
  using conserved by fastforce

end

end
