(* ===== verification/Balancer.thy ===== *)
theory Balancer
  imports Health Interfaces
begin

section \<open>Backend selection (\<open>balancer/\<close>)\<close>

text \<open>
  \<open>rendezvous.rs\<close> (FNV-1a hash and weighted rendezvous score), \<open>balancer/mod.rs\<close> (\<open>BackendPool\<close>) and
  \<open>queue.rs\<close> (\<open>RequestQueue\<close>, a semaphore: the number of free permits). The natural logarithm of the
  platform is the parameter \<open>ln_f64\<close>: its rounding is not specified. The lemmas describe the scan as the
  first maximum of the eligible scores, and show that a pick does not change when other backends leave.
\<close>

unbundle bit_operations_syntax

definition FNV_OFFSET_BASIS :: u64 where "FNV_OFFSET_BASIS = 0xcbf29ce484222325"
definition FNV_PRIME :: u64 where "FNV_PRIME = 0x100000001b3"
definition IPV4_TAG :: u8 where "IPV4_TAG = 4"
definition IPV6_TAG :: u8 where "IPV6_TAG = 6"

definition fnv1a_update :: "u64 \<Rightarrow> bytes \<Rightarrow> u64" where
  "fnv1a_update hash bs = foldl (\<lambda>acc b. (acc XOR ucast b) * FNV_PRIME) hash bs"

definition as_bytes :: "string \<Rightarrow> bytes" where
  "as_bytes s = map (\<lambda>c. of_nat (of_char c)) s"

definition hash_pair :: "ip_addr \<Rightarrow> string \<Rightarrow> u64" where
  "hash_pair client_ip backend_id =
     (let seeded = (case to_canonical client_ip of
          V4 a \<Rightarrow> fnv1a_update (fnv1a_update FNV_OFFSET_BASIS [IPV4_TAG]) (octets (V4 a))
        | V6 a \<Rightarrow> fnv1a_update (fnv1a_update FNV_OFFSET_BASIS [IPV6_TAG]) (octets (V6 a)))
      in fnv1a_update seeded (as_bytes backend_id))"

definition unit_hash :: "u64 \<Rightarrow> f64" where
  "unit_hash hash = f64_div (f64_add (f64_of_nat (unat hash)) (Fin (1 / 2))) (f64_add (f64_of_nat (2 ^ 64 - 1)) (Fin 1))"

definition rendezvous_score :: "(f64 \<Rightarrow> f64) \<Rightarrow> ip_addr \<Rightarrow> string \<Rightarrow> f64 \<Rightarrow> f64" where
  "rendezvous_score ln_f64 client_ip backend_id weight =
     (if f64_le weight (Fin 0) then Fin 0
      else f64_div (f64_neg weight) (ln_f64 (unit_hash (hash_pair client_ip backend_id))))"

text \<open>The scan for the best score, skipping ineligible candidates; ties keep the earlier one.\<close>

definition scan_step ::
    "('c \<Rightarrow> bool) \<Rightarrow> ('c \<Rightarrow> f64) \<Rightarrow> nat option \<times> f64 \<Rightarrow> nat \<times> 'c \<Rightarrow> nat option \<times> f64" where
  "scan_step eligible score best ic =
     (if \<not> eligible (snd ic) then best
      else (let sc = score (snd ic)
            in if fst best = None \<or> f64_lt (snd best) sc then (Some (fst ic), sc) else best))"

definition scan :: "('c \<Rightarrow> bool) \<Rightarrow> ('c \<Rightarrow> f64) \<Rightarrow> 'c list \<Rightarrow> nat option" where
  "scan eligible score cs = fst (foldl (scan_step eligible score) (None, NegInf) (enumerate 0 cs))"

definition select_backend :: "(f64 \<Rightarrow> f64) \<Rightarrow> ip_addr \<Rightarrow> string list \<Rightarrow> f64 list \<Rightarrow> nat option" where
  "select_backend ln_f64 client_ip ids weights =
     (let ws = map (\<lambda>i. if i < length weights then weights ! i else Fin 1) [0..<length ids]
      in scan (\<lambda>(k, w). \<not> f64_le w (Fin 0)) (\<lambda>(k, w). rendezvous_score ln_f64 client_ip k w) (zip ids ws))"

record backend_pool =
  bp_backends :: "backend_config list"

definition pool_with_max :: "backend_config list \<Rightarrow> u32 \<Rightarrow> backend_pool result" where
  "pool_with_max bs max_backends =
     (if length bs > unat max_backends then Inl (Config (BackendCountAboveMax (length bs) max_backends))
      else if length bs > MAX_BACKENDS then Inl (Config (BackendCountAboveHard (length bs)))
      else Inr \<lparr>bp_backends = bs\<rparr>)"

definition pool_new :: "backend_config list \<Rightarrow> backend_pool result" where
  "pool_new bs = pool_with_max bs 64"

definition scored_weight ::
    "'l health_lru \<Rightarrow> instant \<Rightarrow> 'l health_state \<Rightarrow> (backend_config \<Rightarrow> f64) \<Rightarrow> backend_config \<Rightarrow> f64" where
  "scored_weight ops now hs pressure_fn b =
     (let health_weight = f64_mul (bc_weight b) (weight_factor ops now hs (bc_id b));
          pressure = f64_clamp (pressure_fn b) (Fin 0) (Fin 1)
      in f64_mul health_weight (f64_sub (Fin 1) pressure))"

definition eligible_backend ::
    "'l health_lru \<Rightarrow> instant \<Rightarrow> 'l health_state \<Rightarrow> (backend_config \<Rightarrow> f64) \<Rightarrow> string list \<Rightarrow> backend_config \<Rightarrow> bool" where
  "eligible_backend ops now hs pressure_fn excluded b \<longleftrightarrow>
     \<not> (f64_le (scored_weight ops now hs pressure_fn b) (Fin 0) \<or> bc_id b \<in> set excluded)"

definition backend_score ::
    "(f64 \<Rightarrow> f64) \<Rightarrow> 'l health_lru \<Rightarrow> instant \<Rightarrow> 'l health_state \<Rightarrow> (backend_config \<Rightarrow> f64) \<Rightarrow> ip_addr \<Rightarrow> backend_config \<Rightarrow> f64" where
  "backend_score ln_f64 ops now hs pressure_fn client_ip b =
     rendezvous_score ln_f64 client_ip (bc_id b) (scored_weight ops now hs pressure_fn b)"

definition select_with_pressure_excluding ::
    "(f64 \<Rightarrow> f64) \<Rightarrow> 'l health_lru \<Rightarrow> instant \<Rightarrow> 'l health_state \<Rightarrow> ip_addr \<Rightarrow> (backend_config \<Rightarrow> f64) \<Rightarrow> string list
     \<Rightarrow> backend_pool \<Rightarrow> backend_config option" where
  "select_with_pressure_excluding ln_f64 ops now hs client_ip pressure_fn excluded pool =
     map_option (\<lambda>i. bp_backends pool ! i)
       (scan (eligible_backend ops now hs pressure_fn excluded)
             (backend_score ln_f64 ops now hs pressure_fn client_ip) (bp_backends pool))"

definition select_with_pressure ::
    "(f64 \<Rightarrow> f64) \<Rightarrow> 'l health_lru \<Rightarrow> instant \<Rightarrow> 'l health_state \<Rightarrow> ip_addr \<Rightarrow> (backend_config \<Rightarrow> f64)
     \<Rightarrow> backend_pool \<Rightarrow> backend_config option" where
  "select_with_pressure ln_f64 ops now hs client_ip pressure_fn pool =
     select_with_pressure_excluding ln_f64 ops now hs client_ip pressure_fn [] pool"

definition select ::
    "(f64 \<Rightarrow> f64) \<Rightarrow> 'l health_lru \<Rightarrow> instant \<Rightarrow> 'l health_state \<Rightarrow> ip_addr \<Rightarrow> backend_pool \<Rightarrow> backend_config option" where
  "select ln_f64 ops now hs client_ip pool = select_with_pressure ln_f64 ops now hs client_ip (\<lambda>_. Fin 0) pool"

subsection \<open>The scan finds the first maximum\<close>

text \<open>The same scan on the eligible candidates only, remembering the candidate instead of its index.\<close>

fun best_of :: "('c \<Rightarrow> f64) \<Rightarrow> 'c option \<Rightarrow> 'c list \<Rightarrow> 'c option" where
  "best_of score b [] = b"
| "best_of score b (c # cs) =
     best_of score (case b of None \<Rightarrow> Some c | Some d \<Rightarrow> if f64_lt (score d) (score c) then Some c else Some d) cs"

definition related :: "('c \<Rightarrow> f64) \<Rightarrow> 'c list \<Rightarrow> nat option \<times> f64 \<Rightarrow> 'c option \<Rightarrow> bool" where
  "related score cs best b \<longleftrightarrow> (case fst best of None \<Rightarrow> b = None
     | Some i \<Rightarrow> i < length cs \<and> b = Some (cs ! i) \<and> snd best = score (cs ! i))"

lemma scan_best_of_gen:
  "related score pre best b \<Longrightarrow>
   related score (pre @ cs) (foldl (scan_step eligible score) best (enumerate (length pre) cs))
     (best_of score b (filter eligible cs))"
proof (induction cs arbitrary: pre best b)
  case (Cons c cs)
  have grow: "related score (pre @ [c]) best b"
    using Cons.prems by (auto simp: related_def nth_append split: option.splits)
  show ?case
  proof (cases "eligible c")
    case False
    with Cons.IH [OF grow] show ?thesis by (simp add: scan_step_def)
  next
    case True
    let ?b = "case b of None \<Rightarrow> Some c | Some d \<Rightarrow> if f64_lt (score d) (score c) then Some c else Some d"
    let ?best = "scan_step eligible score best (length pre, c)"
    have "related score (pre @ [c]) ?best ?b"
      using Cons.prems True by (auto simp: related_def scan_step_def Let_def nth_append split: option.splits)
    from Cons.IH [OF this] True show ?thesis by simp
  qed
qed simp

lemma scan_best_of:
  "map_option (\<lambda>i. cs ! i) (scan eligible score cs) = best_of score None (filter eligible cs)"
  using scan_best_of_gen [of score "[]" "(None, NegInf)" None cs eligible]
  by (auto simp: scan_def related_def split: option.splits)

text \<open>On scores without NaN the result is the first maximum.\<close>

definition first_max :: "('c \<Rightarrow> f64) \<Rightarrow> 'c list \<Rightarrow> 'c \<Rightarrow> bool" where
  "first_max score cs c \<longleftrightarrow> (\<exists>ys zs. cs = ys @ c # zs \<and> (\<forall>y \<in> set ys. f64_lt (score y) (score c))
     \<and> (\<forall>z \<in> set zs. f64_le (score z) (score c)))"

lemma best_of_append: "best_of score b (xs @ ys) = best_of score (best_of score b xs) ys"
  by (induction score b xs rule: best_of.induct) auto

lemma best_of_mem: "best_of score b xs = Some m \<Longrightarrow> b = Some m \<or> m \<in> set xs"
  by (induction score b xs rule: best_of.induct) (auto split: option.splits if_splits)

lemma best_of_keeps: "\<forall>z \<in> set zs. f64_le (score z) (score m) \<Longrightarrow> best_of score (Some m) zs = Some m"
proof (induction zs)
  case (Cons z zs)
  then have "\<not> f64_lt (score m) (score z)" by (auto simp: f64_le_def dest: f64_lt_trans)
  with Cons show ?case by simp
qed simp

lemma best_of_first_max:
  assumes "first_max score cs m"
  shows "best_of score None cs = Some m"
proof -
  from assms obtain ys zs where s: "cs = ys @ m # zs" "\<forall>y \<in> set ys. f64_lt (score y) (score m)"
      "\<forall>z \<in> set zs. f64_le (score z) (score m)" by (auto simp: first_max_def)
  have "best_of score None (ys @ [m]) = Some m"
    using best_of_mem [of score None ys] s(2) by (auto simp: best_of_append split: option.split)
  moreover have "cs = (ys @ [m]) @ zs" using s(1) by simp
  ultimately show ?thesis using best_of_keeps [OF s(3)] by (simp only: best_of_append)
qed

lemma first_max_exists:
  "\<forall>c \<in> set cs. score c \<noteq> NaN \<Longrightarrow> cs \<noteq> [] \<Longrightarrow> \<exists>m. first_max score cs m"
proof (induction cs)
  case (Cons d cs)
  show ?case
  proof (cases "cs = []")
    case True
    then have "d # cs = [] @ d # []" by simp
    then show ?thesis unfolding first_max_def by fastforce
  next
    case False
    with Cons obtain m ys zs where s: "cs = ys @ m # zs" "\<forall>y \<in> set ys. f64_lt (score y) (score m)"
        "\<forall>z \<in> set zs. f64_le (score z) (score m)" by (auto simp: first_max_def)
    have nan: "score d \<noteq> NaN" "score m \<noteq> NaN" using Cons.prems s(1) by auto
    show ?thesis
    proof (cases "f64_lt (score d) (score m)")
      case True
      have "d # cs = (d # ys) @ m # zs" using s by simp
      with True s have "first_max score (d # cs) m" unfolding first_max_def by fastforce
      then show ?thesis ..
    next
      case False
      then have md: "f64_le (score m) (score d)" using nan by (simp add: f64_not_lt)
      have "\<forall>z \<in> set cs. f64_le (score z) (score d)"
        using s md by (auto intro: f64_le_trans [OF _ md] simp: f64_le_def dest: f64_lt_trans)
      moreover have "d # cs = [] @ d # cs" by simp
      ultimately have "first_max score (d # cs) d" unfolding first_max_def by fastforce
      then show ?thesis ..
    qed
  qed
qed simp

text \<open>Dropping candidates other than the maximum keeps it.\<close>

lemma first_max_filter:
  assumes "first_max score cs m" "P m"
  shows "first_max score (filter P cs) m"
proof -
  from assms(1) obtain ys zs where s: "cs = ys @ m # zs" "\<forall>y \<in> set ys. f64_lt (score y) (score m)"
      "\<forall>z \<in> set zs. f64_le (score z) (score m)" by (auto simp: first_max_def)
  have "filter P cs = filter P ys @ m # filter P zs" using s(1) assms(2) by simp
  with s show ?thesis unfolding first_max_def by fastforce
qed

subsection \<open>Scores of well-formed weights\<close>

text \<open>The logarithm is a NaN only on negative numbers and NaN.\<close>

definition ln_doc :: "(f64 \<Rightarrow> f64) \<Rightarrow> bool" where
  "ln_doc ln_f64 \<longleftrightarrow> (\<forall>x. 0 \<le> x \<longrightarrow> ln_f64 (Fin x) \<noteq> NaN)"

lemma unit_hash_fin: "\<exists>x. unit_hash h = Fin x \<and> 0 \<le> x"
proof -
  have r: "real_representable (2 ^ 64)" "real_representable (2 ^ 65)"
    by (rule real_representable_pow2, simp)+
  have nat64: "\<exists>a. f64_of_nat n = Fin a \<and> 0 \<le> a \<and> a \<le> 2 ^ 64" if "n < 2 ^ 64" for n
  proof -
    have "real n \<le> real (2 ^ 64)" using that by (simp only: of_nat_le_iff less_imp_le)
    then have "0 \<le> real n" "real n \<le> 2 ^ 64" by simp_all
    from f64_fin_bounded [OF this r(1)] show ?thesis by (simp add: f64_of_nat_def)
  qed
  have "unat h < 2 ^ 64" using unsigned_less [where 'a = nat, of h] by simp
  from nat64 [OF this] obtain a where a: "f64_of_nat (unat h) = Fin a" "0 \<le> a" "a \<le> 2 ^ 64" by blast
  from f64_fin_bounded [of "a + 1 / 2" "2 ^ 65"] r(2) a obtain b where b: "f64_fin (a + 1 / 2) = Fin b" "0 \<le> b" "b \<le> 2 ^ 65"
    by force
  from nat64 [of "2 ^ 64 - 1"] obtain c where c: "f64_of_nat (2 ^ 64 - 1) = Fin c" "0 \<le> c" "c \<le> 2 ^ 64" by auto
  from f64_fin_bounded [of "c + 1" "2 ^ 65"] r(2) c obtain d where d: "f64_fin (c + 1) = Fin d" "0 \<le> d" "d \<le> 2 ^ 65"
    by force
  have d1: "1 \<le> d"
  proof -
    have "f64_round (c + 1) = d" using d(1) by (auto simp: f64_fin_def split: if_splits)
    moreover have "1 \<le> f64_round (c + 1)" using f64_round_ge1 [of "c + 1"] c by simp
    ultimately show ?thesis by simp
  qed
  have "0 \<le> b / d" "b / d \<le> 2 ^ 65" using b d d1 by (simp_all add: divide_le_eq mult_ge1_I order_trans)
  note q = f64_fin_bounded [OF this r(2)]
  have "d \<noteq> 0" using d1 by auto
  then have "unit_hash h = f64_fin (b / d)"
    by (simp only: unit_hash_def a(1) c(1) f64_add.simps b(1) d(1) f64_div.simps not_False_eq_True if_True)
  with q show ?thesis by auto
qed

lemma score_not_nan:
  assumes "ln_doc ln_f64" "w \<noteq> NaN" "w \<noteq> PosInf" "\<not> f64_le w (Fin 0)"
  shows "rendezvous_score ln_f64 ip k w \<noteq> NaN"
proof -
  obtain x where x: "unit_hash (hash_pair ip k) = Fin x" "0 \<le> x" using unit_hash_fin by blast
  have l: "ln_f64 (Fin x) \<noteq> NaN" using assms(1) x(2) by (simp add: ln_doc_def)
  obtain v where v: "w = Fin v" "0 < v"
    using assms(2-4) by (cases w) (auto simp: f64_le_def)
  have nf: "f64_fin y \<noteq> NaN" for y by (simp add: f64_fin_def)
  show ?thesis using l v nf assms(4)
    by (cases "ln_f64 (Fin x)") (simp_all add: rendezvous_score_def x(1) inf_signed_def)
qed

text \<open>
  Configured weights are finite, non-negative and representable (\<open>validate_weight\<close>, a parsed \<open>f64\<close>);
  stored loads and the pressure are not NaN.
\<close>

definition weights_ok :: "backend_config list \<Rightarrow> bool" where
  "weights_ok bs \<longleftrightarrow> (\<forall>b \<in> set bs. \<exists>w. bc_weight b = Fin w \<and> 0 \<le> w \<and> real_representable w)"

lemma validate_weight_ok:
  "validate_weight w = Inr () \<Longrightarrow> representable w \<Longrightarrow> \<exists>x. w = Fin x \<and> 0 \<le> x \<and> real_representable x"
  by (cases w) (auto simp: validate_weight_def f64_is_nan_def f64_is_infinite_def split: if_splits)

lemma scored_weight_fin:
  assumes "loads_ok ops hs" "bc_weight b = Fin w" "0 \<le> w" "real_representable w" "pressure_fn b \<noteq> NaN"
  shows "\<exists>z. scored_weight ops now hs pressure_fn b = Fin z \<and> 0 \<le> z \<and> z \<le> w"
proof -
  from mul_by_unit [OF assms(3) order_refl assms(4) weight_factor_unit [OF assms(1), of now "bc_id b"]]
  obtain z where z: "f64_mul (Fin w) (weight_factor ops now hs (bc_id b)) = Fin z" "0 \<le> z" "z \<le> w" by blast
  from mul_by_unit [OF z(2,3) assms(4) one_minus_unit [OF clamp_unit [OF assms(5)]]] z(1) assms(2)
  show ?thesis by (simp add: scored_weight_def)
qed

lemma pool_scores_not_nan:
  assumes "ln_doc ln_f64" "loads_ok ops hs" "weights_ok bs" "\<And>b. pressure_fn b \<noteq> NaN"
    and "b \<in> set bs" "eligible_backend ops now hs pressure_fn excluded b"
  shows "backend_score ln_f64 ops now hs pressure_fn ip b \<noteq> NaN"
proof -
  from assms(3,5) obtain w where w: "bc_weight b = Fin w" "0 \<le> w" "real_representable w"
    by (auto simp: weights_ok_def)
  obtain z where z: "scored_weight ops now hs pressure_fn b = Fin z"
    using scored_weight_fin [where pressure_fn = pressure_fn, OF assms(2) w] assms(4) by blast
  have "\<not> f64_le (Fin z) (Fin 0)" using assms(6) by (simp add: eligible_backend_def z)
  then show ?thesis unfolding backend_score_def z by (intro score_not_nan [OF assms(1)]) simp_all
qed

lemma select_best_of:
  "select_with_pressure_excluding ln_f64 ops now hs ip pressure_fn excluded pool =
   best_of (backend_score ln_f64 ops now hs pressure_fn ip) None
     (filter (eligible_backend ops now hs pressure_fn excluded) (bp_backends pool))"
  by (simp add: select_with_pressure_excluding_def scan_best_of)

lemma select_first_max:
  assumes "ln_doc ln_f64" "loads_ok ops hs" "weights_ok (bp_backends pool)" "\<And>b. pressure_fn b \<noteq> NaN"
  shows "case select_with_pressure_excluding ln_f64 ops now hs ip pressure_fn excluded pool of
      None \<Rightarrow> filter (eligible_backend ops now hs pressure_fn excluded) (bp_backends pool) = []
    | Some m \<Rightarrow> first_max (backend_score ln_f64 ops now hs pressure_fn ip)
        (filter (eligible_backend ops now hs pressure_fn excluded) (bp_backends pool)) m"
proof (cases "filter (eligible_backend ops now hs pressure_fn excluded) (bp_backends pool) = []")
  case True
  then show ?thesis by (simp add: select_best_of)
next
  case False
  have "\<forall>c \<in> set (filter (eligible_backend ops now hs pressure_fn excluded) (bp_backends pool)).
      backend_score ln_f64 ops now hs pressure_fn ip c \<noteq> NaN"
    using pool_scores_not_nan [where pressure_fn = pressure_fn, OF assms(1-3)] assms(4) by auto
  from first_max_exists [OF this False] obtain m where
    "first_max (backend_score ln_f64 ops now hs pressure_fn ip)
       (filter (eligible_backend ops now hs pressure_fn excluded) (bp_backends pool)) m" by blast
  with best_of_first_max [OF this] show ?thesis by (simp add: select_best_of)
qed

text \<open>
  Selection is safe and complete, for every logarithm, pressure, load and weight: a selected
  backend belongs to the pool, has a positive (or NaN) effective weight and is not excluded, and no
  backend is selected only if every backend of the pool is ineligible.
\<close>
theorem select_eligible:
  "case select_with_pressure_excluding ln_f64 ops now hs ip pressure_fn excluded pool of
     None \<Rightarrow> filter (eligible_backend ops now hs pressure_fn excluded) (bp_backends pool) = []
   | Some b \<Rightarrow> b \<in> set (bp_backends pool) \<and> eligible_backend ops now hs pressure_fn excluded b"
proof -
  have none: "best_of score (Some d) cs \<noteq> None" for score d and cs :: "backend_config list"
    by (induction cs arbitrary: d) auto
  let ?cs = "filter (eligible_backend ops now hs pressure_fn excluded) (bp_backends pool)"
  show ?thesis
  proof (cases ?cs)
    case (Cons c cs)
    have "best_of (backend_score ln_f64 ops now hs pressure_fn ip) None ?cs \<noteq> None"
      using none by (simp add: Cons)
    then obtain m where m: "best_of (backend_score ln_f64 ops now hs pressure_fn ip) None ?cs = Some m" by blast
    with best_of_mem [OF m] show ?thesis by (auto simp: select_best_of)
  qed (simp add: select_best_of)
qed

text \<open>
  Claim C27. Rendezvous selection is stable under membership changes: when some backends other than the
  selected one leave the pool or are excluded, with healthy numbers (no NaN load or pressure, valid
  weights), the same backend stays selected.
\<close>
theorem select_stable:
  assumes "ln_doc ln_f64" and "loads_ok ops hs" and "weights_ok (bp_backends pool)" and "\<And>b. pressure_fn b \<noteq> NaN"
    and "select_with_pressure_excluding ln_f64 ops now hs ip pressure_fn excluded pool = Some m"
    and "P m" and "bc_id m \<notin> set dropped"
  shows "select_with_pressure_excluding ln_f64 ops now hs ip pressure_fn (dropped @ excluded)
     \<lparr>bp_backends = filter P (bp_backends pool)\<rparr> = Some m"
proof -
  let ?sc = "backend_score ln_f64 ops now hs pressure_fn ip"
  let ?el = "\<lambda>ex. eligible_backend ops now hs pressure_fn ex"
  from select_first_max [where pressure_fn = pressure_fn and now = now and ip = ip and excluded = excluded,
      OF assms(1-3)] assms(4,5)
  have m: "first_max ?sc (filter (?el excluded) (bp_backends pool)) m" by simp
  have "first_max ?sc (filter (\<lambda>b. P b \<and> bc_id b \<notin> set dropped) (filter (?el excluded) (bp_backends pool))) m"
    using first_max_filter [OF m, of "\<lambda>b. P b \<and> bc_id b \<notin> set dropped"] assms(6,7) by blast
  moreover have "filter (?el (dropped @ excluded)) (filter P (bp_backends pool))
      = filter (\<lambda>b. P b \<and> bc_id b \<notin> set dropped) (filter (?el excluded) (bp_backends pool))"
    by (simp add: filter_filter) (rule filter_cong, auto simp: eligible_backend_def)
  ultimately show ?thesis by (simp add: select_best_of best_of_first_max)
qed

lemma f64_fin_0_1 [simp]: "f64_fin 0 = Fin 0" "f64_fin 1 = Fin 1"
  using f64_fin_nat [of 0] f64_fin_nat [of 1] by simp_all

definition sample_backend :: "string \<Rightarrow> backend_config" where
  "sample_backend k = \<lparr>bc_id = k, bc_pool = ''p'', bc_address = \<lparr>sa_ip = V4 0x0a000001, sa_port = 443\<rparr>, bc_host = ''h'',
     bc_weight = Fin 1, bc_transport = Tcp, bc_scheme = Https, bc_max_connections = 256, bc_wakeable = False\<rparr>"

lemma sample_backend_simps [simp]:
  "bc_id (sample_backend k) = k" "bc_weight (sample_backend k) = Fin 1" "bc_pool (sample_backend k) = ''p''"
  by (simp_all add: sample_backend_def)

lemma sample_score:
  "scored_weight alist_lru 0 (health_new alist_lru) (\<lambda>_. Fin 0) (sample_backend k) = Fin 1"
  "backend_score (\<lambda>_. Fin (- 1)) alist_lru 0 (health_new alist_lru) (\<lambda>_. Fin 0) ip (sample_backend k) = Fin 1"
  by (simp_all add: scored_weight_def weight_factor_def health_is_valid_def health_new_def alist_lru_def
      f64_clamp_def f64_sub_def backend_score_def rendezvous_score_def f64_le_def)

theorem select_stable_witness:
  "select_with_pressure_excluding (\<lambda>_. Fin (- 1)) alist_lru 0 (health_new alist_lru) (V4 7) (\<lambda>_. Fin 0) ([''c''] @ [])
     \<lparr>bp_backends = filter (\<lambda>b. bc_id b \<noteq> ''b'') [sample_backend ''a'', sample_backend ''b'', sample_backend ''c'']\<rparr>
   = Some (sample_backend ''a'')"
proof -
  let ?pool = "\<lparr>bp_backends = [sample_backend ''a'', sample_backend ''b'', sample_backend ''c'']\<rparr>"
  have "loads_ok alist_lru (health_new alist_lru)"
    by (simp add: loads_ok_def health_new_def alist_lru_def)
  moreover have "weights_ok (bp_backends ?pool)" by (simp add: weights_ok_def)
  moreover have "select_with_pressure_excluding (\<lambda>_. Fin (- 1)) alist_lru 0 (health_new alist_lru) (V4 7) (\<lambda>_. Fin 0) [] ?pool
      = Some (sample_backend ''a'')"
    by (simp add: select_best_of eligible_backend_def sample_score f64_le_def)
  ultimately show ?thesis
    using select_stable [of "\<lambda>_. Fin (- 1)" alist_lru "health_new alist_lru" ?pool "\<lambda>_. Fin 0" 0 "V4 7" "[]"
        "sample_backend ''a''" "\<lambda>b. bc_id b \<noteq> ''b''" "[''c'']"]
    by (simp add: ln_doc_def)
qed

text \<open>
  Effective weights are well-behaved: with a valid configured weight, a load that is a number and
  a pressure that is a number, the product of weight, health factor and remaining capacity is finite,
  non-negative and never exceeds the configured weight; an offline backend with a fresh report gets
  weight zero and is therefore never eligible.
\<close>
theorem effective_weight_bounds:
  assumes "loads_ok ops hs" and "validate_weight (bc_weight b) = Inr ()" and "representable (bc_weight b)"
    and "pressure_fn b \<noteq> NaN"
  shows "\<exists>w z. bc_weight b = Fin w \<and> scored_weight ops now hs pressure_fn b = Fin z \<and> 0 \<le> z \<and> z \<le> w
     \<and> (health_is_valid ops now hs (bc_id b) \<and> map_option bh_availability (health_get ops hs (bc_id b)) = Some Offline
          \<longrightarrow> \<not> eligible_backend ops now hs pressure_fn excluded b)"
proof -
  from validate_weight_ok [OF assms(2,3)] obtain w where w: "bc_weight b = Fin w" "0 \<le> w" "real_representable w"
    by blast
  from scored_weight_fin [where pressure_fn = pressure_fn, OF assms(1) w assms(4)] obtain z where
    z: "scored_weight ops now hs pressure_fn b = Fin z" "0 \<le> z" "z \<le> w" by blast
  have "\<not> eligible_backend ops now hs pressure_fn excluded b"
    if "health_is_valid ops now hs (bc_id b)" "map_option bh_availability (health_get ops hs (bc_id b)) = Some Offline"
  proof -
    from that have f: "weight_factor ops now hs (bc_id b) = Fin 0" by (auto intro: weight_factor_offline)
    obtain u where u: "f64_sub (Fin 1) (f64_clamp (pressure_fn b) (Fin 0) (Fin 1)) = Fin u"
      using one_minus_unit [OF clamp_unit [OF assms(4)]] by (auto simp: unit_f64_def)
    have "scored_weight ops now hs pressure_fn b = Fin 0" by (simp add: scored_weight_def w f u)
    then show ?thesis by (simp add: eligible_backend_def f64_le_def)
  qed
  with w z show ?thesis by blast
qed

theorem effective_weight_bounds_witness:
  "\<exists>w z. bc_weight (sample_backend ''a'') = Fin w
     \<and> scored_weight alist_lru 9 (health_new alist_lru) (\<lambda>_. Fin 2) (sample_backend ''a'') = Fin z \<and> 0 \<le> z \<and> z \<le> w"
  using effective_weight_bounds [of alist_lru "health_new alist_lru" "sample_backend ''a''" "\<lambda>_. Fin 2" 9 "[]"]
  by (auto simp: loads_ok_def health_new_def alist_lru_def validate_weight_def f64_is_nan_def f64_is_infinite_def)

subsection \<open>The request queue\<close>

record request_queue =
  rq_available :: nat
  rq_max_depth :: u32

definition queue_new :: "u32 \<Rightarrow> request_queue" where
  "queue_new n = \<lparr>rq_available = unat n, rq_max_depth = n\<rparr>"

definition try_acquire_owned :: "request_queue \<Rightarrow> request_queue \<times> unit result" where
  "try_acquire_owned q =
     (if rq_available q = 0 then (q, Inl QueueFull) else (q\<lparr>rq_available := rq_available q - 1\<rparr>, Inr ()))"

definition release_permit :: "request_queue \<Rightarrow> request_queue" where
  "release_permit q = q\<lparr>rq_available := rq_available q + 1\<rparr>"

definition queue_depth :: "request_queue \<Rightarrow> u32" where
  "queue_depth q =
     (let available = (if rq_available q < 2 ^ 32 then of_nat (rq_available q) else rq_max_depth q)
      in if available \<le> rq_max_depth q then rq_max_depth q - available else 0)"

definition queue_is_full :: "request_queue \<Rightarrow> bool" where
  "queue_is_full q \<longleftrightarrow> rq_available q = 0"

definition queue_acquire :: "request_queue \<Rightarrow> request_queue option" where
  "queue_acquire q = (case try_acquire_owned q of (q', Inr _) \<Rightarrow> Some q' | (_, Inl _) \<Rightarrow> None)"

interpretation request_permits: permit_pool rq_available queue_acquire release_permit
  by unfold_locales (auto simp: queue_acquire_def try_acquire_owned_def release_permit_def split: if_splits)

lemma permit_run_max_depth:
  "permit_run queue_acquire release_permit ops (h, q) = (h', q') \<Longrightarrow> rq_max_depth q' = rq_max_depth q"
proof (induction ops arbitrary: h q)
  case (Cons x ops)
  then show ?case
    by (cases x) (auto simp: queue_acquire_def try_acquire_owned_def release_permit_def split: if_splits)
qed simp

text \<open>
  A request queue is bounded and its gauge is exact: after any sequence of acquisitions and releases
  on a fresh queue, the permits held never exceed the configured depth, \<open>depth\<close> reports exactly the
  permits held, and the queue is full, refusing the next acquisition, exactly when all are held.
\<close>
theorem request_queue_bounded:
  assumes "permit_run queue_acquire release_permit ops (0, queue_new n) = (held, q)"
  shows "held \<le> unat n \<and> unat (queue_depth q) = held
    \<and> (queue_is_full q = (held = unat n)) \<and> (snd (try_acquire_owned q) = Inl QueueFull) = (held = unat n)"
proof -
  have c: "held + rq_available q = unat n"
    using request_permits.conserved [OF assms] by (simp add: queue_new_def)
  have m: "rq_max_depth q = n" using permit_run_max_depth [OF assms] by (simp add: queue_new_def)
  have lt: "unat n < 2 ^ 32" using unsigned_less [where 'a = nat, of n] by simp
  then have av: "rq_available q < 2 ^ 32" using c by linarith
  have ua: "unat (of_nat (rq_available q) :: u32) = rq_available q"
    using av by (simp add: unat_of_nat take_bit_nat_eq_self_iff)
  then have "(of_nat (rq_available q) :: u32) \<le> n" using c by (simp add: word_le_nat_alt)
  then have "unat (queue_depth q) = held"
    using av m ua c by (simp add: queue_depth_def Let_def unat_sub)
  then show ?thesis using c by (auto simp: queue_is_full_def try_acquire_owned_def)
qed

theorem request_queue_bounded_witness:
  "unat (queue_depth (snd (permit_run queue_acquire release_permit [Acquire, Acquire, Acquire, Release] (0, queue_new 2)))) = 1"
proof -
  let ?r = "permit_run queue_acquire release_permit [Acquire, Acquire, Acquire, Release] (0, queue_new 2)"
  have r: "?r = (1, \<lparr>rq_available = 1, rq_max_depth = 2\<rparr>)"
    by (simp add: queue_new_def queue_acquire_def try_acquire_owned_def release_permit_def)
  show ?thesis using request_queue_bounded [OF r] r by simp
qed

end
