(* ===== verification/Access.thy ===== *)
theory Access
  imports Config_Types
begin

section \<open>Access control, rate limiting and retry pacing\<close>

text \<open>
  \<open>acl.rs\<close>, \<open>ratelimit.rs\<close> and \<open>retry.rs\<close>. \<open>contains\<close> is \<open>IpNet::contains\<close> of the ipnet crate. The token
  bucket of the governor crate is a parameter: \<open>check_key\<close> decides on a key and updates the limiter.
  The random number of the jitter is a parameter of \<open>backoff_delay\<close>.
\<close>

subsection \<open>Access control list\<close>

definition IPV4_MAPPED_PREFIX_BITS :: u8 where
  "IPV4_MAPPED_PREFIX_BITS = 96"

definition ipv4_net_new :: "32 word \<Rightarrow> u8 \<Rightarrow> ip_net option" where
  "ipv4_net_new a p = (if p \<le> 32 then Some (V4Net a p) else None)"

definition canonicalize_net :: "ip_net \<Rightarrow> ip_net" where
  "canonicalize_net net =
     (case net of
        V4Net _ _ \<Rightarrow> net
      | V6Net a prefix \<Rightarrow>
          if prefix < IPV4_MAPPED_PREFIX_BITS then net
          else (case to_ipv4_mapped a of
                  None \<Rightarrow> net
                | Some mapped \<Rightarrow>
                    (case ipv4_net_new mapped (prefix - IPV4_MAPPED_PREFIX_BITS) of
                       Some v4 \<Rightarrow> v4 | None \<Rightarrow> net)))"

record access_control =
  ac_allow :: "ip_net list"
  ac_deny :: "ip_net list"

definition acl_new :: "ip_net list \<Rightarrow> ip_net list \<Rightarrow> access_control" where
  "acl_new allow deny = \<lparr>ac_allow = map canonicalize_net allow, ac_deny = map canonicalize_net deny\<rparr>"

definition acl_is_allowed :: "(ip_net \<Rightarrow> ip_addr \<Rightarrow> bool) \<Rightarrow> access_control \<Rightarrow> ip_addr \<Rightarrow> bool" where
  "acl_is_allowed contains acl ip = list_ex (\<lambda>net. contains net ip) (ac_allow acl)"

definition acl_is_denied :: "(ip_net \<Rightarrow> ip_addr \<Rightarrow> bool) \<Rightarrow> access_control \<Rightarrow> ip_addr \<Rightarrow> bool" where
  "acl_is_denied contains acl ip = list_ex (\<lambda>net. contains net ip) (ac_deny acl)"

definition acl_check :: "(ip_net \<Rightarrow> ip_addr \<Rightarrow> bool) \<Rightarrow> access_control \<Rightarrow> ip_addr \<Rightarrow> unit result" where
  "acl_check contains acl ip0 =
     (let ip = to_canonical ip0
      in if acl_is_denied contains acl ip then Inl AccessDenied
         else if ac_allow acl \<noteq> [] \<and> \<not> acl_is_allowed contains acl ip then Inl AccessDenied
         else Inr ())"

subsection \<open>Rate limit\<close>

definition rate_limit_new :: "(u32 \<Rightarrow> 'l) \<Rightarrow> u32 \<Rightarrow> 'l result" where
  "rate_limit_new dashmap_limiter rps = (if rps = 0 then Inl (Config RateLimitZero) else Inr (dashmap_limiter rps))"

definition rate_limit_check :: "(ip_addr \<Rightarrow> 'l \<Rightarrow> 'l \<times> bool) \<Rightarrow> ip_addr \<Rightarrow> 'l \<Rightarrow> 'l \<times> unit result" where
  "rate_limit_check check_key ip l =
     (case check_key (to_canonical ip) l of (l', ok) \<Rightarrow> (l', if ok then Inr () else Inl RateLimited))"

subsection \<open>Retry pacing\<close>

definition checked_shl_one :: "u32 \<Rightarrow> u64 option" where
  "checked_shl_one n = (if unat n < 64 then Some (push_bit (unat n) 1) else None)"

definition exp_delay_ms :: "u32 \<Rightarrow> retry_config \<Rightarrow> u64" where
  "exp_delay_ms attempt c =
     min (saturating_mul (rtc_base_delay_ms c) (case checked_shl_one attempt of Some v \<Rightarrow> v | None \<Rightarrow> - 1))
         (rtc_max_delay_ms c)"

definition backoff_delay :: "(u64 \<Rightarrow> u64) \<Rightarrow> u32 \<Rightarrow> retry_config \<Rightarrow> duration" where
  "backoff_delay random_below attempt c =
     (let jitter = (if rtc_jitter_ms c > 0 then random_below (rtc_jitter_ms c) else 0)
      in from_millis (unat (saturating_add (exp_delay_ms attempt c) jitter)))"

subsection \<open>Rules in mapped notation\<close>

text \<open>
  What a rule means for a peer: within a family the prefix decides, and a rule written for an
  IPv4-mapped block with at least 96 bits covers the IPv4 peers it names.
\<close>

fun rule_covers :: "ip_net \<Rightarrow> ip_addr \<Rightarrow> bool" where
  "rule_covers (V4Net a p) (V4 b) = (drop_bit (32 - unat p) a = drop_bit (32 - unat p) b)"
| "rule_covers (V6Net a p) (V6 b) = (drop_bit (128 - unat p) a = drop_bit (128 - unat p) b)"
| "rule_covers (V6Net a p) (V4 b) =
     (96 \<le> p \<and> to_ipv4_mapped a \<noteq> None \<and> drop_bit (128 - unat p) a = drop_bit (128 - unat p) (to_ipv6_mapped b))"
| "rule_covers (V4Net a p) (V6 b) = False"

fun net_ok :: "ip_net \<Rightarrow> bool" where
  "net_ok (V4Net a p) = (p \<le> 32)"
| "net_ok (V6Net a p) = (p \<le> 128)"

lemma drop_mapped_eq:
  assumes "k \<le> 32"
  shows "drop_bit k (to_ipv6_mapped a) = drop_bit k (to_ipv6_mapped b) \<longleftrightarrow> drop_bit k a = drop_bit k b"
proof
  assume eq: "drop_bit k (to_ipv6_mapped a) = drop_bit k (to_ipv6_mapped b)"
  show "drop_bit k a = drop_bit k b"
  proof (rule bit_word_eqI)
    fix n assume "n < LENGTH(32)"
    show "bit (drop_bit k a) n = bit (drop_bit k b) n"
    proof (cases "k + n < 32")
      case True
      have m: "bit (drop_bit k (to_ipv6_mapped x)) n = bit x (k + n)" for x
        using True by (simp add: to_ipv6_mapped_def bit_simps del: push_bit_numeral)
      from eq m [of a] m [of b] show ?thesis by (simp add: bit_simps)
    next
      case False
      then show ?thesis by (auto simp: bit_simps dest: bit_imp_le_length)
    qed
  qed
next
  assume eq: "drop_bit k a = drop_bit k b"
  have *: "bit a (k + n) = bit b (k + n)" for n
    using arg_cong [OF eq, of "\<lambda>w. bit w n"] by (simp add: bit_simps)
  show "drop_bit k (to_ipv6_mapped a) = drop_bit k (to_ipv6_mapped b)"
    unfolding to_ipv6_mapped_def
    by (rule bit_word_eqI) (auto simp: bit_simps * simp del: push_bit_numeral)
qed

lemma prefix_shift: "96 \<le> p \<Longrightarrow> p \<le> 128 \<Longrightarrow> unat (p - 96) = unat (p :: u8) - 96 \<and> p - 96 \<le> 32"
proof -
  assume p: "96 \<le> p" "p \<le> 128"
  then have n: "96 \<le> unat p" "unat p \<le> 128" by (simp_all add: word_le_nat_alt)
  from p(1) have u: "unat (p - 96) = unat p - 96" by (simp add: unat_sub)
  with n show ?thesis by (simp add: word_le_nat_alt)
qed

lemma mapped_prefix_imp_mapped:
  assumes "96 \<le> unat p" "drop_bit (128 - unat p) a = drop_bit (128 - unat p) b" "to_ipv4_mapped a \<noteq> None"
  shows "to_ipv4_mapped b \<noteq> None"
proof -
  let ?k = "128 - unat p"
  have k: "32 = ?k + (32 - ?k)" using assms(1) by simp
  have "drop_bit 32 x = drop_bit (32 - ?k) (drop_bit ?k x)" for x :: "128 word"
    using k by (metis add.commute drop_bit_drop_bit)
  with assms(2) have "drop_bit 32 a = drop_bit 32 b" by metis
  with assms(3) show ?thesis by (simp add: to_ipv4_mapped_def split: if_splits)
qed

lemma canonicalize_net_covers:
  assumes "contains_doc contains" and "net_ok net"
  shows "contains (canonicalize_net net) (to_canonical ip) \<longleftrightarrow> rule_covers net (to_canonical ip)"
proof (cases net)
  case (V4Net a p)
  with assms show ?thesis
    by (cases "to_canonical ip") (simp_all add: canonicalize_net_def contains_doc_def)
next
  case (V6Net a p)
  have c4: "contains (V4Net x q) (V4 y) = (drop_bit (32 - unat q) x = drop_bit (32 - unat q) y)" if "q \<le> 32" for x q y
    using assms(1) that by (simp add: contains_doc_def)
  have c6: "contains (V6Net x q) (V6 y) = (drop_bit (128 - unat q) x = drop_bit (128 - unat q) y)" if "q \<le> 128" for x q y
    using assms(1) that by (simp add: contains_doc_def)
  have cross: "\<not> contains (V4Net x q) (V6 z)" "\<not> contains (V6Net z q) (V4 x)" for x q z
    using assms(1) by (simp_all add: contains_doc_def)
  have p: "p \<le> 128" using assms(2) V6Net by simp
  show ?thesis
  proof (cases "96 \<le> p \<and> to_ipv4_mapped a \<noteq> None")
    case False
    then have "canonicalize_net net = net"
      by (auto simp: V6Net canonicalize_net_def IPV4_MAPPED_PREFIX_BITS_def not_less [symmetric] split: option.split)
    with False p V6Net c6 cross show ?thesis by (cases "to_canonical ip") auto
  next
    case True
    then obtain m where m: "to_ipv4_mapped a = Some m" and p96: "96 \<le> p" by auto
    have a: "a = to_ipv6_mapped m" using m by (simp add: to_ipv4_mapped_Some)
    note sh = prefix_shift [OF p96 p]
    have n96: "96 \<le> unat p" "unat p \<le> 128" using p96 p by (simp_all add: word_le_nat_alt)
    have cn: "canonicalize_net net = V4Net m (p - 96)"
      using sh p96 m by (simp add: V6Net canonicalize_net_def IPV4_MAPPED_PREFIX_BITS_def ipv4_net_new_def not_less [symmetric] leD)
    show ?thesis
    proof (cases "to_canonical ip")
      case (V4 b)
      have "32 - unat (p - 96) = 128 - unat p" using sh n96 by simp
      then have "contains (V4Net m (p - 96)) (V4 b) = (drop_bit (128 - unat p) m = drop_bit (128 - unat p) b)"
        using c4 sh by simp
      moreover have "rule_covers net (V4 b) = (drop_bit (128 - unat p) m = drop_bit (128 - unat p) b)"
        using drop_mapped_eq [of "128 - unat p" m b] n96 p96 m by (simp add: V6Net a)
      ultimately show ?thesis by (simp only: V4 cn)
    next
      case (V6 b)
      then have "to_ipv4_mapped b = None" using to_canonical_V6 by blast
      with mapped_prefix_imp_mapped [OF n96(1), of a b] m have "\<not> rule_covers net (V6 b)" by (auto simp: V6Net)
      with cross V6 cn show ?thesis by simp
    qed
  qed
qed

text \<open>
  Claim C25. Access control decides by the rules as written: a peer passes if and only if no deny rule
  covers it and, when there is an allow list, some allow rule does. An IPv4 peer is treated alike whether it
  arrives as IPv4 or as IPv4-mapped IPv6, and a rule in mapped notation covers the IPv4 peers it names.
\<close>
theorem acl_exact:
  assumes "contains_doc contains" and "list_all net_ok (allow @ deny)"
  shows "acl_check contains (acl_new allow deny) ip = Inr () \<longleftrightarrow>
     \<not> list_ex (\<lambda>n. rule_covers n (to_canonical ip)) deny
     \<and> (allow = [] \<or> list_ex (\<lambda>n. rule_covers n (to_canonical ip)) allow)"
proof -
  have "list_ex (\<lambda>n. contains n (to_canonical ip)) (map canonicalize_net ns)
      = list_ex (\<lambda>n. rule_covers n (to_canonical ip)) ns" if "list_all net_ok ns" for ns
    using that canonicalize_net_covers [OF assms(1)] by (induction ns) auto
  with assms(2) show ?thesis
    by (simp add: acl_check_def acl_is_denied_def acl_is_allowed_def acl_new_def Let_def)
qed

theorem acl_exact_witness:
  "acl_check prefix_contains (acl_new [] [V6Net (to_ipv6_mapped 0x0a000000) 104]) (V4 0x0a010203) \<noteq> Inr ()"
proof -
  have "rule_covers (V6Net (to_ipv6_mapped 0x0a000000) 104) (V4 0x0a010203)"
    using drop_mapped_eq [of 24 "0x0a000000" "0x0a010203"]
      to_ipv4_mapped_Some [of "to_ipv6_mapped 0x0a000000" "0x0a000000"] by simp
  with acl_exact [OF prefix_contains_doc, of "[]" "[V6Net (to_ipv6_mapped 0x0a000000) 104]" "V4 0x0a010203"]
  show ?thesis by simp
qed

subsection \<open>Backoff\<close>

lemma checked_shl_one_unat: "checked_shl_one n = Some v \<Longrightarrow> unat v = 2 ^ unat n \<and> unat n < 64"
proof -
  assume v: "checked_shl_one n = Some v"
  then have n: "unat n < 64" and v: "v = 2 ^ unat n"
    by (auto simp: checked_shl_one_def push_bit_eq_mult split: if_splits)
  have "(2 :: nat) ^ unat n < 2 ^ 64" using n by (rule power_strict_increasing) simp
  then have "unat (2 ^ unat n :: u64) = 2 ^ unat n"
    using unat_of_nat [where 'a = 64, of "2 ^ unat n"] by simp
  with n v show ?thesis by simp
qed

lemma exp_delay_exact:
  "unat (exp_delay_ms attempt c) = min (unat (rtc_base_delay_ms c) * 2 ^ unat attempt) (unat (rtc_max_delay_ms c))"
proof -
  let ?b = "unat (rtc_base_delay_ms c)" and ?m = "unat (rtc_max_delay_ms c)"
  have m: "?m \<le> 2 ^ 64 - 1" using unsigned_less [where 'a = nat, of "rtc_max_delay_ms c"] by simp
  have umin: "unat (min x y) = min (unat x) (unat y)" for x y :: u64
    by (simp add: min_def word_le_nat_alt)
  show ?thesis
  proof (cases "checked_shl_one attempt")
    case (Some v)
    with checked_shl_one_unat [OF Some] m show ?thesis
      by (simp add: exp_delay_ms_def umin unat_saturating_mul min.assoc min_absorb2)
  next
    case None
    then have big: "64 \<le> unat attempt" by (simp add: checked_shl_one_def not_less [symmetric] split: if_splits)
    show ?thesis
    proof (cases "?b = 0")
      case True
      then show ?thesis using None by (simp add: exp_delay_ms_def umin unat_saturating_mul)
    next
      case False
      have "(2 :: nat) ^ 64 \<le> 2 ^ unat attempt" by (rule power_increasing [OF big]) simp
      with False have "2 ^ 64 \<le> ?b * 2 ^ unat attempt"
        by (metis le_trans mult.commute mult_le_mono1 mult.right_neutral Suc_leI One_nat_def mult_le_mono2 neq0_conv)
      with m have r: "min (?b * 2 ^ unat attempt) ?m = ?m" by simp
      have "2 ^ 64 - 1 \<le> ?b * (2 ^ 64 - 1)" using False by simp
      with None m r show ?thesis
        by (simp add: exp_delay_ms_def umin unat_saturating_mul unat_max_word)
    qed
  qed
qed

text \<open>
  Retry pacing: the delay before an attempt is \<open>min(base * 2^attempt, max)\<close> milliseconds computed
  without any overflow artefact, for every 32-bit attempt number, plus a jitter below \<open>jitter_ms\<close>; in
  particular it never exceeds \<open>max_delay_ms + jitter_ms\<close>.
\<close>
theorem backoff_bounds:
  assumes "\<And>j. 0 < j \<Longrightarrow> random_below j < j"
  shows "from_millis (min (unat (rtc_base_delay_ms c) * 2 ^ unat attempt) (unat (rtc_max_delay_ms c)))
           \<le> backoff_delay random_below attempt c
       \<and> backoff_delay random_below attempt c
           \<le> from_millis (min (unat (rtc_base_delay_ms c) * 2 ^ unat attempt) (unat (rtc_max_delay_ms c))
               + (unat (rtc_jitter_ms c) - 1))"
proof -
  let ?j = "if rtc_jitter_ms c > 0 then random_below (rtc_jitter_ms c) else 0"
  have j: "unat ?j \<le> unat (rtc_jitter_ms c) - 1"
    using assms [of "rtc_jitter_ms c"] by (auto simp: word_less_nat_alt)
  have e: "unat (exp_delay_ms attempt c) \<le> 2 ^ 64 - 1"
    using unsigned_less [where 'a = nat, of "exp_delay_ms attempt c"] by simp
  have "backoff_delay random_below attempt c = from_millis (min (unat (exp_delay_ms attempt c) + unat ?j) (2 ^ 64 - 1))"
    by (simp add: backoff_delay_def Let_def unat_saturating_add)
  moreover have "unat (exp_delay_ms attempt c) \<le> min (unat (exp_delay_ms attempt c) + unat ?j) (2 ^ 64 - 1)"
    using e by simp
  moreover have "min (unat (exp_delay_ms attempt c) + unat ?j) (2 ^ 64 - 1)
      \<le> unat (exp_delay_ms attempt c) + (unat (rtc_jitter_ms c) - 1)" using j by simp
  ultimately show ?thesis
    unfolding exp_delay_exact [symmetric] by (simp only: from_millis_def mult_le_mono1)
qed

theorem backoff_bounds_witness:
  "backoff_delay (\<lambda>j. j - 1) 3 default_retry_config \<le> from_millis (1600 + 99)"
proof -
  have *: "(0::u64) < j \<Longrightarrow> j - 1 < j" for j
    using unat_sub_one [of j] by (simp add: word_less_nat_alt unat_gt_0)
  have c: "rtc_base_delay_ms default_retry_config = 200" "rtc_max_delay_ms default_retry_config = 2000"
    "rtc_jitter_ms default_retry_config = 100" by (simp_all add: default_retry_config_def)
  from backoff_bounds [of "\<lambda>j. j - 1" default_retry_config 3] * show ?thesis by (simp add: c)
qed

end
