(* ===== verification/Circuit.thy ===== *)
theory Circuit
  imports Config_Types
begin

section \<open>Circuit breakers (\<open>circuit.rs\<close>)\<close>

text \<open>
  \<open>CircuitBreakers\<close> maps backend ids to \<open>Arc<BackendBreaker>\<close>. A \<open>HalfOpenGuard\<close> keeps the \<open>Arc\<close>, so
  it may outlive the map entry and the half-open episode it was issued in; breakers therefore live in
  a store indexed by references, a guard is a reference, and the map holds references. Each operation
  is the whole method; \<open>now\<close> is \<open>Instant::now()\<close>. The atomics are \<open>u8\<close> and \<open>u32\<close> words and wrap as
  \<open>fetch_add\<close> and \<open>fetch_sub\<close> do. The last part interleaves the atomic instructions of concurrent
  half-open admissions.
\<close>

datatype circuit_state = Closed | Open | HalfOpen

definition STATE_CLOSED :: u8 where "STATE_CLOSED = 0"
definition STATE_OPEN :: u8 where "STATE_OPEN = 1"
definition STATE_HALF_OPEN :: u8 where "STATE_HALF_OPEN = 2"

definition state_from :: "u8 \<Rightarrow> circuit_state" where
  "state_from v = (if v = STATE_OPEN then Open else if v = STATE_HALF_OPEN then HalfOpen else Closed)"

record backend_breaker =
  bb_state :: u8
  consecutive_failures :: u32
  half_open_inflight :: u32
  opened_at :: "instant option"

definition breaker_new :: backend_breaker where
  "breaker_new = \<lparr>bb_state = STATE_CLOSED, consecutive_failures = 0, half_open_inflight = 0, opened_at = None\<rparr>"

type_synonym ref = nat

record circuit_breakers =
  cb_breakers :: "string \<Rightarrow> ref option"
  cb_store :: "ref \<Rightarrow> backend_breaker"
  cb_next :: ref
  failure_threshold :: u32
  recovery_timeout :: duration
  half_open_max_requests :: u32

definition breakers_new :: "circuit_breaker_config \<Rightarrow> circuit_breakers" where
  "breakers_new c = \<lparr>cb_breakers = Map.empty, cb_store = (\<lambda>_. breaker_new), cb_next = 0,
     failure_threshold = cbc_failure_threshold c,
     recovery_timeout = from_secs (unat (cbc_recovery_timeout_secs c)),
     half_open_max_requests = cbc_half_open_max_requests c\<rparr>"

text \<open>\<open>entry(key).or_insert_with(\<dots>)\<close>: the reference of the key, freshly allocated if absent.\<close>

definition entry_or_insert :: "string \<Rightarrow> circuit_breakers \<Rightarrow> circuit_breakers \<times> ref" where
  "entry_or_insert k s = (case cb_breakers s k of
     Some r \<Rightarrow> (s, r)
   | None \<Rightarrow> (s\<lparr>cb_breakers := (cb_breakers s)(k \<mapsto> cb_next s),
              cb_store := (cb_store s)(cb_next s := breaker_new), cb_next := cb_next s + 1\<rparr>, cb_next s))"

definition store_at :: "ref \<Rightarrow> backend_breaker \<Rightarrow> circuit_breakers \<Rightarrow> circuit_breakers" where
  "store_at r b s = s\<lparr>cb_store := (cb_store s)(r := b)\<rparr>"

definition recovery_due :: "circuit_breakers \<Rightarrow> instant \<Rightarrow> backend_breaker \<Rightarrow> bool" where
  "recovery_due s now b = (case opened_at b of None \<Rightarrow> False | Some t \<Rightarrow> recovery_timeout s \<le> elapsed now t)"

definition check :: "instant \<Rightarrow> string \<Rightarrow> circuit_breakers \<Rightarrow> circuit_breakers \<times> circuit_state \<times> ref option" where
  "check now backend_id s0 =
     (case array_string_from 256 backend_id of
        None \<Rightarrow> (s0, Open, None)
      | Some key \<Rightarrow>
        (let (s, r) = entry_or_insert key s0; b = cb_store s r
         in case state_from (bb_state b) of
              Closed \<Rightarrow> (s, Closed, None)
            | Open \<Rightarrow>
                if recovery_due s now b
                then (store_at r (b\<lparr>half_open_inflight := 1, bb_state := STATE_HALF_OPEN\<rparr>) s, HalfOpen, Some r)
                else (s, Open, None)
            | HalfOpen \<Rightarrow>
                (let inflight = half_open_inflight b;
                     b1 = b\<lparr>half_open_inflight := inflight + 1\<rparr>
                 in if inflight \<ge> half_open_max_requests s
                    then (store_at r (b1\<lparr>half_open_inflight := half_open_inflight b1 - 1\<rparr>) s, Open, None)
                    else (store_at r b1 s, HalfOpen, Some r))))"

definition drop_guard :: "ref \<Rightarrow> circuit_breakers \<Rightarrow> circuit_breakers" where
  "drop_guard r s =
     (let b = cb_store s r
      in if state_from (bb_state b) = HalfOpen
         then store_at r (b\<lparr>half_open_inflight := half_open_inflight b - 1\<rparr>) s else s)"

definition record_success :: "string \<Rightarrow> circuit_breakers \<Rightarrow> circuit_breakers" where
  "record_success backend_id s =
     (case cb_breakers s backend_id of
        None \<Rightarrow> s
      | Some r \<Rightarrow>
        (let b = cb_store s r
         in case state_from (bb_state b) of
              HalfOpen \<Rightarrow> store_at r (b\<lparr>consecutive_failures := 0, half_open_inflight := 0,
                            bb_state := STATE_CLOSED, opened_at := None\<rparr>) s
            | Closed \<Rightarrow> store_at r (b\<lparr>consecutive_failures := 0\<rparr>) s
            | Open \<Rightarrow> s))"

definition record_failure :: "instant \<Rightarrow> string \<Rightarrow> circuit_breakers \<Rightarrow> circuit_breakers" where
  "record_failure now backend_id s0 =
     (case array_string_from 256 backend_id of
        None \<Rightarrow> s0
      | Some key \<Rightarrow>
        (let (s, r) = entry_or_insert key s0; b = cb_store s r
         in case state_from (bb_state b) of
              Closed \<Rightarrow>
                (let failures = consecutive_failures b + 1;
                     b1 = b\<lparr>consecutive_failures := failures\<rparr>
                 in store_at r (if failures \<ge> failure_threshold s
                                then b1\<lparr>bb_state := STATE_OPEN, opened_at := Some now\<rparr> else b1) s)
            | HalfOpen \<Rightarrow> store_at r (b\<lparr>half_open_inflight := 0, bb_state := STATE_OPEN, opened_at := Some now\<rparr>) s
            | Open \<Rightarrow> s))"

definition breaker_state :: "string \<Rightarrow> circuit_breakers \<Rightarrow> circuit_state" where
  "breaker_state backend_id s = (case cb_breakers s backend_id of
     None \<Rightarrow> Closed | Some r \<Rightarrow> state_from (bb_state (cb_store s r)))"

definition remove_backend :: "string \<Rightarrow> circuit_breakers \<Rightarrow> circuit_breakers" where
  "remove_backend backend_id s = s\<lparr>cb_breakers := (cb_breakers s)(backend_id := None)\<rparr>"

text \<open>The breaker behind an id: an absent entry reads as a new breaker.\<close>

definition breaker_of :: "string \<Rightarrow> circuit_breakers \<Rightarrow> backend_breaker" where
  "breaker_of k s = (case cb_breakers s k of None \<Rightarrow> breaker_new | Some r \<Rightarrow> cb_store s r)"

subsection \<open>Well-formedness\<close>

text \<open>
  The state byte is one of the three constants, a breaker that is not closed knows when it opened,
  and a closed one has fewer failures than the threshold and no probe in flight.
\<close>

definition breaker_ok :: "u32 \<Rightarrow> backend_breaker \<Rightarrow> bool" where
  "breaker_ok thr b \<longleftrightarrow> bb_state b \<in> {STATE_CLOSED, STATE_OPEN, STATE_HALF_OPEN}
     \<and> (opened_at b = None \<longleftrightarrow> bb_state b = STATE_CLOSED)
     \<and> (bb_state b = STATE_CLOSED \<longrightarrow> consecutive_failures b < thr)
     \<and> (bb_state b \<noteq> STATE_HALF_OPEN \<longrightarrow> half_open_inflight b = 0)"

definition breakers_ok :: "circuit_breakers \<Rightarrow> bool" where
  "breakers_ok s \<longleftrightarrow> 0 < failure_threshold s
     \<and> (\<forall>k r. cb_breakers s k = Some r \<longrightarrow> r < cb_next s \<and> length k \<le> 256)
     \<and> (\<forall>r. breaker_ok (failure_threshold s) (cb_store s r))
     \<and> inj_on (cb_breakers s) (dom (cb_breakers s))"

lemmas state_defs = STATE_CLOSED_def STATE_OPEN_def STATE_HALF_OPEN_def

lemma state_from_simps [simp]:
  "state_from STATE_CLOSED = Closed" "state_from STATE_OPEN = Open" "state_from STATE_HALF_OPEN = HalfOpen"
  by (simp_all add: state_from_def state_defs)

lemma state_consts_distinct [simp]:
  "STATE_CLOSED \<noteq> STATE_OPEN" "STATE_OPEN \<noteq> STATE_CLOSED" "STATE_CLOSED \<noteq> STATE_HALF_OPEN"
  "STATE_HALF_OPEN \<noteq> STATE_CLOSED" "STATE_OPEN \<noteq> STATE_HALF_OPEN" "STATE_HALF_OPEN \<noteq> STATE_OPEN"
  by (simp_all add: state_defs)

lemma state_from_iff [simp]:
  "state_from v = Open \<longleftrightarrow> v = STATE_OPEN" "state_from v = HalfOpen \<longleftrightarrow> v = STATE_HALF_OPEN"
  by (auto simp: state_from_def)

lemma state_from_Closed: "breaker_ok thr b \<Longrightarrow> state_from (bb_state b) = Closed \<longleftrightarrow> bb_state b = STATE_CLOSED"
  by (auto simp: breaker_ok_def)

lemma breaker_ok_new [simp]: "0 < thr \<Longrightarrow> breaker_ok thr breaker_new"
  by (simp add: breaker_ok_def breaker_new_def)

lemma store_at_simps [simp]:
  "cb_store (store_at r b s) = (cb_store s)(r := b)"
  "cb_breakers (store_at r b s) = cb_breakers s"
  "cb_next (store_at r b s) = cb_next s"
  "failure_threshold (store_at r b s) = failure_threshold s"
  "recovery_timeout (store_at r b s) = recovery_timeout s"
  "half_open_max_requests (store_at r b s) = half_open_max_requests s"
  by (simp_all add: store_at_def)

lemma recovery_due_store [simp]: "recovery_due (store_at r b' s) now b = recovery_due s now b"
  by (simp add: recovery_due_def split: option.split)

lemma breakers_ok_store: "breakers_ok s \<Longrightarrow> breaker_ok (failure_threshold s) b \<Longrightarrow> breakers_ok (store_at r b s)"
  by (auto simp: breakers_ok_def)

lemma entry_present: "cb_breakers s0 k = Some r \<Longrightarrow> entry_or_insert k s0 = (s0, r)"
  by (simp add: entry_or_insert_def)

lemma entry_absent:
  assumes "cb_breakers s0 k = None"
  shows "entry_or_insert k s0 = (s0\<lparr>cb_breakers := (cb_breakers s0)(k \<mapsto> cb_next s0),
    cb_store := (cb_store s0)(cb_next s0 := breaker_new), cb_next := cb_next s0 + 1\<rparr>, cb_next s0)"
  using assms by (simp add: entry_or_insert_def)

lemma inj_on_map_upd:
  assumes "inj_on m (dom m)" and "\<And>k'. m k' \<noteq> Some v"
  shows "inj_on (m(k \<mapsto> v)) (dom (m(k \<mapsto> v)))"
proof (rule inj_onI)
  fix x y assume "x \<in> dom (m(k \<mapsto> v))" "y \<in> dom (m(k \<mapsto> v))" and eq: "(m(k \<mapsto> v)) x = (m(k \<mapsto> v)) y"
  show "x = y"
  proof (cases "x = k \<or> y = k")
    case True
    with eq assms(2) [of x] assms(2) [of y] show ?thesis by (metis fun_upd_apply)
  next
    case False
    with eq \<open>x \<in> dom (m(k \<mapsto> v))\<close> \<open>y \<in> dom (m(k \<mapsto> v))\<close> assms(1) show ?thesis
      by (metis domIff fun_upd_apply inj_onD)
  qed
qed

lemma breakers_ok_fresh: "breakers_ok s \<Longrightarrow> cb_breakers s k \<noteq> Some (cb_next s)"
  by (auto simp: breakers_ok_def)

lemma breakers_ok_insert:
  assumes "breakers_ok s0" and "length k \<le> 256"
  shows "breakers_ok (s0\<lparr>cb_breakers := (cb_breakers s0)(k \<mapsto> cb_next s0),
    cb_store := (cb_store s0)(cb_next s0 := breaker_new), cb_next := cb_next s0 + 1\<rparr>)"
proof -
  have "inj_on (cb_breakers s0) (dom (cb_breakers s0))" using assms(1) by (simp add: breakers_ok_def)
  then have "inj_on ((cb_breakers s0)(k \<mapsto> cb_next s0)) (dom ((cb_breakers s0)(k \<mapsto> cb_next s0)))"
    by (rule inj_on_map_upd) (rule breakers_ok_fresh [OF assms(1)])
  with assms show ?thesis unfolding breakers_ok_def by (auto simp: less_SucI)
qed

lemma entry_spec:
  assumes "entry_or_insert k s0 = (s, r)" and "breakers_ok s0" and "length k \<le> 256"
  shows "breakers_ok s" and "cb_breakers s k = Some r" and "cb_store s r = breaker_of k s0"
    and "failure_threshold s = failure_threshold s0" and "recovery_timeout s = recovery_timeout s0"
    and "half_open_max_requests s = half_open_max_requests s0"
    and "\<And>k'. k' \<noteq> k \<Longrightarrow> breaker_of k' s = breaker_of k' s0"
proof -
  have "breakers_ok s \<and> cb_breakers s k = Some r \<and> cb_store s r = breaker_of k s0
    \<and> failure_threshold s = failure_threshold s0 \<and> recovery_timeout s = recovery_timeout s0
    \<and> half_open_max_requests s = half_open_max_requests s0
    \<and> (\<forall>k'. k' \<noteq> k \<longrightarrow> breaker_of k' s = breaker_of k' s0)"
  proof (cases "cb_breakers s0 k")
    case (Some r')
    with assms(1) entry_present [OF Some] have "s = s0" "r = r'" by simp_all
    with Some assms(2) show ?thesis by (simp add: breaker_of_def)
  next
    case None
    let ?s = "s0\<lparr>cb_breakers := (cb_breakers s0)(k \<mapsto> cb_next s0),
      cb_store := (cb_store s0)(cb_next s0 := breaker_new), cb_next := cb_next s0 + 1\<rparr>"
    have "(s, r) = (?s, cb_next s0)" by (rule trans [OF assms(1) [symmetric] entry_absent [OF None]])
    then have eq: "s = ?s" "r = cb_next s0" by (simp_all only: prod.inject)
    have "breaker_of k' ?s = breaker_of k' s0" if "k' \<noteq> k" for k'
      using that breakers_ok_fresh [OF assms(2), of k'] by (simp add: breaker_of_def split: option.split)
    with None breakers_ok_insert [OF assms(2,3)] show ?thesis
      unfolding eq by (simp add: breaker_of_def)
  qed
  then show "breakers_ok s" and "cb_breakers s k = Some r" and "cb_store s r = breaker_of k s0"
    and "failure_threshold s = failure_threshold s0" and "recovery_timeout s = recovery_timeout s0"
    and "half_open_max_requests s = half_open_max_requests s0"
    and "\<And>k'. k' \<noteq> k \<Longrightarrow> breaker_of k' s = breaker_of k' s0"
    by simp_all
qed

subsection \<open>The breaker automaton\<close>

text \<open>
  What a breaker promises, as an automaton on numbers: failures counted while closed, the instant of
  opening, probes in flight while half open. The refinement below says that the code's operations on an
  id are the automaton's, and that they leave the breakers of the other ids alone.
\<close>

datatype abs_breaker = AClosed nat | AOpen instant | AHalf nat

fun abs_check :: "nat \<Rightarrow> duration \<Rightarrow> instant \<Rightarrow> abs_breaker \<Rightarrow> abs_breaker \<times> circuit_state" where
  "abs_check mx rec now (AClosed n) = (AClosed n, Closed)"
| "abs_check mx rec now (AOpen t) = (if rec \<le> now - t then (AHalf 1, HalfOpen) else (AOpen t, Open))"
| "abs_check mx rec now (AHalf n) = (if mx \<le> n then (AHalf n, Open) else (AHalf (n + 1), HalfOpen))"

fun abs_success :: "abs_breaker \<Rightarrow> abs_breaker" where
  "abs_success (AOpen t) = AOpen t"
| "abs_success _ = AClosed 0"

fun abs_failure :: "nat \<Rightarrow> instant \<Rightarrow> abs_breaker \<Rightarrow> abs_breaker" where
  "abs_failure thr now (AClosed n) = (if thr \<le> n + 1 then AOpen now else AClosed (n + 1))"
| "abs_failure thr now (AOpen t) = AOpen t"
| "abs_failure thr now (AHalf n) = AOpen now"

fun abs_drop :: "abs_breaker \<Rightarrow> abs_breaker" where
  "abs_drop (AHalf 0) = AHalf (2 ^ 32 - 1)"
| "abs_drop (AHalf (Suc n)) = AHalf n"
| "abs_drop a = a"

definition abs_of :: "backend_breaker \<Rightarrow> abs_breaker" where
  "abs_of b = (case state_from (bb_state b) of
     Closed \<Rightarrow> AClosed (unat (consecutive_failures b))
   | Open \<Rightarrow> AOpen (case opened_at b of Some t \<Rightarrow> t | None \<Rightarrow> 0)
   | HalfOpen \<Rightarrow> AHalf (unat (half_open_inflight b)))"

lemma breaker_cases:
  assumes "breaker_ok thr b"
  obtains (closed) "bb_state b = STATE_CLOSED" "opened_at b = None" "consecutive_failures b < thr" "half_open_inflight b = 0"
  | (opened) t where "bb_state b = STATE_OPEN" "opened_at b = Some t" "half_open_inflight b = 0"
  | (half) t where "bb_state b = STATE_HALF_OPEN" "opened_at b = Some t"
  using assms by (auto simp: breaker_ok_def)

lemma breaker_of_ok: "breakers_ok s \<Longrightarrow> breaker_ok (failure_threshold s) (breaker_of k s)"
  by (auto simp: breakers_ok_def breaker_of_def split: option.split)

text \<open>Updating the breaker of one id in the store leaves the breakers of the others.\<close>

lemma breaker_of_store:
  assumes "breakers_ok s" and "cb_breakers s k = Some r"
  shows "breaker_of k (store_at r b s) = b" and "k' \<noteq> k \<Longrightarrow> breaker_of k' (store_at r b s) = breaker_of k' s"
proof -
  show "breaker_of k (store_at r b s) = b" using assms(2) by (simp add: breaker_of_def)
  assume "k' \<noteq> k"
  then have "cb_breakers s k' \<noteq> Some r"
    using assms by (metis breakers_ok_def domI inj_onD)
  then show "breaker_of k' (store_at r b s) = breaker_of k' s"
    by (auto simp: breaker_of_def split: option.split)
qed

definition step_at :: "string \<Rightarrow> backend_breaker \<Rightarrow> circuit_breakers \<Rightarrow> circuit_breakers \<Rightarrow> bool" where
  "step_at k b s s' \<longleftrightarrow> breakers_ok s' \<and> breaker_of k s' = b \<and> (\<forall>k'. k' \<noteq> k \<longrightarrow> breaker_of k' s' = breaker_of k' s)
     \<and> failure_threshold s' = failure_threshold s \<and> recovery_timeout s' = recovery_timeout s
     \<and> half_open_max_requests s' = half_open_max_requests s"

lemma step_at_entry:
  assumes "breakers_ok s0" "length k \<le> 256" "entry_or_insert k s0 = (s, r)"
  shows "step_at k (breaker_of k s0) s0 s"
    and "breaker_ok (failure_threshold s0) b \<Longrightarrow> step_at k b s0 (store_at r b s)"
proof -
  note es = entry_spec [OF assms(3,1,2)]
  have b: "breaker_of k s = breaker_of k s0" using es(2,3) by (simp add: breaker_of_def)
  have other: "\<forall>k'. k' \<noteq> k \<longrightarrow> breaker_of k' s = breaker_of k' s0" using es(7) by blast
  with b es(1,4-6) show "step_at k (breaker_of k s0) s0 s" by (simp add: step_at_def)
  assume "breaker_ok (failure_threshold s0) b"
  with es(1,4) have ok: "breakers_ok (store_at r b s)" by (simp add: breakers_ok_store)
  have "\<forall>k'. k' \<noteq> k \<longrightarrow> breaker_of k' (store_at r b s) = breaker_of k' s0"
    using other breaker_of_store(2) [OF es(1,2)] by simp
  with ok es(4-6) breaker_of_store(1) [OF es(1,2)] show "step_at k b s0 (store_at r b s)"
    by (simp add: step_at_def)
qed

lemma check_step:
  assumes "breakers_ok s0" and "length k \<le> 256" and "check now k s0 = (s, st, g)"
  shows "\<exists>b. step_at k b s0 s
     \<and> abs_check (unat (half_open_max_requests s0)) (recovery_timeout s0) now (abs_of (breaker_of k s0)) = (abs_of b, st)
     \<and> (g \<noteq> None \<longleftrightarrow> st = HalfOpen) \<and> (\<forall>r. g = Some r \<longrightarrow> cb_breakers s k = Some r)"
proof -
  obtain s1 r where e: "entry_or_insert k s0 = (s1, r)" by (cases "entry_or_insert k s0")
  note es = entry_spec [OF e assms(1,2)] and st = step_at_entry [OF assms(1,2) e]
  let ?b = "breaker_of k s0"
  have ok: "breaker_ok (failure_threshold s0) ?b" by (rule breaker_of_ok [OF assms(1)])
  then show ?thesis
  proof (cases rule: breaker_cases)
    case closed
    then have "check now k s0 = (s1, Closed, None)"
      using assms(2) e es(3) by (simp add: check_def)
    with closed assms(3) st(1) show ?thesis
      by (intro exI [of _ ?b]) (simp add: abs_of_def)
  next
    case (opened t)
    let ?n = "?b\<lparr>half_open_inflight := 1, bb_state := STATE_HALF_OPEN\<rparr>"
    have nb: "breaker_ok (failure_threshold s0) ?n" using opened by (simp add: breaker_ok_def)
    show ?thesis
    proof (cases "recovery_timeout s0 \<le> now - t")
      case True
      then have "check now k s0 = (store_at r ?n s1, HalfOpen, Some r)"
        using opened assms(2) e es(2-6) by (simp add: check_def recovery_due_def elapsed_def)
      with assms(3) have "s = store_at r ?n s1" "st = HalfOpen" "g = Some r" by simp_all
      with True opened es(2) st(2) [OF nb] show ?thesis
        by (intro exI [of _ ?n]) (simp add: abs_of_def)
    next
      case False
      then have "check now k s0 = (s1, Open, None)"
        using opened assms(2) e es(2-6) by (simp add: check_def recovery_due_def elapsed_def)
      with False opened assms(3) st(1) show ?thesis
        by (intro exI [of _ ?b]) (simp add: abs_of_def)
    qed
  next
    case (half t)
    let ?n = "\<lambda>n. ?b\<lparr>half_open_inflight := n\<rparr>"
    have nb: "breaker_ok (failure_threshold s0) (?n n)" for n
      using half by (simp add: breaker_ok_def)
    show ?thesis
    proof (cases "half_open_max_requests s0 \<le> half_open_inflight ?b")
      case True
      then have "check now k s0 = (store_at r (?n (half_open_inflight ?b)) s1, Open, None)"
        using half assms(2) e es(2-6) by (simp add: check_def Let_def)
      with assms(3) have "s = store_at r (?n (half_open_inflight ?b)) s1" "st = Open" "g = None" by simp_all
      with True half st(2) [OF nb [of "half_open_inflight ?b"]] show ?thesis
        by (intro exI [of _ "?n (half_open_inflight ?b)"]) (simp add: abs_of_def word_le_nat_alt)
    next
      case False
      define b where "b = ?n (half_open_inflight ?b + 1)"
      have "check now k s0 = (store_at r b s1, HalfOpen, Some r)"
        using False half assms(2) e es(2-6) by (simp add: check_def Let_def b_def)
      with assms(3) have eq: "s = store_at r b s1" "st = HalfOpen" "g = Some r" by simp_all
      have "unat (half_open_inflight ?b + 1) = unat (half_open_inflight ?b) + 1"
        using False by (intro unat_add_one [where y = "half_open_max_requests s0"]) simp
      then have "abs_of b = AHalf (unat (half_open_inflight ?b) + 1)"
        using half by (simp add: abs_of_def b_def)
      moreover have "abs_of ?b = AHalf (unat (half_open_inflight ?b))"
        using half by (simp add: abs_of_def)
      moreover have "step_at k b s0 s" using st(2) [OF nb] by (simp add: eq b_def)
      ultimately show ?thesis using False es(2)
        by (intro exI [of _ b]) (simp add: eq word_le_nat_alt)
    qed
  qed
qed

lemma record_success_step:
  assumes "breakers_ok s"
  shows "\<exists>b. step_at k b s (record_success k s) \<and> abs_of b = abs_success (abs_of (breaker_of k s))"
proof (cases "cb_breakers s k")
  case None
  with assms show ?thesis
    by (intro exI [of _ breaker_new])
       (simp add: record_success_def step_at_def breaker_of_def abs_of_def breaker_new_def)
next
  case (Some r)
  then have b: "breaker_of k s = cb_store s r" by (simp add: breaker_of_def)
  have upd: "step_at k b s (store_at r b s)" if "breaker_ok (failure_threshold s) b" for b
    using that breaker_of_store [OF assms Some] breakers_ok_store [OF assms] by (simp add: step_at_def)
  have same: "step_at k (breaker_of k s) s s" using assms by (simp add: step_at_def)
  have thr: "0 < failure_threshold s" using assms by (simp add: breakers_ok_def)
  let ?b = "breaker_of k s"
  from breaker_of_ok [OF assms, of k] show ?thesis
  proof (cases rule: breaker_cases)
    case closed
    let ?n = "?b\<lparr>consecutive_failures := 0\<rparr>"
    have "breaker_ok (failure_threshold s) ?n" using closed thr by (simp add: breaker_ok_def)
    from upd [OF this] closed Some b show ?thesis
      by (intro exI [of _ ?n]) (simp add: record_success_def abs_of_def)
  next
    case (opened t)
    then show ?thesis using Some b same
      by (intro exI [of _ ?b]) (simp add: record_success_def abs_of_def)
  next
    case (half t)
    let ?n = "?b\<lparr>consecutive_failures := 0, half_open_inflight := 0, bb_state := STATE_CLOSED, opened_at := None\<rparr>"
    have "breaker_ok (failure_threshold s) ?n" using thr by (simp add: breaker_ok_def)
    from upd [OF this] half Some b show ?thesis
      by (intro exI [of _ ?n]) (simp add: record_success_def abs_of_def)
  qed
qed

lemma record_failure_step:
  assumes "breakers_ok s0" and "length k \<le> 256"
  shows "\<exists>b. step_at k b s0 (record_failure now k s0)
     \<and> abs_of b = abs_failure (unat (failure_threshold s0)) now (abs_of (breaker_of k s0))"
proof -
  obtain s1 r where e: "entry_or_insert k s0 = (s1, r)" by (cases "entry_or_insert k s0")
  note es = entry_spec [OF e assms(1,2)] and st = step_at_entry [OF assms(1,2) e]
  let ?b = "breaker_of k s0"
  have ok: "breaker_ok (failure_threshold s0) ?b" by (rule breaker_of_ok [OF assms(1)])
  then show ?thesis
  proof (cases rule: breaker_cases)
    case closed
    define f where "f = consecutive_failures ?b + 1"
    have u: "unat f = unat (consecutive_failures ?b) + 1"
      unfolding f_def by (rule unat_add_one [OF closed(3)])
    define b where "b = (if failure_threshold s0 \<le> f
      then ?b\<lparr>consecutive_failures := f, bb_state := STATE_OPEN, opened_at := Some now\<rparr>
      else ?b\<lparr>consecutive_failures := f\<rparr>)"
    have nb: "breaker_ok (failure_threshold s0) b"
      using closed by (auto simp: b_def breaker_ok_def not_le)
    have "record_failure now k s0 = store_at r b s1"
      using closed assms(2) e es(2-6) by (simp add: record_failure_def b_def f_def Let_def)
    then have "step_at k b s0 (record_failure now k s0)" using st(2) [OF nb] by simp
    moreover have "abs_of ?b = AClosed (unat (consecutive_failures ?b))"
      using closed(1) by (simp add: abs_of_def)
    moreover have "abs_of b = (if unat (failure_threshold s0) \<le> unat f then AOpen now else AClosed (unat f))"
      using closed(1) by (simp add: b_def abs_of_def word_le_nat_alt)
    ultimately show ?thesis using u by (intro exI [of _ b]) simp
  next
    case (opened t)
    then have "record_failure now k s0 = s1"
      using assms(2) e es(3) by (simp add: record_failure_def)
    moreover have "abs_of ?b = AOpen t" using opened by (simp add: abs_of_def)
    ultimately show ?thesis using st(1) by (intro exI [of _ ?b]) simp
  next
    case (half t)
    let ?n = "?b\<lparr>half_open_inflight := 0, bb_state := STATE_OPEN, opened_at := Some now\<rparr>"
    have nb: "breaker_ok (failure_threshold s0) ?n" by (simp add: breaker_ok_def)
    have "record_failure now k s0 = store_at r ?n s1"
      using half assms(2) e es(3) by (simp add: record_failure_def)
    moreover have "abs_of ?b = AHalf (unat (half_open_inflight ?b))" using half by (simp add: abs_of_def)
    moreover have "abs_of ?n = AOpen now" by (simp add: abs_of_def)
    ultimately show ?thesis using st(2) [OF nb] by (intro exI [of _ ?n]) simp
  qed
qed

lemma abs_drop_word: "abs_drop (AHalf (unat (n :: u32))) = AHalf (unat (n - 1))"
proof (cases "unat n")
  case 0
  then have "n = 0" by (simp add: unat_eq_0)
  then have "unat (n - 1) = 2 ^ 32 - 1" using unat_max_word [where 'a = 32] by simp
  with 0 show ?thesis by (simp only: abs_drop.simps)
next
  case (Suc m)
  then have "n \<noteq> 0" by auto
  with unat_sub_one [OF this] Suc show ?thesis by simp
qed

lemma drop_guard_step:
  assumes "breakers_ok s" and "cb_breakers s k = Some r"
  shows "\<exists>b. step_at k b s (drop_guard r s) \<and> abs_of b = abs_drop (abs_of (breaker_of k s))"
proof -
  let ?b = "breaker_of k s"
  have b: "cb_store s r = ?b" using assms(2) by (simp add: breaker_of_def)
  have ok: "breaker_ok (failure_threshold s) ?b" by (rule breaker_of_ok [OF assms(1)])
  then show ?thesis
  proof (cases rule: breaker_cases)
    case (half t)
    let ?n = "?b\<lparr>half_open_inflight := half_open_inflight ?b - 1\<rparr>"
    from half have "breaker_ok (failure_threshold s) ?n" by (simp add: breaker_ok_def)
    then have "step_at k ?n s (store_at r ?n s)"
      using breaker_of_store [OF assms] breakers_ok_store [OF assms(1)] by (simp add: step_at_def)
    with half b show ?thesis
      by (intro exI [of _ ?n]) (simp add: drop_guard_def Let_def abs_of_def abs_drop_word)
  next
    case closed
    with b assms(1) show ?thesis
      by (intro exI [of _ ?b]) (simp add: drop_guard_def step_at_def abs_of_def)
  next
    case (opened t)
    with b assms(1) show ?thesis
      by (intro exI [of _ ?b]) (simp add: drop_guard_def step_at_def abs_of_def)
  qed
qed

subsection \<open>Histories\<close>

text \<open>
  A history interleaves calls on any ids with drops of guards issued earlier. \<open>reaches c s gs\<close>: from the
  configuration \<open>c\<close>, some history leads to \<open>s\<close> with the guards \<open>gs\<close> still held (each is dropped once).
\<close>

inductive reaches :: "circuit_breaker_config \<Rightarrow> circuit_breakers \<Rightarrow> ref list \<Rightarrow> bool"
  for c :: circuit_breaker_config where
  r_new: "reaches c (breakers_new c) []"
| r_check: "reaches c s gs \<Longrightarrow> check now k s = (s', st, g) \<Longrightarrow>
    reaches c s' (case g of None \<Rightarrow> gs | Some r \<Rightarrow> r # gs)"
| r_success: "reaches c s gs \<Longrightarrow> reaches c (record_success k s) gs"
| r_failure: "reaches c s gs \<Longrightarrow> reaches c (record_failure now k s) gs"
| r_drop: "reaches c s gs \<Longrightarrow> r \<in> set gs \<Longrightarrow> reaches c (drop_guard r s) (remove1 r gs)"
| r_remove: "reaches c s gs \<Longrightarrow> reaches c (remove_backend k s) gs"

lemma breakers_ok_new: "0 < cbc_failure_threshold c \<Longrightarrow> breakers_ok (breakers_new c)"
  by (simp add: breakers_ok_def breakers_new_def)

lemma check_too_long: "256 < length k \<Longrightarrow> check now k s = (s, Open, None)"
  by (simp add: check_def array_string_from_def)

lemma record_failure_too_long: "256 < length k \<Longrightarrow> record_failure now k s = s"
  by (simp add: record_failure_def array_string_from_def)

lemma check_ok:
  assumes "breakers_ok s" and "check now k s = (s', st, g)"
  shows "breakers_ok s' \<and> failure_threshold s' = failure_threshold s \<and> recovery_timeout s' = recovery_timeout s
     \<and> half_open_max_requests s' = half_open_max_requests s"
proof (cases "length k \<le> 256")
  case True
  from check_step [OF assms(1) True assms(2)] show ?thesis by (auto simp: step_at_def)
next
  case False
  with check_too_long [of k now s] assms show ?thesis by simp
qed

lemma record_failure_ok:
  assumes "breakers_ok s"
  shows "breakers_ok (record_failure now k s) \<and> failure_threshold (record_failure now k s) = failure_threshold s
     \<and> recovery_timeout (record_failure now k s) = recovery_timeout s
     \<and> half_open_max_requests (record_failure now k s) = half_open_max_requests s"
proof (cases "length k \<le> 256")
  case True
  from record_failure_step [OF assms True, of now] show ?thesis by (auto simp: step_at_def)
next
  case False
  with record_failure_too_long [of k now s] assms show ?thesis by simp
qed


lemma drop_guard_ok: "breakers_ok s \<Longrightarrow> breakers_ok (drop_guard r s)"
proof -
  assume ok: "breakers_ok s"
  then have "breaker_ok (failure_threshold s) (cb_store s r)" by (simp add: breakers_ok_def)
  then have "state_from (bb_state (cb_store s r)) = HalfOpen \<Longrightarrow>
      breaker_ok (failure_threshold s) ((cb_store s r)\<lparr>half_open_inflight := half_open_inflight (cb_store s r) - 1\<rparr>)"
    by (simp add: breaker_ok_def)
  with ok show ?thesis by (simp add: drop_guard_def Let_def breakers_ok_store)
qed




text \<open>The operations on one id as steps of the automaton.\<close>

lemma breaker_refines:
  assumes "breakers_ok s" and "length k \<le> 256"
  shows "abs_check (unat (half_open_max_requests s)) (recovery_timeout s) now (abs_of (breaker_of k s))
           = (abs_of (breaker_of k (fst (check now k s))), fst (snd (check now k s)))"
    and "abs_of (breaker_of k (record_success k s)) = abs_success (abs_of (breaker_of k s))"
    and "abs_of (breaker_of k (record_failure now k s))
           = abs_failure (unat (failure_threshold s)) now (abs_of (breaker_of k s))"
    and "cb_breakers s k = Some r \<Longrightarrow> abs_of (breaker_of k (drop_guard r s)) = abs_drop (abs_of (breaker_of k s))"
    and "k' \<noteq> k \<Longrightarrow> breaker_of k' (fst (check now k s)) = breaker_of k' s
           \<and> breaker_of k' (record_success k s) = breaker_of k' s
           \<and> breaker_of k' (record_failure now k s) = breaker_of k' s"
proof -
  obtain s' st g where c: "check now k s = (s', st, g)" by (cases "check now k s") auto
  from check_step [OF assms c] c
  show "abs_check (unat (half_open_max_requests s)) (recovery_timeout s) now (abs_of (breaker_of k s))
      = (abs_of (breaker_of k (fst (check now k s))), fst (snd (check now k s)))"
    by (auto simp: step_at_def)
  show "abs_of (breaker_of k (record_success k s)) = abs_success (abs_of (breaker_of k s))"
    using record_success_step [OF assms(1), of k] by (auto simp: step_at_def)
  show "abs_of (breaker_of k (record_failure now k s))
      = abs_failure (unat (failure_threshold s)) now (abs_of (breaker_of k s))"
    using record_failure_step [OF assms, of now] by (auto simp: step_at_def)
  show "abs_of (breaker_of k (drop_guard r s)) = abs_drop (abs_of (breaker_of k s))"
    if "cb_breakers s k = Some r"
    using drop_guard_step [OF assms(1) that] by (auto simp: step_at_def)
  show "breaker_of k' (fst (check now k s)) = breaker_of k' s
      \<and> breaker_of k' (record_success k s) = breaker_of k' s
      \<and> breaker_of k' (record_failure now k s) = breaker_of k' s" if "k' \<noteq> k"
    using check_step [OF assms c] c record_success_step [OF assms(1), of k]
      record_failure_step [OF assms, of now] that by (auto simp: step_at_def)
qed



subsection \<open>Opening, recovery and half-open admission\<close>

lemma breaker_state_abs:
  "breaker_state k s = (case abs_of (breaker_of k s) of AClosed _ \<Rightarrow> Closed | AOpen _ \<Rightarrow> Open | AHalf _ \<Rightarrow> HalfOpen)"
  by (auto simp: breaker_state_def breaker_of_def abs_of_def breaker_new_def split: option.split circuit_state.split)

definition record_failures :: "instant list \<Rightarrow> string \<Rightarrow> circuit_breakers \<Rightarrow> circuit_breakers" where
  "record_failures ts k s = fold (\<lambda>t. record_failure t k) ts s"

lemma record_failures_abs:
  assumes "breakers_ok s" and "length k \<le> 256"
  shows "abs_of (breaker_of k (record_failures ts k s))
     = fold (abs_failure (unat (failure_threshold s))) ts (abs_of (breaker_of k s))"
  using assms
proof (induction ts arbitrary: s)
  case (Cons t ts)
  let ?s = "record_failure t k s"
  have "breakers_ok ?s" "failure_threshold ?s = failure_threshold s"
    using record_failure_ok [OF Cons.prems(1)] by simp_all
  with Cons.IH [of ?s] Cons.prems breaker_refines(3) [OF Cons.prems, of t] show ?case
    by (simp add: record_failures_def)
qed (simp add: record_failures_def)

lemma fold_abs_failure_open: "fold (abs_failure thr) ts (AOpen t) = AOpen t"
  by (induction ts) auto

lemma fold_abs_failure_closed:
  "n < thr \<Longrightarrow> (case fold (abs_failure thr) ts (AClosed n) of AClosed m \<Rightarrow> m = n + length ts \<and> m < thr
     | AOpen _ \<Rightarrow> thr \<le> n + length ts | AHalf _ \<Rightarrow> False)"
proof (induction ts arbitrary: n)
  case (Cons t ts)
  show ?case
  proof (cases "thr \<le> n + 1")
    case True
    then show ?thesis by (simp add: fold_abs_failure_open)
  next
    case False
    with Cons.IH [of "n + 1"] show ?thesis by (auto split: abs_breaker.splits)
  qed
qed simp

lemma threshold_iff:
  assumes "breakers_ok s" and "length k \<le> 256" and "breaker_state k s = Closed"
  shows "breaker_state k (record_failures ts k s) = Open \<longleftrightarrow>
     unat (failure_threshold s) \<le> unat (consecutive_failures (breaker_of k s)) + length ts"
proof -
  have "breaker_ok (failure_threshold s) (breaker_of k s)" by (rule breaker_of_ok [OF assms(1)])
  moreover have "state_from (bb_state (breaker_of k s)) = Closed"
    using assms(3) by (auto simp: breaker_state_def breaker_of_def breaker_new_def split: option.splits)
  ultimately have "consecutive_failures (breaker_of k s) < failure_threshold s"
    and a: "abs_of (breaker_of k s) = AClosed (unat (consecutive_failures (breaker_of k s)))"
    by (auto simp: breaker_ok_def abs_of_def)
  then have "unat (consecutive_failures (breaker_of k s)) < unat (failure_threshold s)"
    by (simp add: word_less_nat_alt)
  note f = fold_abs_failure_closed [OF this, of ts]
  have "abs_of (breaker_of k (record_failures ts k s))
      = fold (abs_failure (unat (failure_threshold s))) ts (AClosed (unat (consecutive_failures (breaker_of k s))))"
    (is "_ = ?f") by (simp only: record_failures_abs [OF assms(1,2)] a)
  then have "breaker_state k (record_failures ts k s)
      = (case ?f of AClosed _ \<Rightarrow> Closed | AOpen _ \<Rightarrow> Open | AHalf _ \<Rightarrow> HalfOpen)"
    by (simp only: breaker_state_abs)
  with f show ?thesis by (cases ?f) simp_all
qed

text \<open>
  A breaker opens exactly at the threshold: a closed breaker with \<open>n\<close> recorded failures is open
  after further consecutive failures if and only if \<open>n\<close> plus their number reaches the threshold; one
  failure fewer leaves it closed.
\<close>
theorem opens_at_threshold:
  assumes "breakers_ok s" and "length k \<le> 256" and "breaker_state k s = Closed"
  shows "breaker_state k (record_failures ts k s) = Open \<longleftrightarrow>
     unat (failure_threshold s) \<le> unat (consecutive_failures (breaker_of k s)) + length ts"
  by (rule threshold_iff [OF assms])

lemma breakers_new_simps [simp]:
  "breaker_of k (breakers_new c) = breaker_new" "breaker_state k (breakers_new c) = Closed"
  "failure_threshold (breakers_new c) = cbc_failure_threshold c"
  "half_open_max_requests (breakers_new c) = cbc_half_open_max_requests c"
  "recovery_timeout (breakers_new c) = from_secs (unat (cbc_recovery_timeout_secs c))"
  by (simp_all add: breakers_new_def breaker_of_def breaker_state_def)

lemma abs_of_new [simp]: "abs_of breaker_new = AClosed 0" "consecutive_failures breaker_new = 0"
  by (simp_all add: abs_of_def breaker_new_def)

theorem opens_at_threshold_witness:
  "breaker_state ''b'' (record_failures [1, 2, 3, 4, 5] ''b'' (breakers_new default_circuit_breaker_config)) = Open
   \<and> breaker_state ''b'' (record_failures [1, 2, 3, 4] ''b'' (breakers_new default_circuit_breaker_config)) \<noteq> Open"
proof -
  have "breakers_ok (breakers_new default_circuit_breaker_config)"
    by (rule breakers_ok_new) (simp add: default_circuit_breaker_config_def)
  note * = opens_at_threshold [OF this, of "''b''"]
  have thr: "cbc_failure_threshold default_circuit_breaker_config = 5"
    by (simp add: default_circuit_breaker_config_def)
  from * [of "[1, 2, 3, 4, 5]"] * [of "[1, 2, 3, 4]"] show ?thesis by (simp add: thr)
qed

lemma open_check:
  assumes "breakers_ok s" and "length k \<le> 256" and "abs_of (breaker_of k s) = AOpen t"
    and "check now k s = (s', st, g)"
  shows "if now - t < recovery_timeout s then st = Open \<and> g = None \<and> abs_of (breaker_of k s') = AOpen t
         else st = HalfOpen \<and> g \<noteq> None \<and> abs_of (breaker_of k s') = AHalf 1"
proof -
  from check_step [OF assms(1,2,4)] obtain b where b: "breaker_of k s' = b"
    and a: "abs_check (unat (half_open_max_requests s)) (recovery_timeout s) now (AOpen t) = (abs_of b, st)"
    and g: "g \<noteq> None \<longleftrightarrow> st = HalfOpen"
    unfolding step_at_def assms(3) by blast
  show ?thesis
  proof (cases "now - t < recovery_timeout s")
    case True
    with a have "abs_of b = AOpen t" "st = Open" by simp_all
    with True b g show ?thesis by simp
  next
    case False
    with a have "abs_of b = AHalf 1" "st = HalfOpen" by simp_all
    with False b g show ?thesis by simp
  qed
qed

text \<open>
  An open breaker refuses every request until the recovery timeout has elapsed since it opened,
  without changing, and the first request at or after that instant is admitted as the single half-open
  probe, with a guard.
\<close>
theorem open_until_recovery:
  assumes "breakers_ok s" and "length k \<le> 256" and "abs_of (breaker_of k s) = AOpen t"
    and "check now k s = (s', st, g)"
  shows "if now - t < recovery_timeout s then st = Open \<and> g = None \<and> abs_of (breaker_of k s') = AOpen t
         else st = HalfOpen \<and> g \<noteq> None \<and> abs_of (breaker_of k s') = AHalf 1"
  by (rule open_check [OF assms])

theorem open_until_recovery_witness:
  "fst (snd (check 59 ''b'' (record_failures [0] ''b'' (breakers_new
     \<lparr>cbc_failure_threshold = 1, cbc_recovery_timeout_secs = 1, cbc_half_open_max_requests = 2\<rparr>)))) = Open"
proof -
  let ?c = "\<lparr>cbc_failure_threshold = 1, cbc_recovery_timeout_secs = 1, cbc_half_open_max_requests = 2\<rparr>"
  define s where "s = record_failures [0] ''b'' (breakers_new ?c)"
  have n: "breakers_ok (breakers_new ?c)" by (rule breakers_ok_new) simp
  have s: "breakers_ok s" "recovery_timeout s = from_secs 1"
    using record_failure_ok [OF n, of 0 "''b''"] by (simp_all add: s_def record_failures_def)
  have a: "abs_of (breaker_of ''b'' s) = AOpen 0"
    unfolding s_def by (subst record_failures_abs [OF n]) simp_all
  obtain s' st g where c: "check 59 ''b'' s = (s', st, g)" by (cases "check 59 ''b'' s") auto
  from open_until_recovery [OF s(1) _ a c] have "st = Open" by (simp add: s(2) from_secs_def)
  with c show ?thesis by (simp add: s_def)
qed

text \<open>
  One half-open episode of an id: probes are admitted or refused, and guards issued in the episode are
  dropped. The second component counts the guards still held.
\<close>

datatype probe_event = Probe instant | DropProbe

fun probe_step :: "string \<Rightarrow> ref \<Rightarrow> circuit_breakers \<times> nat \<Rightarrow> probe_event \<Rightarrow> circuit_breakers \<times> nat" where
  "probe_step k r (s, n) (Probe now) =
     (case check now k s of (s', st, g) \<Rightarrow> (s', case g of None \<Rightarrow> n | Some _ \<Rightarrow> n + 1))"
| "probe_step k r (s, n) DropProbe = (if n = 0 then (s, n) else (drop_guard r s, n - 1))"

definition episode :: "string \<Rightarrow> ref \<Rightarrow> probe_event list \<Rightarrow> circuit_breakers \<times> nat \<Rightarrow> circuit_breakers \<times> nat" where
  "episode k r evs x = foldl (probe_step k r) x evs"

definition episode_inv :: "string \<Rightarrow> ref \<Rightarrow> u32 \<Rightarrow> circuit_breakers \<times> nat \<Rightarrow> bool" where
  "episode_inv k r mx x \<longleftrightarrow> breakers_ok (fst x) \<and> cb_breakers (fst x) k = Some r
     \<and> half_open_max_requests (fst x) = mx \<and> abs_of (breaker_of k (fst x)) = AHalf (snd x) \<and> snd x \<le> unat mx"

lemma check_keeps_ref:
  "cb_breakers s k = Some r \<Longrightarrow> cb_breakers (fst (check now k s)) k = Some r"
  by (simp add: check_def entry_or_insert_def Let_def split: circuit_state.split option.split)

lemma check_half_step:
  assumes "breakers_ok s" "length k \<le> 256" "abs_of (breaker_of k s) = AHalf n" "check now k s = (s', st, g)"
  shows "breakers_ok s' \<and> half_open_max_requests s' = half_open_max_requests s
     \<and> (if unat (half_open_max_requests s) \<le> n then st = Open \<and> g = None \<and> abs_of (breaker_of k s') = AHalf n
        else st = HalfOpen \<and> g \<noteq> None \<and> abs_of (breaker_of k s') = AHalf (n + 1))"
proof -
  from check_step [OF assms(1,2,4)] obtain b where b: "breaker_of k s' = b" "breakers_ok s'"
      "half_open_max_requests s' = half_open_max_requests s"
    and a: "abs_check (unat (half_open_max_requests s)) (recovery_timeout s) now (AHalf n) = (abs_of b, st)"
    and g: "g \<noteq> None \<longleftrightarrow> st = HalfOpen"
    unfolding step_at_def assms(3) by blast
  show ?thesis
  proof (cases "unat (half_open_max_requests s) \<le> n")
    case True
    with a have "abs_of b = AHalf n" "st = Open" by simp_all
    with True b g show ?thesis by simp
  next
    case False
    with a have "abs_of b = AHalf (n + 1)" "st = HalfOpen" by simp_all
    with False b g show ?thesis by simp
  qed
qed

lemma drop_half_step:
  assumes "breakers_ok s" "cb_breakers s k = Some r" "abs_of (breaker_of k s) = AHalf (Suc n)"
  shows "breakers_ok (drop_guard r s) \<and> half_open_max_requests (drop_guard r s) = half_open_max_requests s
     \<and> cb_breakers (drop_guard r s) k = Some r \<and> abs_of (breaker_of k (drop_guard r s)) = AHalf n"
proof -
  from drop_guard_step [OF assms(1,2)] obtain b where "breaker_of k (drop_guard r s) = b"
      "breakers_ok (drop_guard r s)" "half_open_max_requests (drop_guard r s) = half_open_max_requests s"
      "abs_of b = abs_drop (AHalf (Suc n))"
    unfolding step_at_def assms(3) by blast
  with assms(2) show ?thesis by (simp add: drop_guard_def Let_def)
qed

lemma probe_step_inv:
  assumes "length k \<le> 256" and "episode_inv k r mx x"
  shows "episode_inv k r mx (probe_step k r x e)"
proof (cases e)
  case (Probe now)
  obtain s n where x: "x = (s, n)" by (cases x)
  obtain s' st g where c: "check now k s = (s', st, g)" by (cases "check now k s") auto
  from assms(2) x have i: "breakers_ok s" "cb_breakers s k = Some r" "half_open_max_requests s = mx"
      "abs_of (breaker_of k s) = AHalf n" "n \<le> unat mx"
    by (simp_all add: episode_inv_def)
  note h = check_half_step [OF i(1) assms(1) i(4) c]
  have r: "cb_breakers s' k = Some r" using check_keeps_ref [OF i(2), of now] c by simp
  show ?thesis
  proof (cases "unat mx \<le> n")
    case True
    with h i(3) have "g = None" "abs_of (breaker_of k s') = AHalf n" by simp_all
    with h i r c show ?thesis by (simp add: x Probe episode_inv_def)
  next
    case False
    with h i(3) have "g \<noteq> None" "abs_of (breaker_of k s') = AHalf (n + 1)" by simp_all
    with False h i r c show ?thesis by (auto simp: x Probe episode_inv_def)
  qed
next
  case DropProbe
  obtain s n where x: "x = (s, n)" by (cases x)
  show ?thesis
  proof (cases n)
    case 0
    with assms(2) show ?thesis by (simp add: x DropProbe)
  next
    case (Suc m)
    with assms(2) x have i: "breakers_ok s" "cb_breakers s k = Some r" "half_open_max_requests s = mx"
        "abs_of (breaker_of k s) = AHalf (Suc m)" "Suc m \<le> unat mx"
      by (simp_all add: episode_inv_def)
    from drop_half_step [OF i(1,2,4)] i show ?thesis by (simp add: x DropProbe Suc episode_inv_def)
  qed
qed

lemma episode_inv_run:
  "length k \<le> 256 \<Longrightarrow> episode_inv k r mx x \<Longrightarrow> episode_inv k r mx (episode k r evs x)"
  unfolding episode_def by (induction evs arbitrary: x) (simp_all add: probe_step_inv)

lemma episode_start:
  assumes "breakers_ok s" and "length k \<le> 256" and "abs_of (breaker_of k s) = AOpen t"
    and "check now k s = (s1, HalfOpen, Some r)" and "0 < half_open_max_requests s"
  shows "episode_inv k r (half_open_max_requests s) (s1, 1)"
proof -
  from check_step [OF assms(1,2,4)] obtain b where b: "breaker_of k s1 = b" "breakers_ok s1"
      "half_open_max_requests s1 = half_open_max_requests s" "cb_breakers s1 k = Some r"
    and a: "abs_check (unat (half_open_max_requests s)) (recovery_timeout s) now (AOpen t) = (abs_of b, HalfOpen)"
    unfolding step_at_def assms(3) by blast
  from a have "abs_of b = AHalf 1" by (simp split: if_splits)
  moreover have "1 \<le> unat (half_open_max_requests s)"
    using assms(5) by (simp add: word_less_nat_alt Suc_le_eq)
  ultimately show ?thesis using b by (simp add: episode_inv_def)
qed

text \<open>
  Claim C10. Half-open admission is bounded: from the probe that starts an episode, whatever sequence of
  further probes and drops of the episode's guards follows, the in-flight counter equals the number of
  guards held, and that number never exceeds \<open>half_open_max_requests\<close>.
\<close>
theorem half_open_bounded:
  assumes "breakers_ok s" and "length k \<le> 256" and "abs_of (breaker_of k s) = AOpen t"
    and "check now k s = (s1, HalfOpen, Some r)" and "0 < half_open_max_requests s"
    and "episode k r evs (s1, 1) = (s', held)"
  shows "abs_of (breaker_of k s') = AHalf held \<and> held \<le> unat (half_open_max_requests s)"
  using episode_inv_run [OF assms(2) episode_start [OF assms(1-5)], of evs]
  unfolding assms(6) episode_inv_def by simp

text \<open>A breaker that opened at instant 0 and has no recovery delay, for concrete runs.\<close>

abbreviation (input) quick_config :: circuit_breaker_config where
  "quick_config \<equiv> \<lparr>cbc_failure_threshold = 1, cbc_recovery_timeout_secs = 0, cbc_half_open_max_requests = 2\<rparr>"

definition quick_open :: circuit_breakers where
  "quick_open = record_failure 0 ''b'' (breakers_new quick_config)"

lemma quick_new_ok: "breakers_ok (breakers_new quick_config)"
  by (rule breakers_ok_new) simp

lemma quick_open_facts:
  "breakers_ok quick_open" "recovery_timeout quick_open = 0" "half_open_max_requests quick_open = 2"
  "abs_of (breaker_of ''b'' quick_open) = AOpen 0" "cb_breakers quick_open ''b'' = Some 0"
proof -
  show "breakers_ok quick_open" "recovery_timeout quick_open = 0" "half_open_max_requests quick_open = 2"
    using record_failure_ok [OF quick_new_ok, of 0 "''b''"] by (simp_all add: quick_open_def from_secs_def)
  show "abs_of (breaker_of ''b'' quick_open) = AOpen 0"
    unfolding quick_open_def by (subst breaker_refines(3) [OF quick_new_ok]) simp_all
  show "cb_breakers quick_open ''b'' = Some 0"
    by (simp add: quick_open_def record_failure_def entry_or_insert_def breakers_new_def breaker_new_def Let_def)
qed

lemma quick_check: "check now ''b'' quick_open = (fst (check now ''b'' quick_open), HalfOpen, Some 0)"
proof -
  obtain s' st g where c: "check now ''b'' quick_open = (s', st, g)"
    by (cases "check now ''b'' quick_open") auto
  from open_check [OF quick_open_facts(1) _ quick_open_facts(4) c]
  have st: "st = HalfOpen" "g \<noteq> None" by (simp_all add: quick_open_facts)
  from check_step [OF quick_open_facts(1) _ c] have "\<forall>r. g = Some r \<longrightarrow> cb_breakers s' ''b'' = Some r" by auto
  moreover have "cb_breakers s' ''b'' = Some 0"
    using check_keeps_ref [OF quick_open_facts(5), of now] c by simp
  ultimately have "g = Some 0" using st(2) by auto
  with c st show ?thesis by simp
qed

theorem half_open_bounded_witness:
  "snd (episode ''b'' 0 [Probe 1, Probe 2, DropProbe, Probe 3] (fst (check 0 ''b'' quick_open), 1)) \<le> 2"
proof -
  let ?evs = "[Probe 1, Probe 2, DropProbe, Probe 3]"
  let ?e = "episode ''b'' 0 ?evs (fst (check 0 ''b'' quick_open), 1)"
  from half_open_bounded [OF quick_open_facts(1) _ quick_open_facts(4) quick_check [of 0],
      where evs = ?evs and s' = "fst ?e" and held = "snd ?e"]
  show ?thesis by (simp add: quick_open_facts)
qed

subsection \<open>A guard that outlives its episode\<close>

text \<open>
  \<open>HalfOpenGuard::drop\<close> decrements whenever the breaker is half open, also in a later episode than the
  one that issued the guard. The counter then misses a probe, and the next drop wraps it to the largest
  \<open>u32\<close>.
\<close>

fun check_outcomes :: "instant list \<Rightarrow> string \<Rightarrow> circuit_breakers \<Rightarrow> circuit_state list" where
  "check_outcomes [] k s = []"
| "check_outcomes (t # ts) k s = (case check t k s of (s', st, g) \<Rightarrow> st # check_outcomes ts k s')"

lemma check_outcomes_full:
  assumes "breakers_ok s" "length k \<le> 256" "abs_of (breaker_of k s) = AHalf n" "unat (half_open_max_requests s) \<le> n"
  shows "set (check_outcomes ts k s) \<subseteq> {Open}"
  using assms
proof (induction ts arbitrary: s)
  case (Cons t ts)
  obtain s' st g where c: "check t k s = (s', st, g)" by (cases "check t k s") auto
  from check_half_step [OF Cons.prems(1-3) c] Cons.prems(4)
  have h: "breakers_ok s'" "half_open_max_requests s' = half_open_max_requests s" "st = Open"
      "abs_of (breaker_of k s') = AHalf n" by simp_all
  from Cons.IH [OF h(1) Cons.prems(2) h(4)] h c Cons.prems(4) show ?case by simp
qed simp

lemma record_failure_keeps_ref:
  "cb_breakers s k = Some r \<Longrightarrow> cb_breakers (record_failure now k s) k = Some r"
  by (simp add: record_failure_def entry_or_insert_def Let_def split: circuit_state.split option.split)

lemma reaches_failures: "reaches c s gs \<Longrightarrow> reaches c (record_failures ts k s) gs"
  by (induction ts arbitrary: s) (auto simp: record_failures_def intro: reaches.r_failure)

lemma check_due:
  assumes "breakers_ok s" "length k \<le> 256" "abs_of (breaker_of k s) = AOpen t"
  obtains s' r where "check (t + recovery_timeout s) k s = (s', HalfOpen, Some r)" "breakers_ok s'"
    "abs_of (breaker_of k s') = AHalf 1" "cb_breakers s' k = Some r"
    "half_open_max_requests s' = half_open_max_requests s" "recovery_timeout s' = recovery_timeout s"
proof -
  obtain s' st g where c: "check (t + recovery_timeout s) k s = (s', st, g)"
    by (cases "check (t + recovery_timeout s) k s") auto
  from open_check [OF assms c] have "st = HalfOpen" "g \<noteq> None" "abs_of (breaker_of k s') = AHalf 1"
    by simp_all
  moreover from check_step [OF assms(1,2) c] have "\<forall>r. g = Some r \<longrightarrow> cb_breakers s' k = Some r" by blast
  moreover have "breakers_ok s' \<and> recovery_timeout s' = recovery_timeout s
      \<and> half_open_max_requests s' = half_open_max_requests s"
    using check_ok [OF assms(1) c] by simp
  ultimately show ?thesis using that c by auto
qed

lemma opens_somewhen:
  assumes "0 < cbc_failure_threshold c" "length k \<le> 256"
  shows "\<exists>s t. reaches c s [] \<and> breakers_ok s \<and> abs_of (breaker_of k s) = AOpen t
     \<and> half_open_max_requests s = cbc_half_open_max_requests c"
proof -
  let ?n = "breakers_new c" and ?thr = "unat (cbc_failure_threshold c)"
  let ?s = "record_failures (replicate ?thr 0) k ?n"
  have n: "breakers_ok ?n" by (rule breakers_ok_new [OF assms(1)])
  have r: "reaches c ?s []" by (rule reaches_failures [OF reaches.r_new])
  have ok: "breakers_ok ?s \<and> half_open_max_requests ?s = cbc_half_open_max_requests c"
    unfolding record_failures_def
  proof (rule fold_invariant [where Q = "\<lambda>_. True"])
    show "breakers_ok ?n \<and> half_open_max_requests ?n = cbc_half_open_max_requests c" using n by simp
  qed (use record_failure_ok in auto)
  have "breaker_state k ?s = Open"
    using threshold_iff [OF n assms(2), of "replicate ?thr 0"] by simp
  then obtain t where "abs_of (breaker_of k ?s) = AOpen t"
    by (auto simp: breaker_state_abs split: abs_breaker.splits)
  with r ok show ?thesis by blast
qed

text \<open>
  Claim C12. A stale guard can lock a backend out: for every configuration there is a history after which
  no guard is held and the breaker is half open, yet every later check of the id is refused, at whatever
  instants it is made; no probe is ever admitted again unless some caller still records an outcome.
\<close>
theorem stale_guard_lockout:
  assumes "0 < cbc_failure_threshold c" and "0 < cbc_half_open_max_requests c" and "length k \<le> 256"
  shows "\<exists>s. reaches c s [] \<and> breaker_state k s = HalfOpen \<and> (\<forall>ts. set (check_outcomes ts k s) \<subseteq> {Open})"
proof -
  from opens_somewhen [OF assms(1,3)] obtain s0 t where s0: "reaches c s0 []" "breakers_ok s0"
      "abs_of (breaker_of k s0) = AOpen t" "half_open_max_requests s0 = cbc_half_open_max_requests c"
    by blast
  from check_due [OF s0(2) assms(3) s0(3)] obtain s1 r where
    s1: "check (t + recovery_timeout s0) k s0 = (s1, HalfOpen, Some r)" "breakers_ok s1"
      "abs_of (breaker_of k s1) = AHalf 1" "cb_breakers s1 k = Some r"
      "half_open_max_requests s1 = half_open_max_requests s0"
    by blast
  have r1: "reaches c s1 [r]" using reaches.r_check [OF s0(1) s1(1)] by simp
  let ?s2 = "record_failure 0 k s1"
  have s2: "breakers_ok ?s2" "half_open_max_requests ?s2 = half_open_max_requests s0"
    using record_failure_ok [OF s1(2), of 0 k] s1(5) by simp_all
  have a2: "abs_of (breaker_of k ?s2) = AOpen 0"
    by (simp only: breaker_refines(3) [OF s1(2) assms(3)] s1(3) abs_failure.simps)
  from check_due [OF s2(1) assms(3) a2] obtain s3 r' where
    s3: "check (0 + recovery_timeout ?s2) k ?s2 = (s3, HalfOpen, Some r')" "breakers_ok s3"
      "abs_of (breaker_of k s3) = AHalf 1" "cb_breakers s3 k = Some r'"
      "half_open_max_requests s3 = half_open_max_requests ?s2"
    by blast
  have "cb_breakers s3 k = Some r"
    using check_keeps_ref [OF record_failure_keeps_ref [OF s1(4)], of "0 + recovery_timeout ?s2" 0]
    by (simp only: s3(1) fst_conv)
  with s3(4) have r': "r' = r" by simp
  have r3: "reaches c s3 [r, r]" using reaches.r_check [OF reaches.r_failure [OF r1] s3(1)] by (simp add: r')
  have "abs_of (breaker_of k s3) = AHalf (Suc 0)" using s3(3) by simp
  from drop_half_step [OF s3(2) s3(4) this] have s4: "breakers_ok (drop_guard r s3)"
      "half_open_max_requests (drop_guard r s3) = half_open_max_requests s3"
      "cb_breakers (drop_guard r s3) k = Some r" "abs_of (breaker_of k (drop_guard r s3)) = AHalf 0"
    by (simp_all add: r')
  let ?s5 = "drop_guard r (drop_guard r s3)"
  have r5: "reaches c ?s5 []" using reaches.r_drop [OF reaches.r_drop [OF r3]] by simp
  have a5: "abs_of (breaker_of k ?s5) = AHalf (2 ^ 32 - 1)"
    by (simp only: breaker_refines(4) [OF s4(1) assms(3) s4(3)] s4(4) abs_drop.simps)
  have ok5: "breakers_ok ?s5" by (rule drop_guard_ok [OF s4(1)])
  have "unat (half_open_max_requests ?s5) \<le> 2 ^ 32 - 1"
    using unsigned_less [where 'a = nat, of "half_open_max_requests ?s5"] by simp
  from check_outcomes_full [OF ok5 assms(3) a5 this] have "\<forall>ts. set (check_outcomes ts k ?s5) \<subseteq> {Open}" by blast
  moreover have "breaker_state k ?s5 = HalfOpen" by (simp only: breaker_state_abs a5 abs_breaker.case)
  ultimately show ?thesis using r5 by blast
qed

theorem stale_guard_lockout_witness:
  "\<exists>s. reaches default_circuit_breaker_config s [] \<and> breaker_state ''b'' s = HalfOpen
     \<and> (\<forall>ts. set (check_outcomes ts ''b'' s) \<subseteq> {Open})"
  by (rule stale_guard_lockout) (simp_all add: default_circuit_breaker_config_def)

subsection \<open>Concurrent half-open admission\<close>

text \<open>
  Several threads run the half-open branch of \<open>check\<close> and later drop their guard. Each atomic access is
  one step: \<open>fetch_add\<close>, the \<open>fetch_sub\<close> of a refused thread, and the guard's \<open>fetch_sub\<close>. Threads are
  interleaved arbitrarily.
\<close>

datatype probe_pc = Idle | Fetched u32 | Admitted | Refused | Finished

inductive probe_atomic :: "u32 \<Rightarrow> u32 \<times> probe_pc list \<Rightarrow> u32 \<times> probe_pc list \<Rightarrow> bool" for mx :: u32 where
  fetch: "i < length ps \<Longrightarrow> ps ! i = Idle \<Longrightarrow> probe_atomic mx (c, ps) (c + 1, ps[i := Fetched c])"
| admit: "i < length ps \<Longrightarrow> ps ! i = Fetched v \<Longrightarrow> \<not> v \<ge> mx \<Longrightarrow> probe_atomic mx (c, ps) (c, ps[i := Admitted])"
| refuse: "i < length ps \<Longrightarrow> ps ! i = Fetched v \<Longrightarrow> v \<ge> mx \<Longrightarrow> probe_atomic mx (c, ps) (c - 1, ps[i := Refused])"
| release: "i < length ps \<Longrightarrow> ps ! i = Admitted \<Longrightarrow> probe_atomic mx (c, ps) (c - 1, ps[i := Finished])"

fun counted :: "probe_pc \<Rightarrow> nat" where
  "counted (Fetched _) = 1"
| "counted Admitted = 1"
| "counted _ = 0"

fun winning :: "u32 \<Rightarrow> probe_pc \<Rightarrow> nat" where
  "winning mx (Fetched v) = (if v < mx then 1 else 0)"
| "winning mx Admitted = 1"
| "winning mx _ = 0"

definition tally :: "(probe_pc \<Rightarrow> nat) \<Rightarrow> probe_pc list \<Rightarrow> nat" where
  "tally f ps = sum_list (map f ps)"

definition probes_inv :: "u32 \<Rightarrow> u32 \<times> probe_pc list \<Rightarrow> bool" where
  "probes_inv mx x \<longleftrightarrow> length (snd x) < 2 ^ 32 \<and> unat (fst x) = tally counted (snd x)
     \<and> tally (winning mx) (snd x) \<le> unat mx"

lemma tally_update: "i < length ps \<Longrightarrow> tally f (ps[i := p]) + f (ps ! i) = tally f ps + f p"
proof (induction ps arbitrary: i)
  case (Cons q ps)
  then show ?case by (cases i) (auto simp: tally_def)
qed simp

lemma tally_le: "(\<And>p. f p \<le> g p) \<Longrightarrow> tally f ps \<le> tally g ps"
  by (induction ps) (auto simp: tally_def add_mono)

lemma tally_ge: "i < length ps \<Longrightarrow> f (ps ! i) \<le> tally f ps"
proof (induction ps arbitrary: i)
  case (Cons q ps)
  then show ?case by (cases i) (force simp: tally_def trans_le_add2)+
qed simp

lemma tally_counted_length: "tally counted ps \<le> length ps"
proof (induction ps)
  case (Cons p ps)
  then show ?case by (cases p) (auto simp: tally_def)
qed (simp add: tally_def)

lemma winning_le_counted: "winning mx p \<le> counted p"
  by (cases p) auto

lemma probes_inv_step:
  assumes "probe_atomic mx x y" and "probes_inv mx x"
  shows "probes_inv mx y"
  using assms
proof (induction rule: probe_atomic.induct)
  case (fetch i ps c)
  then have inv: "length ps < 2 ^ 32" "unat c = tally counted ps" "tally (winning mx) ps \<le> unat mx"
    by (simp_all add: probes_inv_def)
  have up: "tally counted (ps[i := Fetched c]) = tally counted ps + 1"
    using tally_update [OF fetch(1), of counted "Fetched c"] fetch(2) by simp
  have "tally counted (ps[i := Fetched c]) \<le> length ps"
    using tally_counted_length [of "ps[i := Fetched c]"] by simp
  with up inv have "unat c + 1 < 2 ^ 32" by linarith
  then have c1: "unat (c + 1) = unat c + 1" by (simp add: unat_word_ariths)
  have w: "tally (winning mx) (ps[i := Fetched c]) = tally (winning mx) ps + winning mx (Fetched c)"
    using tally_update [OF fetch(1), of "winning mx" "Fetched c"] fetch(2) by simp
  have "tally (winning mx) ps \<le> unat c"
    using tally_le [of "winning mx" counted ps] winning_le_counted inv(2) by simp
  then have "tally (winning mx) (ps[i := Fetched c]) \<le> unat mx"
    using w inv(3) by (cases "c < mx") (simp_all add: word_less_nat_alt)
  with inv up c1 show ?case by (simp add: probes_inv_def)
next
  case (admit i ps v c)
  have "tally counted (ps[i := Admitted]) = tally counted ps"
    using tally_update [OF admit(1), of counted Admitted] admit(2) by simp
  moreover have "tally (winning mx) (ps[i := Admitted]) = tally (winning mx) ps"
    using tally_update [OF admit(1), of "winning mx" Admitted] admit(2,3) by (simp add: not_le)
  ultimately show ?case using admit(4) by (simp add: probes_inv_def)
next
  case (refuse i ps v c)
  have "tally counted (ps[i := Refused]) + 1 = tally counted ps"
    using tally_update [OF refuse(1), of counted Refused] refuse(2) by simp
  moreover have "tally (winning mx) (ps[i := Refused]) = tally (winning mx) ps"
    using tally_update [OF refuse(1), of "winning mx" Refused] refuse(2) leD [OF refuse(3)] by simp
  moreover have "c \<noteq> 0" using calculation(1) refuse(4) by (auto simp: probes_inv_def)
  ultimately show ?case using refuse(4) unat_sub_one [of c] by (simp add: probes_inv_def)
next
  case (release i ps c)
  have "tally counted (ps[i := Finished]) + 1 = tally counted ps"
    using tally_update [OF release(1), of counted Finished] release(2) by simp
  moreover have "tally (winning mx) (ps[i := Finished]) + 1 = tally (winning mx) ps"
    using tally_update [OF release(1), of "winning mx" Finished] release(2) by simp
  moreover have "c \<noteq> 0" using calculation(1) release(3) by (auto simp: probes_inv_def)
  ultimately show ?case using release(3) unat_sub_one [of c] by (simp add: probes_inv_def)
qed

definition admitted :: "probe_pc list \<Rightarrow> nat" where
  "admitted ps = length (filter (\<lambda>p. p = Admitted) ps)"

lemma admitted_le_winning: "admitted ps \<le> tally (winning mx) ps"
proof (induction ps)
  case (Cons p ps)
  then show ?case by (cases p) (auto simp: admitted_def tally_def)
qed (simp add: admitted_def)

lemma tally_idle: "tally f (replicate n Idle) = n * f Idle"
  by (induction n) (auto simp: tally_def)

text \<open>
  Claim C11. Concurrent admission is bounded: for fewer than \<open>2^32\<close> threads that run the half-open branch
  from an empty counter, in every interleaving of their atomic accesses at most
  \<open>half_open_max_requests\<close> hold a guard at once, and the counter is exactly the number of threads
  between their \<open>fetch_add\<close> and their \<open>fetch_sub\<close>.
\<close>
theorem concurrent_probes_bounded:
  assumes "(probe_atomic mx)\<^sup>*\<^sup>* (0, replicate n Idle) (c, ps)" and "n < 2 ^ 32"
  shows "admitted ps \<le> unat mx \<and> unat c = tally counted ps"
proof -
  have "probes_inv mx (c, ps)"
    using assms(1)
  proof (induction rule: rtranclp_induct)
    case base
    then show ?case using assms(2) by (simp add: probes_inv_def tally_idle)
  next
    case (step y z)
    then show ?case by (blast intro: probes_inv_step)
  qed
  then show ?thesis using admitted_le_winning [of ps mx] by (simp add: probes_inv_def)
qed

theorem concurrent_probes_bounded_witness: "admitted [Fetched 0, Idle] \<le> unat (1 :: u32)"
proof -
  have "probe_atomic 1 (0, replicate 2 Idle) (0 + 1, (replicate 2 Idle)[0 := Fetched 0])"
    by (rule probe_atomic.fetch) (simp_all add: numeral_2_eq_2)
  then have "(probe_atomic 1)\<^sup>*\<^sup>* (0, replicate 2 Idle) (1, [Fetched 0, Idle])"
    by (simp add: numeral_2_eq_2)
  from concurrent_probes_bounded [OF this] show ?thesis by simp
qed

end
