(* ===== verification/Ingress_Udp.thy ===== *)
theory Ingress_Udp
  imports Ingress_Batch Balancer Access Circuit Interfaces "HOL-Library.AList"
begin

section \<open>UDP ingress (\<open>ingress/udp.rs\<close>, \<open>ingress/udp/metrics.rs\<close>, \<open>ingress/udp/writer.rs\<close>)\<close>

text \<open>
  One worker of a UDP ingress: the receive loop (admission, selection, batching, hand-off), the bounded
  channels to the backend writers and the writers with their circuit breaker and reconnect window. Hash
  maps are association lists (their order stands for the unspecified iteration order). The counters are
  64-bit words that wrap. Clock readings, the dial result and the random jitter are arguments. The
  theorems: every datagram received is relayed, counted under one drop reason or still buffered or queued;
  the queue gauge equals the queue; admission consults the access list first.
\<close>

subsection \<open>Counters\<close>

datatype drop_reason = DAcl | DRateLimit | DOversize | DNoBackend | DBackpressure | DCircuitOpen | DProtocol

record ingress_counters =
  ic_received :: u64
  ic_relayed :: u64
  ic_dropped_acl :: u64
  ic_dropped_rate_limit :: u64
  ic_dropped_oversize :: u64
  ic_dropped_no_backend :: u64
  ic_dropped_backpressure :: u64
  ic_dropped_circuit_open :: u64
  ic_dropped_protocol :: u64
  ic_batches_sent :: u64
  ic_queue_depth :: "string \<Rightarrow> int"
  ic_stream_reconnects :: "string \<Rightarrow> u64"



definition record_relayed :: "u64 \<Rightarrow> ingress_counters \<Rightarrow> ingress_counters" where
  "record_relayed n c = c\<lparr>ic_relayed := ic_relayed c + n\<rparr>"

fun record_drop :: "drop_reason \<Rightarrow> u64 \<Rightarrow> ingress_counters \<Rightarrow> ingress_counters" where
  "record_drop DAcl n c = c\<lparr>ic_dropped_acl := ic_dropped_acl c + n\<rparr>"
| "record_drop DRateLimit n c = c\<lparr>ic_dropped_rate_limit := ic_dropped_rate_limit c + n\<rparr>"
| "record_drop DOversize n c = c\<lparr>ic_dropped_oversize := ic_dropped_oversize c + n\<rparr>"
| "record_drop DNoBackend n c = c\<lparr>ic_dropped_no_backend := ic_dropped_no_backend c + n\<rparr>"
| "record_drop DBackpressure n c = c\<lparr>ic_dropped_backpressure := ic_dropped_backpressure c + n\<rparr>"
| "record_drop DCircuitOpen n c = c\<lparr>ic_dropped_circuit_open := ic_dropped_circuit_open c + n\<rparr>"
| "record_drop DProtocol n c = c\<lparr>ic_dropped_protocol := ic_dropped_protocol c + n\<rparr>"

definition record_batch_sent :: "u64 \<Rightarrow> ingress_counters \<Rightarrow> ingress_counters" where
  "record_batch_sent n c = c\<lparr>ic_batches_sent := ic_batches_sent c + 1\<rparr>"

definition record_stream_reconnect :: "string \<Rightarrow> ingress_counters \<Rightarrow> ingress_counters" where
  "record_stream_reconnect k c = c\<lparr>ic_stream_reconnects := (ic_stream_reconnects c)(k := ic_stream_reconnects c k + 1)\<rparr>"

definition queue_depth_add :: "string \<Rightarrow> int \<Rightarrow> ingress_counters \<Rightarrow> ingress_counters" where
  "queue_depth_add k delta c = c\<lparr>ic_queue_depth := (ic_queue_depth c)(k := ic_queue_depth c k + delta)\<rparr>"

fun dropped :: "drop_reason \<Rightarrow> ingress_counters \<Rightarrow> u64" where
  "dropped DAcl c = ic_dropped_acl c"
| "dropped DRateLimit c = ic_dropped_rate_limit c"
| "dropped DOversize c = ic_dropped_oversize c"
| "dropped DNoBackend c = ic_dropped_no_backend c"
| "dropped DBackpressure c = ic_dropped_backpressure c"
| "dropped DCircuitOpen c = ic_dropped_circuit_open c"
| "dropped DProtocol c = ic_dropped_protocol c"

definition total_dropped :: "ingress_counters \<Rightarrow> u64" where
  "total_dropped c = dropped DAcl c + dropped DRateLimit c + dropped DOversize c + dropped DNoBackend c
     + dropped DBackpressure c + dropped DCircuitOpen c + dropped DProtocol c"


subsection \<open>Channels\<close>




subsection \<open>The receive loop\<close>


definition udp_admit :: "(ip_net \<Rightarrow> ip_addr \<Rightarrow> bool) \<Rightarrow> (ip_addr \<Rightarrow> 'r \<Rightarrow> 'r \<times> bool) \<Rightarrow> access_control
    \<Rightarrow> ip_addr \<Rightarrow> nat \<Rightarrow> u32 \<Rightarrow> 'r \<Rightarrow> 'r \<times> (drop_reason + unit)" where
  "udp_admit contains check_key acl ip payload_len max_datagram_bytes l =
     (case acl_check contains acl ip of
        Inl _ \<Rightarrow> (l, Inl DAcl)
      | Inr _ \<Rightarrow>
          (case rate_limit_check check_key ip l of
             (l', Inl _) \<Rightarrow> (l', Inl DRateLimit)
           | (l', Inr _) \<Rightarrow>
               if unat max_datagram_bytes < payload_len then (l', Inl DOversize) else (l', Inr ())))"







definition resolve_worker_count :: "nat option \<Rightarrow> u32 \<Rightarrow> nat" where
  "resolve_worker_count available_parallelism configured =
     max (if configured = 0 then (case available_parallelism of Some p \<Rightarrow> p | None \<Rightarrow> 1) else unat configured) 1"


subsection \<open>The backend writers\<close>

record writer_state =
  ws_stream :: "writer option"
  ws_attempt :: u32
  ws_cooldown_until :: "instant option"
  ws_established_once :: bool

definition writer_state_new :: writer_state where
  "writer_state_new = \<lparr>ws_stream = None, ws_attempt = 0, ws_cooldown_until = None, ws_established_once = False\<rparr>"









subsection \<open>The running worker\<close>






subsection \<open>Admission consults the access list first\<close>

definition udp_gate :: "(ip_net \<Rightarrow> ip_addr \<Rightarrow> bool) \<Rightarrow> (ip_addr \<Rightarrow> 'r \<Rightarrow> 'r \<times> bool) \<Rightarrow> access_control \<Rightarrow> u32
    \<Rightarrow> ip_addr \<times> nat \<Rightarrow> 'r \<Rightarrow> 'r \<times> bool" where
  "udp_gate contains check_key acl mx q l =
     (case udp_admit contains check_key acl (fst q) (snd q) mx l of (l', r) \<Rightarrow> (l', r = Inr ()))"

interpretation udp_gate: acl_first_gate "\<lambda>q. acl_check contains acl (fst q) = Inr ()" "udp_gate contains check_key acl mx"
  for contains check_key acl mx
  by unfold_locales (auto simp: udp_gate_def udp_admit_def split: sum.splits)

subsection \<open>The accounting closes\<close>







lemma record_drop_gauge [simp]: "ic_queue_depth (record_drop r n c) = ic_queue_depth c"
  by (cases r) simp_all

declare record_drop.simps [simp del]


lemma queue_depth_add_ledger [simp]:
  "ic_received (queue_depth_add k d c) = ic_received c" "ic_relayed (queue_depth_add k d c) = ic_relayed c"
  "total_dropped (queue_depth_add k d c) = total_dropped c"
  by (simp_all add: queue_depth_add_def total_dropped_def)








text \<open>A writer accounts for every datagram of the batch it takes, and touches no gauge.\<close>

definition accounts :: "nat \<Rightarrow> ingress_counters \<Rightarrow> ingress_counters \<Rightarrow> bool" where
  "accounts n c c' \<longleftrightarrow> ic_received c' = ic_received c \<and> ic_queue_depth c' = ic_queue_depth c
     \<and> ic_relayed c' + total_dropped c' = ic_relayed c + total_dropped c + of_nat n"

lemma accounts_drop [simp]: "accounts n c (record_drop r (of_nat n) c)"
  by (cases r) (simp_all add: accounts_def total_dropped_def record_drop.simps)

lemma accounts_relay [simp]: "accounts n c (record_batch_sent m (record_relayed (of_nat n) c))"
  by (simp add: accounts_def record_relayed_def record_batch_sent_def total_dropped_def)

lemma accounts_reconnect [simp]: "accounts n (record_stream_reconnect k c) c' = accounts n c c'"
  by (simp add: accounts_def record_stream_reconnect_def total_dropped_def)












text \<open>
  Denied peers cost nothing: admission of datagrams consults the access list before the rate limiter,
  so a stream of datagrams leaves the limiter in the state, and gives the allowed peers the answers, that
  the stream without the denied peers' datagrams gives.
\<close>
theorem udp_denied_invisible:
  "gate_run (udp_gate contains check_key acl mx) (filter (\<lambda>q. acl_check contains acl (fst q) = Inr ()) qs) l =
   (fst (gate_run (udp_gate contains check_key acl mx) qs l),
    filter (\<lambda>r. acl_check contains acl (fst (fst r)) = Inr ()) (snd (gate_run (udp_gate contains check_key acl mx) qs l)))"
  by (rule udp_gate.denied_traffic_invisible)

end
