(* ===== verification/Timed.thy ===== *)
theory Timed
  imports Net Errors
begin

section \<open>Calls bounded by a timeout\<close>

text \<open>
  \<open>timeout(d, f).await\<close> followed by two \<open>map_err\<close>: the outcome of the call is an argument, and the three ways it
  ends are a constant error, a prefixed error and a value.
\<close>

datatype 'a timed = TimedOut | Completed 'a

definition timed_res :: "(string \<Rightarrow> reduction_error) \<Rightarrow> string \<Rightarrow> string \<Rightarrow> (string + 'a) timed \<Rightarrow> 'a result" where
  "timed_res mk late prefix t =
     (case t of
        TimedOut \<Rightarrow> Inl (mk late)
      | Completed (Inl e) \<Rightarrow> Inl (mk (prefix @ e))
      | Completed (Inr x) \<Rightarrow> Inr x)"

lemma timed_res_simps [simp]:
  "timed_res mk late prefix TimedOut = Inl (mk late)"
  "timed_res mk late prefix (Completed (Inl e)) = Inl (mk (prefix @ e))"
  "timed_res mk late prefix (Completed (Inr x)) = Inr x"
  by (simp_all add: timed_res_def)

lemma timed_res_ok: "timed_res mk late prefix t = Inr x \<longleftrightarrow> t = Completed (Inr x)"
  by (auto simp: timed_res_def split: timed.splits sum.splits)

definition show_socket_addr :: "socket_addr \<Rightarrow> string" where
  "show_socket_addr a =
     (case sa_ip a of
        V4 ip \<Rightarrow> show_ipv4 ip @ '':'' @ show_nat (unat (sa_port a))
      | V6 ip \<Rightarrow> ''['' @ show_ipv6 ip @ '']:'' @ show_nat (unat (sa_port a)))"

end
