(* ===== verification/Relay.thy ===== *)
theory Relay
  imports Timed Framing
begin

section \<open>The byte relay (\<open>proxy/relay.rs\<close>)\<close>

text \<open>
  Two streams copied into each other until one of three things happens first: the copy ends, nothing moved for a whole idle
  timeout, or the relay is cancelled. The copy loop is the runtime's; what it does to the wrapped streams is a list of
  events: each poll of a wrapped stream with its outcome, each wake-up of the watchdog's timer, and the end of
  the copy. \<open>relay_timed\<close> is what the clock and the timer guarantee of such a list: instants do not decrease, and a timer
  never wakes early. The theorems: an active relay is never cut off, a silent one is, and the byte counts
  are those that were read.
\<close>

datatype relay_end = RelayCompleted | RelayIdleTimeout | RelayCancelled

record relay_stats =
  rl_bytes_a_to_b :: u64
  rl_bytes_b_to_a :: u64
  rl_duration :: duration
  rl_end :: relay_end

record activity_tracker =
  at_start :: instant
  at_last_activity_ms :: u64
  at_a_to_b :: u64
  at_b_to_a :: u64

definition tracker_new :: "instant \<Rightarrow> activity_tracker" where
  "tracker_new start = \<lparr>at_start = start, at_last_activity_ms = 0, at_a_to_b = 0, at_b_to_a = 0\<rparr>"

definition NANOS_PER_MILLI :: nat where "NANOS_PER_MILLI = 1000000"

definition touch :: "instant \<Rightarrow> activity_tracker \<Rightarrow> activity_tracker" where
  "touch now t =
     (let elapsed_ms = (now - at_start t) div NANOS_PER_MILLI
      in t\<lparr>at_last_activity_ms := (if elapsed_ms < 2 ^ 64 then of_nat elapsed_ms else - 1)\<rparr>)"

datatype relay_side = SideA | SideB

text \<open>The outcome of a poll: pending, or ready with an error or the number of bytes.\<close>

type_synonym io_poll = "(string + nat) option"

definition tracked_read :: "relay_side \<Rightarrow> instant \<Rightarrow> io_poll \<Rightarrow> activity_tracker \<Rightarrow> activity_tracker" where
  "tracked_read side now poll t =
     (case poll of
        Some (Inr n) \<Rightarrow>
          if 0 < n
          then touch now (case side of SideA \<Rightarrow> t\<lparr>at_a_to_b := at_a_to_b t + of_nat n\<rparr> | SideB \<Rightarrow> t\<lparr>at_b_to_a := at_b_to_a t + of_nat n\<rparr>)
          else t
      | _ \<Rightarrow> t)"

definition tracked_write :: "instant \<Rightarrow> io_poll \<Rightarrow> activity_tracker \<Rightarrow> activity_tracker" where
  "tracked_write now poll t = (case poll of Some (Inr n) \<Rightarrow> if 0 < n then touch now t else t | _ \<Rightarrow> t)"

record relay_state =
  rl_tracker :: activity_tracker
  rl_armed :: u64

definition idle_deadline :: "duration \<Rightarrow> relay_state \<Rightarrow> instant" where
  "idle_deadline idle s = at_start (rl_tracker s) + unat (rl_armed s) * NANOS_PER_MILLI + idle"

text \<open>One wake-up of \<open>idle_watchdog\<close>: it returns, or loops with a new deadline.\<close>

definition watchdog_wakes :: "relay_state \<Rightarrow> relay_state option" where
  "watchdog_wakes s =
     (if at_last_activity_ms (rl_tracker s) = rl_armed s then None else Some (s\<lparr>rl_armed := at_last_activity_ms (rl_tracker s)\<rparr>))"

datatype relay_event =
    PollRead relay_side instant io_poll
  | PollWrite relay_side instant io_poll
  | WatchdogWakes instant
  | CopyEnds "string + unit" instant
  | ShutdownCancelled instant

definition relay_stats_of :: "instant \<Rightarrow> relay_end \<Rightarrow> activity_tracker \<Rightarrow> relay_stats" where
  "relay_stats_of now end t = \<lparr>rl_bytes_a_to_b = at_a_to_b t, rl_bytes_b_to_a = at_b_to_a t, rl_duration = now - at_start t, rl_end = end\<rparr>"

definition relay_event_step :: "relay_event \<Rightarrow> relay_state \<Rightarrow> relay_state + relay_stats result" where
  "relay_event_step ev s =
     (case ev of
        PollRead side now poll \<Rightarrow> Inl (s\<lparr>rl_tracker := tracked_read side now poll (rl_tracker s)\<rparr>)
      | PollWrite side now poll \<Rightarrow> Inl (s\<lparr>rl_tracker := tracked_write now poll (rl_tracker s)\<rparr>)
      | WatchdogWakes now \<Rightarrow>
          (case watchdog_wakes s of Some s' \<Rightarrow> Inl s' | None \<Rightarrow> Inr (Inr (relay_stats_of now RelayIdleTimeout (rl_tracker s))))
      | CopyEnds (Inr _) now \<Rightarrow> Inr (Inr (relay_stats_of now RelayCompleted (rl_tracker s)))
      | CopyEnds (Inl e) now \<Rightarrow> Inr (Inl (ConnectTunnel (''relay error: '' @ e)))
      | ShutdownCancelled now \<Rightarrow> Inr (Inr (relay_stats_of now RelayCancelled (rl_tracker s))))"

fun relay_events :: "relay_event list \<Rightarrow> relay_state \<Rightarrow> relay_state + relay_stats result" where
  "relay_events [] s = Inl s"
| "relay_events (ev # evs) s = (case relay_event_step ev s of Inl s' \<Rightarrow> relay_events evs s' | Inr r \<Rightarrow> Inr r)"

text \<open>\<open>Inl\<close>: still running after these events.\<close>

definition relay_bidirectional :: "instant \<Rightarrow> relay_event list \<Rightarrow> relay_state + relay_stats result" where
  "relay_bidirectional start evs = relay_events evs \<lparr>rl_tracker = tracker_new start, rl_armed = 0\<rparr>"

subsection \<open>What the clock guarantees\<close>

fun event_time :: "relay_event \<Rightarrow> instant" where
  "event_time (PollRead side now poll) = now"
| "event_time (PollWrite side now poll) = now"
| "event_time (WatchdogWakes now) = now"
| "event_time (CopyEnds r now) = now"
| "event_time (ShutdownCancelled now) = now"

fun relay_timed :: "duration \<Rightarrow> instant \<Rightarrow> relay_event list \<Rightarrow> relay_state \<Rightarrow> bool" where
  "relay_timed idle prev [] s = True"
| "relay_timed idle prev (ev # evs) s =
     (prev \<le> event_time ev \<and> (case ev of WatchdogWakes now \<Rightarrow> idle_deadline idle s \<le> now | _ \<Rightarrow> True)
      \<and> (case relay_event_step ev s of Inl s' \<Rightarrow> relay_timed idle (event_time ev) evs s' | Inr _ \<Rightarrow> evs = []))"

text \<open>Bytes moved, and those read from one side.\<close>

fun progress :: "relay_event \<Rightarrow> bool" where
  "progress (PollRead side now (Some (Inr n))) = (0 < n)"
| "progress (PollWrite side now (Some (Inr n))) = (0 < n)"
| "progress _ = False"

fun bytes_read :: "relay_side \<Rightarrow> relay_event \<Rightarrow> nat" where
  "bytes_read side (PollRead side' now (Some (Inr n))) = (if side' = side then n else 0)"
| "bytes_read side _ = 0"

subsection \<open>The tracker holds the last progress\<close>

definition tracks :: "relay_state \<Rightarrow> instant \<Rightarrow> bool" where
  "tracks s u \<longleftrightarrow> at_start (rl_tracker s) \<le> u \<and> unat (at_last_activity_ms (rl_tracker s)) = (u - at_start (rl_tracker s)) div NANOS_PER_MILLI"

lemma touch_tracks:
  assumes "at_start t \<le> now" "(now - at_start t) div NANOS_PER_MILLI < 2 ^ 64"
  shows "unat (at_last_activity_ms (touch now t)) = (now - at_start t) div NANOS_PER_MILLI"
  using assms by (simp add: touch_def Let_def unat_of_nat take_bit_nat_eq_self)

lemma touch_simps [simp]:
  "at_start (touch now t) = at_start t" "at_a_to_b (touch now t) = at_a_to_b t" "at_b_to_a (touch now t) = at_b_to_a t"
  by (simp_all add: touch_def Let_def)

lemma tracked_simps [simp]:
  "at_start (tracked_read side now poll t) = at_start t" "at_start (tracked_write now poll t) = at_start t"
  by (auto simp: tracked_read_def tracked_write_def split: option.split sum.split relay_side.split)

lemma event_step_start:
  "relay_event_step ev s = Inl s' \<Longrightarrow> at_start (rl_tracker s') = at_start (rl_tracker s)"
  by (auto simp: relay_event_step_def watchdog_wakes_def split: relay_event.splits sum.splits option.splits if_splits)

lemma event_step_tracks:
  assumes "relay_event_step ev s = Inl s'" "tracks s u" "u \<le> event_time ev"
    and "(event_time ev - at_start (rl_tracker s)) div NANOS_PER_MILLI < 2 ^ 64"
  shows "tracks s' (if progress ev then event_time ev else u)"
proof -
  have le: "at_start (rl_tracker s) \<le> event_time ev" using assms(2,3) by (simp add: tracks_def)
  have tt: "unat (at_last_activity_ms (touch (event_time ev) t)) = (event_time ev - at_start t) div NANOS_PER_MILLI"
    if "at_start t = at_start (rl_tracker s)" for t
    using touch_tracks [of t "event_time ev"] le assms(4) that by simp
  show ?thesis
  proof (cases ev)
    case (PollRead side now poll)
    show ?thesis using assms(1,2) PollRead tt le
      by (cases poll; cases "the poll"; cases side) (auto simp: relay_event_step_def tracks_def tracked_read_def)
  next
    case (PollWrite side now poll)
    show ?thesis using assms(1,2) PollWrite tt le
      by (cases poll; cases "the poll") (auto simp: relay_event_step_def tracks_def tracked_write_def)
  next
    case (CopyEnds r now)
    then show ?thesis using assms(1) by (cases r) (auto simp: relay_event_step_def)
  qed (use assms(1,2) in \<open>auto simp: relay_event_step_def tracks_def watchdog_wakes_def split: if_splits option.splits\<close>)
qed

lemma relay_mono:
  "relay_timed idle prev evs s \<Longrightarrow> relay_events evs s = Inr r \<Longrightarrow> evs \<noteq> [] \<Longrightarrow> prev \<le> event_time (last evs)"
proof (induction evs arbitrary: s prev)
  case (Cons ev evs)
  show ?case
  proof (cases "relay_event_step ev s")
    case (Inl s')
    then have "evs \<noteq> []" using Cons.prems(2) by auto
    then show ?thesis using Cons Inl by (auto intro: order_trans)
  qed (use Cons in auto)
qed simp

lemma idle_gap:
  "relay_events evs s = Inr (Inr stats) \<Longrightarrow> rl_end stats = RelayIdleTimeout \<Longrightarrow> relay_timed idle prev evs s \<Longrightarrow> tracks s u \<Longrightarrow> u \<le> prev \<Longrightarrow>
   (event_time (last evs) - at_start (rl_tracker s)) div NANOS_PER_MILLI < 2 ^ 64 \<Longrightarrow>
   u + idle < event_time (last evs) + NANOS_PER_MILLI \<and> prev \<le> event_time (last evs)
   \<and> (\<forall>ev \<in> set evs. progress ev \<longrightarrow> event_time ev + idle < event_time (last evs) + NANOS_PER_MILLI)"
proof (induction evs arbitrary: s prev u)
  case Nil
  then show ?case by simp
next
  case (Cons ev evs)
  show ?case
  proof (cases "relay_event_step ev s")
    case (Inr r)
    then obtain t where ev: "ev = WatchdogWakes t" and eq: "at_last_activity_ms (rl_tracker s) = rl_armed s"
      using Cons.prems(1,2) by (auto simp: relay_event_step_def relay_stats_of_def watchdog_wakes_def split: relay_event.splits sum.splits option.splits if_splits)
    have nil: "evs = []" and due: "idle_deadline idle s \<le> t" and p: "prev \<le> t" using Cons.prems(3) ev Inr by auto
    have "u - at_start (rl_tracker s) < (u - at_start (rl_tracker s)) div NANOS_PER_MILLI * NANOS_PER_MILLI + NANOS_PER_MILLI"
      using div_mult_mod_eq [of "u - at_start (rl_tracker s)" NANOS_PER_MILLI]
        mod_less_divisor [of NANOS_PER_MILLI "u - at_start (rl_tracker s)"] by (simp add: NANOS_PER_MILLI_def)
    then have "u + idle < t + NANOS_PER_MILLI"
      using due Cons.prems(4) eq by (simp add: idle_deadline_def tracks_def)
    then show ?thesis using ev nil p by simp
  next
    case (Inl s')
    let ?u = "if progress ev then event_time ev else u"
    have evs: "relay_events evs s' = Inr (Inr stats)" using Cons.prems(1) Inl by simp
    then have ne: "evs \<noteq> []" by auto
    have tm: "relay_timed idle (event_time ev) evs s'" and le: "prev \<le> event_time ev" using Cons.prems(3) Inl by auto
    note st = event_step_start [OF Inl]
    have bound: "(event_time (last evs) - at_start (rl_tracker s')) div NANOS_PER_MILLI < 2 ^ 64" using Cons.prems(6) ne st by simp
    have mono: "event_time ev \<le> event_time (last evs)"
      using relay_mono [OF tm evs ne] .
    have "(event_time ev - at_start (rl_tracker s)) div NANOS_PER_MILLI \<le> (event_time (last evs) - at_start (rl_tracker s')) div NANOS_PER_MILLI"
      unfolding st by (rule div_le_mono) (use mono in simp)
    then have "(event_time ev - at_start (rl_tracker s)) div NANOS_PER_MILLI < 2 ^ 64" using bound by (rule le_less_trans)
    with event_step_tracks [OF Inl Cons.prems(4)] le Cons.prems(5) have tr: "tracks s' ?u" by simp
    have "?u \<le> event_time ev" using le Cons.prems(5) by simp
    from Cons.IH [OF evs Cons.prems(2) tm tr this bound] show ?thesis
      using ne le Cons.prems(5) by (auto split: if_splits)
  qed
qed

lemma counts_step:
  "relay_event_step ev s = Inl s' \<Longrightarrow> at_a_to_b (rl_tracker s') = at_a_to_b (rl_tracker s) + of_nat (bytes_read SideA ev)
     \<and> at_b_to_a (rl_tracker s') = at_b_to_a (rl_tracker s) + of_nat (bytes_read SideB ev)"
  by (cases "(SideA, ev)" rule: bytes_read.cases)
    (auto simp: relay_event_step_def tracked_read_def tracked_write_def watchdog_wakes_def split: sum.splits option.splits if_splits relay_side.splits)

lemma counts_end:
  "relay_event_step ev s = Inr (Inr stats) \<Longrightarrow> rl_bytes_a_to_b stats = at_a_to_b (rl_tracker s) \<and> rl_bytes_b_to_a stats = at_b_to_a (rl_tracker s)
     \<and> bytes_read side ev = 0"
  by (auto simp: relay_event_step_def relay_stats_of_def split: relay_event.splits sum.splits option.splits)

lemma counts_exact:
  "relay_events evs s = Inr (Inr stats) \<Longrightarrow> relay_timed idle prev evs s \<Longrightarrow>
   rl_bytes_a_to_b stats = at_a_to_b (rl_tracker s) + of_nat (sum_list (map (bytes_read SideA) evs))
   \<and> rl_bytes_b_to_a stats = at_b_to_a (rl_tracker s) + of_nat (sum_list (map (bytes_read SideB) evs))"
proof (induction evs arbitrary: s prev)
  case (Cons ev evs)
  show ?case
  proof (cases "relay_event_step ev s")
    case (Inl s')
    then show ?thesis using Cons counts_step [OF Inl] by (fastforce simp: add.assoc)
  next
    case (Inr r)
    then show ?thesis using Cons.prems counts_end [of ev s stats SideA] counts_end [of ev s stats SideB] by auto
  qed
qed simp

text \<open>
  Claim C19. The relay's idle timeout is about silence and its byte counts are real: a finished relay reports exactly the bytes read on either
  side, and when it ended for idleness, every read or write that moved a byte happened a whole idle timeout earlier, up to
  the millisecond the activity clock counts in. An active transfer is never cut off, however long it runs.
\<close>
theorem relay_idle_exact:
  assumes "relay_bidirectional start evs = Inr (Inr stats)"
    and "relay_timed idle start evs \<lparr>rl_tracker = tracker_new start, rl_armed = 0\<rparr>"
    and "(event_time (last evs) - start) div NANOS_PER_MILLI < 2 ^ 64"
  shows "rl_bytes_a_to_b stats = of_nat (sum_list (map (bytes_read SideA) evs))
    \<and> rl_bytes_b_to_a stats = of_nat (sum_list (map (bytes_read SideB) evs))
    \<and> (rl_end stats = RelayIdleTimeout \<longrightarrow> start + idle < event_time (last evs) + NANOS_PER_MILLI
         \<and> (\<forall>ev \<in> set evs. progress ev \<longrightarrow> event_time ev + idle < event_time (last evs) + NANOS_PER_MILLI))"
proof -
  let ?s = "\<lparr>rl_tracker = tracker_new start, rl_armed = 0\<rparr>"
  have e: "relay_events evs ?s = Inr (Inr stats)" using assms(1) by (simp add: relay_bidirectional_def)
  have t: "tracks ?s start" by (simp add: tracks_def tracker_new_def)
  have z: "at_start (rl_tracker ?s) = start" "at_a_to_b (rl_tracker ?s) = 0" "at_b_to_a (rl_tracker ?s) = 0" by (simp_all add: tracker_new_def)
  from counts_exact [OF e assms(2)] show ?thesis
    using idle_gap [OF e _ assms(2) t order_refl] assms(3) unfolding z by simp
qed

text \<open>Silence ends the relay: at the second wake-up of the watchdog without progress it is over.\<close>

lemma quiet_step:
  assumes "\<not> progress ev" "ev = PollRead side now poll \<or> ev = PollWrite side now poll"
  shows "relay_event_step ev s = Inl s"
  using assms by (cases poll; cases "the poll") (auto simp: relay_event_step_def tracked_read_def tracked_write_def)

fun is_poll :: "relay_event \<Rightarrow> bool" where
  "is_poll (PollRead side now poll) = True"
| "is_poll (PollWrite side now poll) = True"
| "is_poll _ = False"

lemma quiet_run: "\<forall>ev \<in> set q. is_poll ev \<and> \<not> progress ev \<Longrightarrow> relay_events (q @ evs) s = relay_events evs s"
proof (induction q)
  case (Cons ev q)
  then have "relay_event_step ev s = Inl s" by (cases ev) (auto intro: quiet_step)
  then show ?case using Cons by simp
qed simp

lemma relay_silence_ends:
  assumes "\<forall>ev \<in> set q. is_poll ev \<and> \<not> progress ev" "\<forall>ev \<in> set q'. is_poll ev \<and> \<not> progress ev"
  shows "\<exists>stats. relay_events (q @ WatchdogWakes t # q' @ [WatchdogWakes t']) s = Inr (Inr stats) \<and> rl_end stats = RelayIdleTimeout"
  unfolding quiet_run [OF assms(1)]
  by (auto simp: relay_event_step_def watchdog_wakes_def relay_stats_of_def quiet_run [OF assms(2)] split: option.split)

theorem relay_idle_exact_witness:
  "\<exists>stats. relay_bidirectional 0 [PollRead SideA 5000000 (Some (Inr 7)), WatchdogWakes 10000000, WatchdogWakes 15000000] = Inr (Inr stats)
     \<and> rl_bytes_a_to_b stats = 7 \<and> rl_end stats = RelayIdleTimeout \<and> (5000000 :: nat) + 10000000 < 15000000 + NANOS_PER_MILLI"
proof -
  let ?evs = "[PollRead SideA 5000000 (Some (Inr 7)), WatchdogWakes 10000000, WatchdogWakes 15000000]"
  obtain stats where s: "relay_bidirectional 0 ?evs = Inr (Inr stats)" "rl_end stats = RelayIdleTimeout"
    by (simp add: relay_bidirectional_def relay_event_step_def watchdog_wakes_def tracked_read_def touch_def tracker_new_def relay_stats_of_def NANOS_PER_MILLI_def)
  have t: "relay_timed 10000000 0 ?evs \<lparr>rl_tracker = tracker_new 0, rl_armed = 0\<rparr>"
    by (simp add: relay_event_step_def watchdog_wakes_def tracked_read_def touch_def tracker_new_def idle_deadline_def NANOS_PER_MILLI_def)
  show ?thesis using relay_idle_exact [OF s(1) t] s by (simp add: NANOS_PER_MILLI_def)
qed

end
