(* ===== verification/Ingress_Tcp.thy ===== *)
theory Ingress_Tcp
  imports Ingress_Udp Relay
begin

section \<open>TCP ingress (\<open>ingress/tcp.rs\<close>)\<close>

text \<open>
  The accept loop and the per-connection tasks. A task is split at its await points: spawned, relaying (with
  its half-open guard), ended; tasks interleave freely. The dialled stream and the relay's outcome are
  what the environment answers. The theorem: every accepted connection ends as one relayed count or one drop
  reason, no permit is lost or minted, and never more than the configured number of tasks run.
\<close>

definition TCP_WORKER_ID :: u16 where "TCP_WORKER_ID = 0"
definition DEFAULT_TCP_MAX_CONNECTIONS :: u32 where "DEFAULT_TCP_MAX_CONNECTIONS = 10000"
definition DEFAULT_TCP_IDLE_TIMEOUT_SECS :: u64 where "DEFAULT_TCP_IDLE_TIMEOUT_SECS = 300"

datatype tcp_drop_reason = TAcl | TRateLimit | TCapacity | TNoBackend | TCircuitOpen | TProtocol

record tcp_counters =
  tc_accepted :: u64
  tc_relayed :: u64
  tc_dropped_acl :: u64
  tc_dropped_rate_limit :: u64
  tc_dropped_capacity :: u64
  tc_dropped_no_backend :: u64
  tc_dropped_circuit_open :: u64
  tc_dropped_protocol :: u64
  tc_active :: int
  tc_bytes_relayed :: u64

definition tcp_counters_new :: tcp_counters where
  "tcp_counters_new = \<lparr>tc_accepted = 0, tc_relayed = 0, tc_dropped_acl = 0, tc_dropped_rate_limit = 0,
     tc_dropped_capacity = 0, tc_dropped_no_backend = 0, tc_dropped_circuit_open = 0, tc_dropped_protocol = 0,
     tc_active = 0, tc_bytes_relayed = 0\<rparr>"

definition record_accepted :: "tcp_counters \<Rightarrow> tcp_counters" where
  "record_accepted c = c\<lparr>tc_accepted := tc_accepted c + 1\<rparr>"

definition tcp_record_relayed :: "u64 \<Rightarrow> tcp_counters \<Rightarrow> tcp_counters" where
  "tcp_record_relayed bytes c = c\<lparr>tc_relayed := tc_relayed c + 1, tc_bytes_relayed := tc_bytes_relayed c + bytes\<rparr>"

fun tcp_record_drop :: "tcp_drop_reason \<Rightarrow> tcp_counters \<Rightarrow> tcp_counters" where
  "tcp_record_drop TAcl c = c\<lparr>tc_dropped_acl := tc_dropped_acl c + 1\<rparr>"
| "tcp_record_drop TRateLimit c = c\<lparr>tc_dropped_rate_limit := tc_dropped_rate_limit c + 1\<rparr>"
| "tcp_record_drop TCapacity c = c\<lparr>tc_dropped_capacity := tc_dropped_capacity c + 1\<rparr>"
| "tcp_record_drop TNoBackend c = c\<lparr>tc_dropped_no_backend := tc_dropped_no_backend c + 1\<rparr>"
| "tcp_record_drop TCircuitOpen c = c\<lparr>tc_dropped_circuit_open := tc_dropped_circuit_open c + 1\<rparr>"
| "tcp_record_drop TProtocol c = c\<lparr>tc_dropped_protocol := tc_dropped_protocol c + 1\<rparr>"

definition active_add :: "int \<Rightarrow> tcp_counters \<Rightarrow> tcp_counters" where
  "active_add d c = c\<lparr>tc_active := tc_active c + d\<rparr>"

fun tcp_dropped :: "tcp_drop_reason \<Rightarrow> tcp_counters \<Rightarrow> u64" where
  "tcp_dropped TAcl c = tc_dropped_acl c"
| "tcp_dropped TRateLimit c = tc_dropped_rate_limit c"
| "tcp_dropped TCapacity c = tc_dropped_capacity c"
| "tcp_dropped TNoBackend c = tc_dropped_no_backend c"
| "tcp_dropped TCircuitOpen c = tc_dropped_circuit_open c"
| "tcp_dropped TProtocol c = tc_dropped_protocol c"

definition tcp_total_dropped :: "tcp_counters \<Rightarrow> u64" where
  "tcp_total_dropped c = tcp_dropped TAcl c + tcp_dropped TRateLimit c + tcp_dropped TCapacity c
     + tcp_dropped TNoBackend c + tcp_dropped TCircuitOpen c + tcp_dropped TProtocol c"

interpretation tcp_ledger: ledger tc_accepted tc_relayed tcp_total_dropped record_accepted tcp_record_relayed
    tcp_record_drop "\<lambda>_. 1" "\<lambda>_. 1"
proof unfold_locales
  fix r c
  show "tc_accepted (tcp_record_drop r c) = tc_accepted c \<and> tc_relayed (tcp_record_drop r c) = tc_relayed c
      \<and> tcp_total_dropped (tcp_record_drop r c) = tcp_total_dropped c + 1"
    by (cases r) (simp_all add: tcp_total_dropped_def)
qed (simp_all add: record_accepted_def tcp_record_relayed_def tcp_total_dropped_def)

subsection \<open>Admission and dialling\<close>

definition tcp_admit :: "(ip_net \<Rightarrow> ip_addr \<Rightarrow> bool) \<Rightarrow> (ip_addr \<Rightarrow> 'r \<Rightarrow> 'r \<times> bool) \<Rightarrow> access_control \<Rightarrow> ip_addr
    \<Rightarrow> 'r \<Rightarrow> 'r \<times> (tcp_drop_reason + unit)" where
  "tcp_admit contains check_key acl ip l =
     (case acl_check contains acl ip of
        Inl _ \<Rightarrow> (l, Inl TAcl)
      | Inr _ \<Rightarrow> (case rate_limit_check check_key ip l of
                  (l', Inl _) \<Rightarrow> (l', Inl TRateLimit) | (l', Inr _) \<Rightarrow> (l', Inr ())))"

definition open_backend_stream :: "(envelope \<Rightarrow> bytes) \<Rightarrow> socket_addr \<Rightarrow> string \<Rightarrow> writer result \<Rightarrow> writer result" where
  "open_backend_stream bc_encode peer ingress_id acquired =
     bind_res acquired (\<lambda>stream.
       case ingress_write_preamble stream of
         (Inl e, _) \<Rightarrow> Inl e
       | (Inr _, stream) \<Rightarrow>
           (case envelope_write_frame bc_encode (EnvHello ingress_id TCP_WORKER_ID) stream of
              (Inl e, _) \<Rightarrow> Inl e
            | (Inr _, stream) \<Rightarrow>
                (case envelope_write_frame bc_encode (EnvOpen (from_socket_addr peer)) stream of
                   (Inl e, _) \<Rightarrow> Inl e
                 | (Inr _, stream) \<Rightarrow> Inr stream)))"

definition relay_bidirectional_result :: "relay_stats result \<Rightarrow> (u64 \<times> duration) result" where
  "relay_bidirectional_result r =
     bind_res r (\<lambda>st. Inr (saturating_add (rl_bytes_a_to_b st) (rl_bytes_b_to_a st), rl_duration st))"

subsection \<open>Tasks\<close>

datatype tcp_task = Spawned socket_addr | Relaying socket_addr string "ref option"

record 'r tcp_ingress =
  ti_acl :: access_control
  ti_limiter :: 'r
  ti_pool :: backend_pool
  ti_permits :: nat
  ti_counters :: tcp_counters
  ti_circuit :: circuit_breakers
  ti_ingress_id :: string
  ti_tasks :: "tcp_task list"

definition tcp_new :: "ingress_config \<Rightarrow> access_control \<Rightarrow> 'r \<Rightarrow> backend_pool \<Rightarrow> circuit_breakers \<Rightarrow> 'r tcp_ingress" where
  "tcp_new g acl l pool cb =
     \<lparr>ti_acl = acl, ti_limiter = l, ti_pool = pool,
      ti_permits = unat (case igc_max_connections g of Some n \<Rightarrow> n | None \<Rightarrow> DEFAULT_TCP_MAX_CONNECTIONS),
      ti_counters = tcp_counters_new, ti_circuit = cb, ti_ingress_id = igc_id g, ti_tasks = []\<rparr>"

definition accept_one :: "(ip_net \<Rightarrow> ip_addr \<Rightarrow> bool) \<Rightarrow> (ip_addr \<Rightarrow> 'r \<Rightarrow> 'r \<times> bool) \<Rightarrow> socket_addr
    \<Rightarrow> 'r tcp_ingress \<Rightarrow> 'r tcp_ingress" where
  "accept_one contains check_key peer s0 =
     (let s = s0\<lparr>ti_counters := record_accepted (ti_counters s0)\<rparr>
      in case tcp_admit contains check_key (ti_acl s) (sa_ip peer) (ti_limiter s) of
           (l', Inl reason) \<Rightarrow> s\<lparr>ti_limiter := l', ti_counters := tcp_record_drop reason (ti_counters s)\<rparr>
         | (l', Inr _) \<Rightarrow>
             if ti_permits s = 0
             then s\<lparr>ti_limiter := l', ti_counters := tcp_record_drop TCapacity (ti_counters s)\<rparr>
             else s\<lparr>ti_limiter := l', ti_permits := ti_permits s - 1, ti_tasks := ti_tasks s @ [Spawned peer]\<rparr>)"

text \<open>A task's end drops its half-open guard and its permit.\<close>

definition end_task :: "nat \<Rightarrow> ref option \<Rightarrow> 'r tcp_ingress \<Rightarrow> 'r tcp_ingress" where
  "end_task i guard s =
     s\<lparr>ti_circuit := (case guard of Some r \<Rightarrow> drop_guard r (ti_circuit s) | None \<Rightarrow> ti_circuit s),
       ti_permits := ti_permits s + 1, ti_tasks := take i (ti_tasks s) @ drop (i + 1) (ti_tasks s)\<rparr>"

definition connection_start :: "(f64 \<Rightarrow> f64) \<Rightarrow> 'l health_lru \<Rightarrow> instant \<Rightarrow> 'l health_state \<Rightarrow> (envelope \<Rightarrow> bytes)
    \<Rightarrow> writer result \<Rightarrow> (nat \<Rightarrow> instant) \<Rightarrow> nat \<Rightarrow> socket_addr \<Rightarrow> 'r tcp_ingress \<Rightarrow> 'r tcp_ingress" where
  "connection_start ln_f64 ops now_select health bc_encode acquired clock i peer s =
     (case select ln_f64 ops now_select health (sa_ip peer) (ti_pool s) of
        None \<Rightarrow> end_task i None (s\<lparr>ti_counters := tcp_record_drop TNoBackend (ti_counters s)\<rparr>)
      | Some backend \<Rightarrow>
          (case check (clock 0) (bc_id backend) (ti_circuit s) of
             (cb, cstate, guard) \<Rightarrow>
               let s1 = s\<lparr>ti_circuit := cb\<rparr> in
               if cstate = Open
               then end_task i guard (s1\<lparr>ti_counters := tcp_record_drop TCircuitOpen (ti_counters s1)\<rparr>)
               else case open_backend_stream bc_encode peer (ti_ingress_id s1) acquired of
                      Inl e \<Rightarrow>
                        end_task i guard (s1\<lparr>ti_circuit := record_failure (clock 1) (bc_id backend) cb,
                          ti_counters := tcp_record_drop TProtocol (ti_counters s1)\<rparr>)
                    | Inr stream \<Rightarrow>
                        s1\<lparr>ti_counters := active_add 1 (ti_counters s1),
                           ti_tasks := (ti_tasks s1)[i := Relaying peer (bc_id backend) guard]\<rparr>))"

definition connection_finish :: "relay_stats result \<Rightarrow> instant \<Rightarrow> nat \<Rightarrow> string \<Rightarrow> ref option \<Rightarrow> 'r tcp_ingress \<Rightarrow> 'r tcp_ingress" where
  "connection_finish relay now i backend_id guard s =
     (let c = active_add (- 1) (ti_counters s) in
      case relay_bidirectional_result relay of
        Inr (bytes, duration) \<Rightarrow>
          end_task i guard (s\<lparr>ti_circuit := record_success backend_id (ti_circuit s), ti_counters := tcp_record_relayed bytes c\<rparr>)
      | Inl e \<Rightarrow>
          end_task i guard (s\<lparr>ti_circuit := record_failure now backend_id (ti_circuit s),
            ti_counters := tcp_record_drop TProtocol c\<rparr>))"

inductive tcp_reaches :: "(ip_net \<Rightarrow> ip_addr \<Rightarrow> bool) \<Rightarrow> (ip_addr \<Rightarrow> 'r \<Rightarrow> 'r \<times> bool) \<Rightarrow> (f64 \<Rightarrow> f64) \<Rightarrow> 'l health_lru
    \<Rightarrow> (envelope \<Rightarrow> bytes) \<Rightarrow> 'r tcp_ingress \<Rightarrow> 'r tcp_ingress \<Rightarrow> bool"
  for contains check_key ln_f64 ops bc_encode s0 where
  tr_new: "tcp_reaches contains check_key ln_f64 ops bc_encode s0 s0"
| tr_accept: "tcp_reaches contains check_key ln_f64 ops bc_encode s0 s
    \<Longrightarrow> tcp_reaches contains check_key ln_f64 ops bc_encode s0 (accept_one contains check_key peer s)"
| tr_start: "\<lbrakk>tcp_reaches contains check_key ln_f64 ops bc_encode s0 s; i < length (ti_tasks s); ti_tasks s ! i = Spawned peer\<rbrakk>
    \<Longrightarrow> tcp_reaches contains check_key ln_f64 ops bc_encode s0
          (connection_start ln_f64 ops now_select health bc_encode acquired clock i peer s)"
| tr_finish: "\<lbrakk>tcp_reaches contains check_key ln_f64 ops bc_encode s0 s; i < length (ti_tasks s);
     ti_tasks s ! i = Relaying peer backend_id guard\<rbrakk>
    \<Longrightarrow> tcp_reaches contains check_key ln_f64 ops bc_encode s0 (connection_finish relay now i backend_id guard s)"

subsection \<open>Every connection is accounted for\<close>

declare tcp_record_drop.simps [simp del]

definition tcp_gate :: "(ip_net \<Rightarrow> ip_addr \<Rightarrow> bool) \<Rightarrow> (ip_addr \<Rightarrow> 'r \<Rightarrow> 'r \<times> bool) \<Rightarrow> access_control
    \<Rightarrow> ip_addr \<Rightarrow> 'r \<Rightarrow> 'r \<times> bool" where
  "tcp_gate contains check_key acl ip l =
     (case tcp_admit contains check_key acl ip l of (l', r) \<Rightarrow> (l', r = Inr ()))"

interpretation tcp_gate: acl_first_gate "\<lambda>ip. acl_check contains acl ip = Inr ()" "tcp_gate contains check_key acl"
  for contains check_key acl
  by unfold_locales (auto simp: tcp_gate_def tcp_admit_def split: sum.splits)

fun is_relaying :: "tcp_task \<Rightarrow> bool" where
  "is_relaying (Spawned _) = False"
| "is_relaying (Relaying _ _ _) = True"

definition relaying :: "tcp_task list \<Rightarrow> nat" where
  "relaying ts = length (filter is_relaying ts)"

definition tcp_inv :: "nat \<Rightarrow> 'r tcp_ingress \<Rightarrow> bool" where
  "tcp_inv mx s \<longleftrightarrow>
     tc_accepted (ti_counters s) = tc_relayed (ti_counters s) + tcp_total_dropped (ti_counters s) + of_nat (length (ti_tasks s))
   \<and> ti_permits s + length (ti_tasks s) = mx
   \<and> tc_active (ti_counters s) = int (relaying (ti_tasks s))"

lemma tc_active_drop [simp]: "tc_active (tcp_record_drop r c) = tc_active c"
  by (cases r) (simp_all add: tcp_record_drop.simps)

lemma tcp_active_simps [simp]:
  "tc_active (active_add d c) = tc_active c + d" "tc_active (record_accepted c) = tc_active c"
  "tc_active (tcp_record_relayed b c) = tc_active c"
  by (simp_all add: active_add_def record_accepted_def tcp_record_relayed_def)

lemma active_add_ledger [simp]:
  "tc_accepted (active_add d c) = tc_accepted c" "tc_relayed (active_add d c) = tc_relayed c"
  "tcp_total_dropped (active_add d c) = tcp_total_dropped c"
  by (simp_all add: active_add_def tcp_total_dropped_def)

lemma accept_one_inv:
  assumes "tcp_inv mx s" shows "tcp_inv mx (accept_one contains check_key peer s)"
proof -
  have st: "tc_accepted (record_accepted (ti_counters s)) = tc_relayed (record_accepted (ti_counters s))
      + tcp_total_dropped (record_accepted (ti_counters s)) + (of_nat (length (ti_tasks s)) + 1)"
    using tcp_ledger.settled(1) assms unfolding tcp_inv_def by blast
  show ?thesis
    using assms st tcp_ledger.settled(3) [OF st]
    by (auto simp: accept_one_def Let_def tcp_inv_def relaying_def split: prod.split sum.split)
qed

lemma remove_nth: "i < length xs \<Longrightarrow> length (take i xs @ drop (i + 1) xs) + 1 = length xs"
  by simp

lemma relaying_remove:
  assumes "i < length ts"
  shows "int (relaying (take i ts @ drop (i + 1) ts)) = int (relaying ts) - (if is_relaying (ts ! i) then 1 else 0)"
proof -
  have "relaying ts = relaying (take i ts @ ts ! i # drop (Suc i) ts)" using id_take_nth_drop [OF assms] by simp
  then show ?thesis by (simp add: relaying_def)
qed

lemma relaying_update:
  assumes "i < length ts" and "\<not> is_relaying (ts ! i)" and "is_relaying t"
  shows "relaying (ts[i := t]) = relaying ts + 1"
proof -
  have "relaying ts = relaying (take i ts @ ts ! i # drop (Suc i) ts)" using id_take_nth_drop [OF assms(1)] by simp
  then show ?thesis using assms by (simp add: relaying_def upd_conv_take_nth_drop)
qed

text \<open>Ending task \<open>i\<close> after its outcome was counted.\<close>

lemma end_task_inv:
  assumes inv: "tcp_inv mx s" and i: "i < length (ti_tasks s)"
    and c: "tc_accepted c = tc_accepted (ti_counters s)"
      "tc_relayed c + tcp_total_dropped c = tc_relayed (ti_counters s) + tcp_total_dropped (ti_counters s) + 1"
      "tc_active c = tc_active (ti_counters s) - (if is_relaying (ti_tasks s ! i) then 1 else 0)"
  shows "tcp_inv mx (end_task i guard (s\<lparr>ti_circuit := cb, ti_counters := c\<rparr>))"
proof -
  have len: "of_nat (length (ti_tasks s)) = (of_nat (length (take i (ti_tasks s) @ drop (i + 1) (ti_tasks s))) :: u64) + 1"
    using arg_cong [OF remove_nth [OF i], of "of_nat :: nat \<Rightarrow> u64"] by (simp only: of_nat_add of_nat_1)
  have "tc_accepted c = tc_relayed c + tcp_total_dropped c
      + of_nat (length (take i (ti_tasks s) @ drop (i + 1) (ti_tasks s)))"
    using inv c(1,2) unfolding tcp_inv_def len by (simp only: ac_simps)
  then show ?thesis
    using inv i c(3) relaying_remove [OF i] by (auto simp: tcp_inv_def end_task_def)
qed

lemma connection_start_inv:
  assumes inv: "tcp_inv mx s" and i: "i < length (ti_tasks s)" "ti_tasks s ! i = Spawned peer"
  shows "tcp_inv mx (connection_start ln_f64 ops t0 hs bc_encode acquired clock i peer s)"
proof -
  have drop: "tcp_inv mx (end_task i guard (s\<lparr>ti_circuit := cb, ti_counters := tcp_record_drop r (ti_counters s)\<rparr>))" for guard cb r
    by (rule end_task_inv [OF inv i(1)]) (simp_all add: tcp_ledger.discard_law i)
  have go: "tcp_inv mx (s\<lparr>ti_circuit := cb, ti_counters := active_add 1 (ti_counters s),
      ti_tasks := (ti_tasks s)[i := Relaying peer k g]\<rparr>)" for cb k g
    using inv i by (simp add: tcp_inv_def relaying_update)
  have "tcp_inv mx (end_task i None (s\<lparr>ti_counters := tcp_record_drop TNoBackend (ti_counters s)\<rparr>))"
    using drop [where guard = None and cb = "ti_circuit s" and r = TNoBackend] by simp
  then show ?thesis using drop go by (simp add: connection_start_def Let_def split: option.split prod.split sum.split)
qed

lemma connection_finish_inv:
  assumes inv: "tcp_inv mx s" and i: "i < length (ti_tasks s)" "ti_tasks s ! i = Relaying peer k guard"
  shows "tcp_inv mx (connection_finish relay now i k guard s)"
proof -
  have "tcp_inv mx (end_task i guard (s\<lparr>ti_circuit := cb, ti_counters := tcp_record_drop r (active_add (- 1) (ti_counters s))\<rparr>))" for cb r
    by (rule end_task_inv [OF inv i(1)]) (simp_all add: tcp_ledger.discard_law i)
  moreover have "tcp_inv mx (end_task i guard (s\<lparr>ti_circuit := cb, ti_counters := tcp_record_relayed b (active_add (- 1) (ti_counters s))\<rparr>))" for cb b
    by (rule end_task_inv [OF inv i(1)]) (simp_all add: tcp_ledger.relay_law i)
  ultimately show ?thesis by (simp add: connection_finish_def Let_def split: sum.split)
qed

text \<open>
  Claim C37. TCP ingress accounting closes and capacity holds: along every interleaving of accepts and connection
  tasks with any outcome, \<open>accepted\<close> equals \<open>relayed\<close> plus all drop reasons plus the running tasks (64-bit
  arithmetic), free permits plus running tasks stay the configured maximum, and the active gauge is the
  number of relaying connections.
\<close>
theorem tcp_accounting_closes:
  assumes "tcp_reaches contains check_key ln_f64 ops bc_encode (tcp_new g acl l pool cb) s"
  shows "tc_accepted (ti_counters s) = tc_relayed (ti_counters s) + tcp_total_dropped (ti_counters s) + of_nat (length (ti_tasks s))
    \<and> ti_permits s + length (ti_tasks s) = unat (case igc_max_connections g of Some n \<Rightarrow> n | None \<Rightarrow> DEFAULT_TCP_MAX_CONNECTIONS)
    \<and> tc_active (ti_counters s) = int (relaying (ti_tasks s))"
proof -
  let ?mx = "unat (case igc_max_connections g of Some n \<Rightarrow> n | None \<Rightarrow> DEFAULT_TCP_MAX_CONNECTIONS)"
  from assms have "tcp_inv ?mx s"
  proof induction
    case tr_new
    show ?case by (simp add: tcp_inv_def tcp_new_def tcp_counters_new_def tcp_total_dropped_def relaying_def)
  qed (simp_all add: accept_one_inv connection_start_inv connection_finish_inv)
  then show ?thesis by (simp add: tcp_inv_def)
qed

definition demo_ingress :: ingress_config where
  "demo_ingress = default_ingress_config ''i'' TcpIngress \<lparr>sa_ip = V4 1, sa_port = 9\<rparr> []"

theorem tcp_accounting_closes_witness:
  "let s = accept_one prefix_contains (\<lambda>ip l. (l, True)) \<lparr>sa_ip = V4 7, sa_port = 1\<rparr>
       (tcp_new demo_ingress (acl_new [] []) () \<lparr>bp_backends = []\<rparr> (breakers_new default_circuit_breaker_config))
   in tc_accepted (ti_counters s) = 1 \<and> length (ti_tasks s) = 1 \<and> ti_permits s = 9999"
proof -
  let ?init = "tcp_new demo_ingress (acl_new [] []) () \<lparr>bp_backends = []\<rparr> (breakers_new default_circuit_breaker_config)"
  let ?s = "accept_one prefix_contains (\<lambda>ip l. (l, True)) \<lparr>sa_ip = V4 7, sa_port = 1\<rparr> ?init"
  have r: "tcp_reaches prefix_contains (\<lambda>ip l. (l, True)) id alist_lru (\<lambda>_. []) ?init ?s"
    by (rule tr_accept [OF tr_new])
  have "length (ti_tasks ?s) = 1 \<and> tc_relayed (ti_counters ?s) = 0 \<and> tcp_total_dropped (ti_counters ?s) = 0"
    by (simp add: accept_one_def tcp_new_def demo_ingress_def default_ingress_config_def DEFAULT_TCP_MAX_CONNECTIONS_def
        tcp_admit_def acl_check_def acl_new_def acl_is_denied_def rate_limit_check_def record_accepted_def
        tcp_counters_new_def tcp_total_dropped_def)
  then show ?thesis
    using tcp_accounting_closes [OF r]
    by (simp add: demo_ingress_def default_ingress_config_def DEFAULT_TCP_MAX_CONNECTIONS_def Let_def)
qed

end
