(* ===== verification/Tunnel_Protocol.thy ===== *)
theory Tunnel_Protocol
  imports Framing
begin

section \<open>The tunnel protocol (\<open>tunnel/protocol.rs\<close>)\<close>

text \<open>
  Preamble, session ids, frames and their length-prefixed encoding. \<open>bc_encode\<close> and \<open>bc_decode\<close> are
  bitcode's encoder and decoder for \<open>TunnelFrame\<close>; the random bytes of a session id are an argument.
  The theorems: a sequence of frames written by \<open>write_frame\<close> is read back in order by \<open>read_frame\<close>
  whatever follows it, the slice decoder and the stream decoder accept the same frames, and a declared
  length above the limit is refused before any payload is read.
\<close>

definition TUNNEL_LENGTH_PREFIX_SIZE :: nat where "TUNNEL_LENGTH_PREFIX_SIZE = 4"
definition MAX_FRAME_SIZE :: nat where "MAX_FRAME_SIZE = 64 * 1024"
definition TUNNEL_MAGIC :: bytes where "TUNNEL_MAGIC = [0x52, 0x44, 0x54, 0x4e]"
definition TUNNEL_VERSION :: u8 where "TUNNEL_VERSION = 1"

definition tunnel_write_preamble :: "writer \<Rightarrow> unit result \<times> writer" where
  "tunnel_write_preamble w =
     io_bind (io_err (\<lambda>e. Tunnel (''write preamble: '' @ e)) (write_all (TUNNEL_MAGIC @ [TUNNEL_VERSION]) w)) (\<lambda>_ w.
     io_err (\<lambda>e. Tunnel (''flush preamble: '' @ e)) (flush w))"

definition tunnel_read_preamble :: "reader \<Rightarrow> u8 result \<times> reader" where
  "tunnel_read_preamble r =
     io_bind (io_err (\<lambda>e. Tunnel (''read preamble: '' @ e)) (read_exact 5 r)) (\<lambda>buf r.
       if take 4 buf \<noteq> TUNNEL_MAGIC
       then (Inl (Tunnel ''bad protocol magic: peer is not a reduction tunnel endpoint''), r)
       else (Inr (buf ! 4), r))"

subsection \<open>Session ids\<close>

type_synonym session_id = bytes

definition SESSION_ID_LEN :: nat where "SESSION_ID_LEN = 21"

definition hex_fixed :: "nat \<Rightarrow> u64 \<Rightarrow> string" where
  "hex_fixed n v = map (\<lambda>i. hex_digit (unat (take_bit 4 (drop_bit (4 * (n - 1 - i)) v))))  [0..<n]"

definition ascii_bytes :: "string \<Rightarrow> bytes" where
  "ascii_bytes s = map (\<lambda>c. of_nat (of_char c)) s"

definition session_id_generate :: "bytes option \<Rightarrow> session_id result" where
  "session_id_generate random =
     (case random of
        None \<Rightarrow> Inl (Tunnel ''system RNG unavailable for session id'')
      | Some bs \<Rightarrow> Inr (ascii_bytes (''sess-'' @ hex_fixed 16 (from_be_bytes bs))))"

definition session_id_as_str :: "session_id \<Rightarrow> string" where
  "session_id_as_str s =
     (if list_all (\<lambda>b. b < 128) s then map (\<lambda>b. char_of (unat b)) s else ''sess-????????????????'')"

subsection \<open>Frames\<close>

datatype (plugins only: size code) tunnel_frame =
    Register (reg_backend_id: string) (reg_pool: string) (reg_capabilities: "string list")
  | RegisterAck session_id
  | Heartbeat u64
  | HeartbeatAck
  | NewStream u64
  | HealthFrame string bool
  | Wake string u64
  | RefuseWake string
  | Shutdown string

definition CONTROL_CAPABILITY :: string where "CONTROL_CAPABILITY = ''control''"

definition tunnel_encode :: "('f \<Rightarrow> bytes) \<Rightarrow> 'f \<Rightarrow> bytes result" where
  "tunnel_encode bc_encode frame =
     (let payload = bc_encode frame in
      if 2 ^ 32 \<le> length payload
      then Inl (Tunnel (''frame payload too large: '' @ show_nat (length payload) @ '' bytes''))
      else if MAX_FRAME_SIZE < length payload
      then Inl (Tunnel (''frame too large: '' @ show_nat (length payload) @ '' bytes''))
      else Inr (be_bytes 4 (of_nat (length payload) :: u32) @ payload))"

definition tunnel_safe_decode :: "(bytes \<Rightarrow> 'f decode_outcome) \<Rightarrow> bytes \<Rightarrow> 'f result" where
  "tunnel_safe_decode bc_decode payload =
     (case bc_decode payload of
        DecodePanic \<Rightarrow> Inl (Tunnel ''decode panic (possibly oversized field)'')
      | DecodeError e \<Rightarrow> Inl (Tunnel (''decode error: '' @ e))
      | Decoded f \<Rightarrow> Inr f)"

definition tunnel_decode :: "(bytes \<Rightarrow> 'f decode_outcome) \<Rightarrow> bytes \<Rightarrow> 'f result" where
  "tunnel_decode bc_decode buf =
     (if length buf < TUNNEL_LENGTH_PREFIX_SIZE then Inl (Tunnel ''frame too short for length prefix'')
      else let len = unat (from_be_bytes (take 4 buf) :: u32);
               expected_total = min (TUNNEL_LENGTH_PREFIX_SIZE + len) (2 ^ 64 - 1)
           in if length buf < expected_total
              then Inl (Tunnel (''frame truncated: expected '' @ show_nat expected_total @ '' bytes, got '' @ show_nat (length buf)))
              else if MAX_FRAME_SIZE < len then Inl (Tunnel (''frame too large: '' @ show_nat len @ '' bytes''))
              else tunnel_safe_decode bc_decode (drop TUNNEL_LENGTH_PREFIX_SIZE (take expected_total buf)))"

definition tunnel_read_frame :: "(bytes \<Rightarrow> 'f decode_outcome) \<Rightarrow> reader \<Rightarrow> 'f result \<times> reader" where
  "tunnel_read_frame bc_decode r =
     io_bind (io_err (\<lambda>e. Tunnel (''read length: '' @ e)) (read_exact TUNNEL_LENGTH_PREFIX_SIZE r)) (\<lambda>len_buf r.
       let len = unat (from_be_bytes len_buf :: u32)
       in if MAX_FRAME_SIZE < len then (Inl (Tunnel (''frame too large: '' @ show_nat len @ '' bytes'')), r)
          else io_bind (io_err (\<lambda>e. Tunnel (''read payload: '' @ e)) (read_exact len r)) (\<lambda>payload r.
                 (tunnel_safe_decode bc_decode payload, r)))"

definition tunnel_write_frame :: "('f \<Rightarrow> bytes) \<Rightarrow> 'f \<Rightarrow> writer \<Rightarrow> unit result \<times> writer" where
  "tunnel_write_frame bc_encode frame w =
     (let payload = bc_encode frame in
      if 2 ^ 32 \<le> length payload
      then (Inl (Tunnel (''frame payload too large: '' @ show_nat (length payload) @ '' bytes'')), w)
      else if MAX_FRAME_SIZE < length payload
      then (Inl (Tunnel (''frame too large: '' @ show_nat (length payload) @ '' bytes'')), w)
      else io_bind (io_err (\<lambda>e. Tunnel (''write length: '' @ e)) (write_all (be_bytes 4 (of_nat (length payload) :: u32)) w)) (\<lambda>_ w.
           io_bind (io_err (\<lambda>e. Tunnel (''write payload: '' @ e)) (write_all payload w)) (\<lambda>_ w.
           io_err (\<lambda>e. Tunnel (''flush: '' @ e)) (flush w))))"

subsection \<open>Frames survive the stream\<close>

lemma tunnel_read_written:
  assumes "length (bc_encode f) \<le> MAX_FRAME_SIZE" and "bc_decode (bc_encode f) = Decoded f"
  shows "tunnel_read_frame bc_decode (be_bytes 4 (of_nat (length (bc_encode f)) :: u32) @ bc_encode f @ rest) = (Inr f, rest)"
  using assms by (simp add: tunnel_read_frame_def TUNNEL_LENGTH_PREFIX_SIZE_def MAX_FRAME_SIZE_def unat_len_u32
      Let_def tunnel_safe_decode_def)

lemma tunnel_write_frame_ok:
  assumes "tunnel_write_frame bc_encode f w = (Inr (), w')"
  shows "length (bc_encode f) \<le> MAX_FRAME_SIZE \<and>
    w_out w' = w_out w @ be_bytes 4 (of_nat (length (bc_encode f)) :: u32) @ bc_encode f"
proof -
  obtain w1 w2 where l: "length (bc_encode f) \<le> MAX_FRAME_SIZE"
      and w1: "write_all (be_bytes 4 (of_nat (length (bc_encode f)) :: u32)) w = (Inr (), w1)"
      and w2: "write_all (bc_encode f) w1 = (Inr (), w2)" and fl: "flush w2 = (Inr (), w')"
    using assms unfolding tunnel_write_frame_def
    by (auto simp: Let_def io_bind_ok io_err_ok split: if_splits)
  have "w' = w2" using arg_cong [OF fl, of snd] by simp
  then show ?thesis using l write_all_ok [OF w1] write_all_ok [OF w2] by simp
qed

interpretation tunnel_stream: framed_stream "tunnel_write_frame bc_encode" "tunnel_read_frame bc_decode"
    "\<lambda>f. bc_decode (bc_encode f) = Decoded f"
  for bc_encode :: "'f \<Rightarrow> bytes" and bc_decode :: "bytes \<Rightarrow> 'f decode_outcome"
proof unfold_locales
  fix f :: 'f and w w'
  assume "tunnel_write_frame bc_encode f w = (Inr (), w')" and "bc_decode (bc_encode f) = Decoded f"
  then show "\<exists>bs. w_out w' = w_out w @ bs \<and> (\<forall>rest. tunnel_read_frame bc_decode (bs @ rest) = (Inr f, rest))"
    using tunnel_write_frame_ok tunnel_read_written by (metis append_assoc)
qed

text \<open>
  Claim C39. Tunnel frames arrive complete and in order: when a sequence of frames was written without an
  error, reading the same number of frames from the bytes on the wire yields exactly that sequence and
  leaves whatever follows untouched, for any frames that bitcode decodes back from their encoding.
\<close>
theorem tunnel_frames_in_order:
  assumes "send_all (tunnel_write_frame bc_encode) fs w = (Inr (), w')"
    and "list_all (\<lambda>f. bc_decode (bc_encode f) = Decoded f) fs"
  shows "\<exists>bs. w_out w' = w_out w @ bs
    \<and> (\<forall>rest. receive_all (tunnel_read_frame bc_decode) (length fs) (bs @ rest) = (Inr fs, rest))"
  using assms by (rule tunnel_stream.in_order_delivery)

lemma tunnel_read_frame_iff:
  "fst (tunnel_read_frame bc_decode buf) = Inr f \<longleftrightarrow>
     4 \<le> length buf \<and> (let len = unat (from_be_bytes (take 4 buf) :: u32) in
       len \<le> MAX_FRAME_SIZE \<and> 4 + len \<le> length buf \<and> bc_decode (take len (drop 4 buf)) = Decoded f)"
  by (auto simp: tunnel_read_frame_def TUNNEL_LENGTH_PREFIX_SIZE_def Let_def read_exact_def tunnel_safe_decode_def
      split: decode_outcome.splits)

text \<open>
  The slice decoder and the stream decoder of the tunnel protocol accept the same frames, although
  they check length and size in different orders.
\<close>
theorem tunnel_decoders_agree:
  "(tunnel_decode bc_decode buf = Inr f) = (fst (tunnel_read_frame bc_decode buf) = Inr f)"
  unfolding tunnel_read_frame_iff tunnel_decode_def TUNNEL_LENGTH_PREFIX_SIZE_def Let_def u32_total drop_take
  by (auto simp: tunnel_safe_decode_def split: decode_outcome.splits)

subsection \<open>Preamble and session ids\<close>

lemma tunnel_preamble_roundtrip:
  assumes "tunnel_write_preamble w = (Inr (), w')"
  shows "\<exists>bs. w_out w' = w_out w @ bs \<and> tunnel_read_preamble (bs @ rest) = (Inr TUNNEL_VERSION, rest)"
proof -
  obtain w1 where w1: "write_all (TUNNEL_MAGIC @ [TUNNEL_VERSION]) w = (Inr (), w1)" and fl: "flush w1 = (Inr (), w')"
    using assms unfolding tunnel_write_preamble_def by (auto simp: io_bind_ok io_err_ok)
  have "w' = w1" using arg_cong [OF fl, of snd] by simp
  then have "w_out w' = w_out w @ (TUNNEL_MAGIC @ [TUNNEL_VERSION])" using write_all_ok [OF w1] by simp
  then show ?thesis
    by (rule_tac exI [of _ "TUNNEL_MAGIC @ [TUNNEL_VERSION]"])
      (simp add: tunnel_read_preamble_def TUNNEL_MAGIC_def TUNNEL_VERSION_def read_exact_def)
qed

lemma hex_fixed_length [simp]: "length (hex_fixed n v) = n"
  by (simp add: hex_fixed_def)

lemma hex_digit_inject: "a < 16 \<Longrightarrow> b < 16 \<Longrightarrow> hex_digit a = hex_digit b \<Longrightarrow> a = b"
  by (auto simp: hex_digit_def split: if_splits dest!: arg_cong [of _ _ "of_char :: char \<Rightarrow> nat"])

lemma hex_fixed_inject: "hex_fixed 16 v = hex_fixed 16 v' \<Longrightarrow> v = v'"
proof (rule bit_word_eqI)
  fix n
  assume eq: "hex_fixed 16 v = hex_fixed 16 v'" and "n < LENGTH(64)"
  then have n: "n div 4 < 16" by simp
  define i where "i = 15 - n div 4"
  have i: "i < 16" "4 * (16 - 1 - i) = 4 * (n div 4)" using n by (auto simp: i_def)
  let ?nib = "\<lambda>x :: u64. take_bit 4 (drop_bit (4 * (n div 4)) x)"
  have lt: "unat (?nib x) < 16" for x :: u64
    using take_bit_nat_less_exp [of 4 "unat (drop_bit (4 * (n div 4)) x)"]
    by (simp add: unsigned_take_bit_eq)
  have "hex_digit (unat (?nib v)) = hex_digit (unat (?nib v'))"
    using arg_cong [OF eq, of "\<lambda>l. l ! i"] i by (simp add: hex_fixed_def)
  then have "?nib v = ?nib v'" using hex_digit_inject [OF lt lt] by (metis word_unat_eq_iff)
  then have "bit (?nib v) (n mod 4) = bit (?nib v') (n mod 4)" by simp
  then show "bit v n = bit v' n" by (simp add: bit_simps)
qed

lemma hex_digit_ascii: "d < 16 \<Longrightarrow> of_char (hex_digit d) < (128 :: nat)"
  by (auto simp: hex_digit_def)

lemma hex_fixed_ascii: "list_all (\<lambda>c. of_char c < (128 :: nat)) (hex_fixed n v)"
proof -
  have "unat (take_bit 4 x) < 16" for x :: u64
    using take_bit_nat_less_exp [of 4 "unat x"] by (simp add: unsigned_take_bit_eq)
  then show ?thesis by (simp add: hex_fixed_def list_all_iff hex_digit_ascii)
qed

lemma as_str_ascii_bytes: "list_all (\<lambda>c. of_char c < (128 :: nat)) s \<Longrightarrow> session_id_as_str (ascii_bytes s) = s"
proof -
  assume a: "list_all (\<lambda>c. of_char c < (128 :: nat)) s"
  have u: "unat (of_nat (of_char c) :: u8) = of_char c" if "c \<in> set s" for c
    using a that by (simp add: list_all_iff unat_of_nat take_bit_nat_eq_self_iff order.strict_trans2)
  have "list_all (\<lambda>b. b < 128) (ascii_bytes s)"
    using a u by (auto simp: ascii_bytes_def list_all_iff word_less_nat_alt)
  moreover have "map (\<lambda>b. char_of (unat b)) (ascii_bytes s) = s"
    using u by (simp add: ascii_bytes_def o_def map_idI)
  ultimately show ?thesis by (simp add: session_id_as_str_def)
qed

text \<open>
  Session ids carry the full randomness: each 64-bit random value gives an id of exactly 21 bytes that
  prints as \<open>sess-\<close> and sixteen hex digits, and two different values never give the same id, so removal by
  id equality cannot hit another session through the encoding.
\<close>
theorem session_ids_distinct:
  "\<exists>sid. session_id_generate (Some (be_bytes 8 (v :: u64))) = Inr sid \<and> length sid = SESSION_ID_LEN
     \<and> session_id_as_str sid = ''sess-'' @ hex_fixed 16 v
     \<and> (session_id_generate (Some (be_bytes 8 v')) = Inr sid) = (v' = v)"
proof -
  have b: "from_be_bytes (be_bytes 8 x) = x" for x :: u64 by (rule from_be_bytes_be_bytes) simp
  have str: "session_id_as_str (ascii_bytes (''sess-'' @ hex_fixed 16 x)) = ''sess-'' @ hex_fixed 16 x" for x
    by (rule as_str_ascii_bytes) (use hex_fixed_ascii [of 16 x] in simp)
  have "ascii_bytes (''sess-'' @ hex_fixed 16 v') = ascii_bytes (''sess-'' @ hex_fixed 16 v) \<Longrightarrow> v' = v"
    using str hex_fixed_inject by (metis same_append_eq)
  moreover have "length (ascii_bytes (''sess-'' @ hex_fixed 16 v)) = SESSION_ID_LEN"
    by (simp add: ascii_bytes_def SESSION_ID_LEN_def)
  ultimately show ?thesis
    by (intro exI [of _ "ascii_bytes (''sess-'' @ hex_fixed 16 v)"] conjI)
      (auto simp: session_id_generate_def b str simp del: append_Cons)
qed

subsection \<open>A concrete run\<close>

definition demo_encode :: "tunnel_frame \<Rightarrow> bytes" where
  "demo_encode f = (case f of HeartbeatAck \<Rightarrow> [7] | _ \<Rightarrow> [])"

definition demo_decode :: "bytes \<Rightarrow> tunnel_frame decode_outcome" where
  "demo_decode bs = (if bs = [7] then Decoded HeartbeatAck else DecodePanic)"

definition demo_writer :: writer where
  "demo_writer = \<lparr>w_out = [], w_room = 100, w_flush_ok = True\<rparr>"

theorem tunnel_frames_in_order_witness:
  "\<exists>bs. w_out (snd (send_all (tunnel_write_frame demo_encode) [HeartbeatAck, HeartbeatAck] demo_writer)) = bs
    \<and> receive_all (tunnel_read_frame demo_decode) 2 (bs @ [1]) = (Inr [HeartbeatAck, HeartbeatAck], [1])"
proof -
  let ?w' = "demo_writer\<lparr>w_out := [0, 0, 0, 1, 7, 0, 0, 0, 1, 7], w_room := 90\<rparr>"
  have be: "be_bytes 4 (1 :: u32) = [0, 0, 0, 1]" by code_simp
  have s: "send_all (tunnel_write_frame demo_encode) [HeartbeatAck, HeartbeatAck] demo_writer = (Inr (), ?w')"
    by (simp add: tunnel_write_frame_def demo_encode_def demo_writer_def MAX_FRAME_SIZE_def write_all_def flush_def be)
  have g: "list_all (\<lambda>f. demo_decode (demo_encode f) = Decoded f) [HeartbeatAck, HeartbeatAck]"
    by (simp add: demo_encode_def demo_decode_def)
  show ?thesis using tunnel_frames_in_order [OF s g] unfolding s by (auto simp: demo_writer_def numeral_2_eq_2)
qed

end
