(* ===== verification/Registry.thy ===== *)
theory Registry
  imports Tunnel_Protocol Identity "HOL-Library.AList"
begin

section \<open>The tunnel registry (\<open>tunnel/registry.rs\<close>)\<close>

text \<open>
  Live tunnel sessions by backend. The concurrent maps are association lists, a QUIC connection is a handle
  whose closed state is an argument, the shared round-robin counter wraps at 64 bits, and frames sent
  to a session's control channel are returned as a list of (session, frame). \<open>wake_notify\<close> holds the
  backends that have a notifier, \<open>notified\<close> the notifications sent on them, in order.
  The lemmas: no backend exceeds its session cap, every session sits in the bucket of its own backend id,
  a stream is only ever opened on a live session of the requested backend, and deregistration and
  revocation remove exactly the named sessions.
\<close>

type_synonym connection = nat

record tunnel_session =
  ts_session_id :: session_id
  ts_backend_id :: string
  ts_pool :: string
  ts_remote_addr :: socket_addr
  ts_connected_at :: instant
  ts_last_heartbeat :: instant
  ts_connection :: connection
  ts_identity :: peer_identity
  ts_is_control_peer :: bool

definition REVOKED_REASON :: string where "REVOKED_REASON = ''revoked''"

record tunnel_registry =
  tr_sessions :: "(string \<times> tunnel_session list) list"
  tr_rr_counter :: u64
  tr_max_sessions_per_backend :: u32
  tr_wake_notify :: "string set"
  tr_control_peers :: "(session_id \<times> connection) list"
  tr_refused :: "string set"
  tr_notified :: "string list"

definition registry_new :: "u32 \<Rightarrow> tunnel_registry" where
  "registry_new mx = \<lparr>tr_sessions = [], tr_rr_counter = 0, tr_max_sessions_per_backend = mx, tr_wake_notify = {}, tr_control_peers = [],
     tr_refused = {}, tr_notified = []\<rparr>"

definition notify_session_waiters :: "string \<Rightarrow> tunnel_registry \<Rightarrow> tunnel_registry" where
  "notify_session_waiters k r = (if k \<in> tr_wake_notify r then r\<lparr>tr_notified := tr_notified r @ [k]\<rparr> else r)"

text \<open>The notifier of a backend, created on first use; \<open>False\<close>: the id is too long to have one.\<close>

definition wake_handle :: "string \<Rightarrow> tunnel_registry \<Rightarrow> tunnel_registry \<times> bool" where
  "wake_handle k r =
     (case array_string_from 256 k of
        Some i \<Rightarrow> (r\<lparr>tr_wake_notify := insert i (tr_wake_notify r)\<rparr>, True)
      | None \<Rightarrow> (r, False))"

definition note_refusal :: "string \<Rightarrow> tunnel_registry \<Rightarrow> tunnel_registry" where
  "note_refusal k r =
     (case array_string_from 256 k of
        Some i \<Rightarrow> notify_session_waiters k (r\<lparr>tr_refused := insert i (tr_refused r)\<rparr>)
      | None \<Rightarrow> r)"

definition take_refusal :: "string \<Rightarrow> tunnel_registry \<Rightarrow> tunnel_registry \<times> bool" where
  "take_refusal k r = (r\<lparr>tr_refused := tr_refused r - {k}\<rparr>, k \<in> tr_refused r)"

definition wake_frame :: "string \<Rightarrow> u64 \<Rightarrow> tunnel_frame option" where
  "wake_frame k timeout_ms = map_option (\<lambda>i. Wake i timeout_ms) (array_string_from 256 k)"

text \<open>
  \<open>open_uni\<close> and \<open>write_ok\<close>: whether opening a stream to the peer and writing the frame succeed within
  the dispatch timeout. The result is the frames delivered.
\<close>

definition dispatch_wake :: "(connection \<Rightarrow> bool) \<Rightarrow> (connection \<Rightarrow> bool) \<Rightarrow> string \<Rightarrow> u64 \<Rightarrow> tunnel_registry
    \<Rightarrow> (connection \<times> tunnel_frame) list" where
  "dispatch_wake open_uni write_ok k timeout_ms r =
     (case wake_frame k timeout_ms of
        None \<Rightarrow> []
      | Some f \<Rightarrow> map (\<lambda>conn. (conn, f)) (filter (\<lambda>conn. open_uni conn \<and> write_ok conn) (map snd (tr_control_peers r))))"

definition bucket :: "tunnel_registry \<Rightarrow> string \<Rightarrow> tunnel_session list" where
  "bucket r k = (case map_of (tr_sessions r) k of Some ss \<Rightarrow> ss | None \<Rightarrow> [])"

definition register :: "tunnel_session \<Rightarrow> tunnel_registry \<Rightarrow> tunnel_registry \<times> unit result" where
  "register s r =
     (let k = ts_backend_id s; entry = bucket r k in
      if unat (tr_max_sessions_per_backend r) \<le> length entry
      then (r\<lparr>tr_sessions := AList.update k entry (tr_sessions r)\<rparr>,
            Inl (Tunnel (''max sessions ('' @ show_nat (unat (tr_max_sessions_per_backend r)) @ '') reached for backend '' @ k)))
      else let r1 = r\<lparr>tr_sessions := AList.update k (entry @ [s]) (tr_sessions r)\<rparr>;
               r2 = (if ts_is_control_peer s
                     then r1\<lparr>tr_control_peers := AList.update (ts_session_id s) (ts_connection s) (tr_control_peers r1)\<rparr>
                     else r1)
           in (notify_session_waiters k r2, Inr ()))"

definition deregister :: "string \<Rightarrow> session_id \<Rightarrow> tunnel_registry \<Rightarrow> tunnel_registry \<times> bool" where
  "deregister k sid r0 =
     (let r = r0\<lparr>tr_control_peers := AList.delete sid (tr_control_peers r0)\<rparr>
      in case map_of (tr_sessions r) k of
           None \<Rightarrow> (r, False)
         | Some entry \<Rightarrow>
             let kept = filter (\<lambda>s. ts_session_id s \<noteq> sid) entry;
                 removed = length kept < length entry
             in (r\<lparr>tr_sessions := (if kept = [] then AList.delete k (tr_sessions r) else AList.update k kept (tr_sessions r))\<rparr>,
                 removed))"

definition deregister_all :: "string \<Rightarrow> tunnel_registry \<Rightarrow> tunnel_registry \<times> nat" where
  "deregister_all k r = (r\<lparr>tr_sessions := AList.delete k (tr_sessions r)\<rparr>, length (bucket r k))"

text \<open>One bucket of the sweep, and the sweep over all buckets.\<close>

definition revoke_bucket :: "revocation_set \<Rightarrow> tunnel_session list \<Rightarrow> tunnel_session list \<times> (session_id \<times> tunnel_frame) list" where
  "revoke_bucket revocation entry =
     (filter (\<lambda>s. \<not> is_revoked revocation (ts_identity s)) entry,
      map (\<lambda>s. (ts_session_id s, Shutdown REVOKED_REASON)) (filter (\<lambda>s. is_revoked revocation (ts_identity s)) entry))"

definition revoke_matching :: "revocation_set \<Rightarrow> tunnel_registry \<Rightarrow> tunnel_registry \<times> nat \<times> (session_id \<times> tunnel_frame) list" where
  "revoke_matching revocation r =
     (let swept = map (\<lambda>(k, entry). (k, revoke_bucket revocation entry)) (tr_sessions r);
          sent = concat (map (\<lambda>(k, kept, out). out) swept)
      in (r\<lparr>tr_sessions := filter (\<lambda>(k, ss). ss \<noteq> []) (map (\<lambda>(k, kept, out). (k, kept)) swept)\<rparr>, length sent, sent))"

fun stamp_first :: "instant \<Rightarrow> session_id \<Rightarrow> tunnel_session list \<Rightarrow> tunnel_session list option" where
  "stamp_first now sid [] = None"
| "stamp_first now sid (s # ss) =
     (if ts_session_id s = sid then Some (s\<lparr>ts_last_heartbeat := now\<rparr> # ss)
      else map_option (Cons s) (stamp_first now sid ss))"

definition record_heartbeat :: "instant \<Rightarrow> string \<Rightarrow> session_id \<Rightarrow> tunnel_registry \<Rightarrow> tunnel_registry \<times> bool" where
  "record_heartbeat now k sid r =
     (case stamp_first now sid (bucket r k) of
        Some ss \<Rightarrow> (r\<lparr>tr_sessions := AList.update k ss (tr_sessions r)\<rparr>, True)
      | None \<Rightarrow> (r, False))"

definition last_heartbeat :: "string \<Rightarrow> session_id \<Rightarrow> tunnel_registry \<Rightarrow> instant option" where
  "last_heartbeat k sid r = map_option ts_last_heartbeat (List.find (\<lambda>s. ts_session_id s = sid) (bucket r k))"

definition is_tunnel_backend :: "string \<Rightarrow> tunnel_registry \<Rightarrow> bool" where
  "is_tunnel_backend k r \<longleftrightarrow> bucket r k \<noteq> []"

definition session_count :: "string \<Rightarrow> tunnel_registry \<Rightarrow> nat" where
  "session_count k r = length (bucket r k)"

definition total_sessions :: "tunnel_registry \<Rightarrow> nat" where
  "total_sessions r = sum_list (map (\<lambda>(k, ss). length ss) (tr_sessions r))"

text \<open>\<open>is_closed\<close>: which connections quinn reports as closed; \<open>open_bi\<close>: the outcome of opening a stream.\<close>

definition acquire_stream :: "(connection \<Rightarrow> bool) \<Rightarrow> (connection \<Rightarrow> string + 'q) \<Rightarrow> string \<Rightarrow> tunnel_registry
    \<Rightarrow> tunnel_registry \<times> 'q result" where
  "acquire_stream is_closed open_bi k r =
     (case map_of (tr_sessions r) k of
        None \<Rightarrow> (r, Inl (NoBackendSession k))
      | Some sessions \<Rightarrow>
          if sessions = [] then (r, Inl (NoBackendSession k))
          else let idx = unat (tr_rr_counter r) mod length sessions;
                   r1 = r\<lparr>tr_rr_counter := tr_rr_counter r + 1\<rparr>;
                   session = sessions ! idx
               in if is_closed (ts_connection session)
                  then (fst (deregister k (ts_session_id session) r1), Inl (Tunnel ''tunnel connection closed''))
                  else case open_bi (ts_connection session) of
                         Inl e \<Rightarrow> (r1, Inl (Tunnel (''open stream: '' @ e)))
                       | Inr q \<Rightarrow> (r1, Inr q))"

definition shutdown_all :: "tunnel_registry \<Rightarrow> tunnel_registry \<times> (session_id \<times> tunnel_frame) list \<times> connection list" where
  "shutdown_all r =
     (let ss = concat (map snd (tr_sessions r))
      in (r\<lparr>tr_sessions := []\<rparr>, map (\<lambda>s. (ts_session_id s, Shutdown ''proxy shutting down'')) ss, map ts_connection ss))"

subsection \<open>Operations by bucket\<close>

lemma bucket_update [simp]: "bucket (r\<lparr>tr_sessions := AList.update k ss (tr_sessions r)\<rparr>) = (bucket r)(k := ss)"
  by (auto simp: bucket_def update_conv fun_eq_iff)

lemma bucket_delete [simp]: "bucket (r\<lparr>tr_sessions := AList.delete k (tr_sessions r)\<rparr>) = (bucket r)(k := [])"
  by (auto simp: bucket_def delete_conv fun_eq_iff)

lemma bucket_other [simp]:
  "bucket (r\<lparr>tr_control_peers := cp\<rparr>) = bucket r" "bucket (r\<lparr>tr_notified := n\<rparr>) = bucket r"
  "bucket (r\<lparr>tr_rr_counter := c\<rparr>) = bucket r" "bucket (r\<lparr>tr_refused := f\<rparr>) = bucket r"
  "bucket (r\<lparr>tr_wake_notify := w\<rparr>) = bucket r"
  by (simp_all add: bucket_def fun_eq_iff)

lemma register_ok:
  assumes "register s r = (r', Inr u)"
  shows "bucket r' = (bucket r)(ts_backend_id s := bucket r (ts_backend_id s) @ [s])
    \<and> length (bucket r (ts_backend_id s)) < unat (tr_max_sessions_per_backend r)"
  using assms by (auto simp: register_def Let_def notify_session_waiters_def split: if_splits)

lemma register_refused:
  assumes "register s r = (r', Inl e)" shows "bucket r' = bucket r"
  using assms by (auto simp: register_def Let_def notify_session_waiters_def fun_eq_iff split: if_splits)

lemma bucket_deregister: "bucket (fst (deregister k sid r)) = (bucket r)(k := filter (\<lambda>s. ts_session_id s \<noteq> sid) (bucket r k))"
proof (cases "map_of (tr_sessions r) k")
  case None
  then show ?thesis by (auto simp: deregister_def bucket_def fun_eq_iff)
next
  case (Some entry)
  then have "bucket r k = entry" by (simp add: bucket_def)
  then show ?thesis using Some by (auto simp: deregister_def Let_def fun_eq_iff bucket_def update_conv delete_conv)
qed

lemma map_of_map_snd: "map_of (map (\<lambda>(k, v). (k, f v)) al) k = map_option f (map_of al k)"
  by (induction al) auto

lemma map_of_filter_snd:
  "distinct (map fst al) \<Longrightarrow> map_of (filter (\<lambda>(k, v). P v) al) k = (case map_of al k of Some v \<Rightarrow> if P v then Some v else None | None \<Rightarrow> None)"
  by (induction al) (auto simp: map_of_eq_None_iff image_iff split: option.splits)

lemma bucket_revoke_matching:
  assumes "distinct (map fst (tr_sessions r))"
  shows "bucket (fst (revoke_matching revocation r)) k = filter (\<lambda>s. \<not> is_revoked revocation (ts_identity s)) (bucket r k)"
proof -
  let ?f = "\<lambda>entry. fst (revoke_bucket revocation entry)"
  have m: "map (\<lambda>(k, kept, out). (k, kept)) (map (\<lambda>(k, entry). (k, revoke_bucket revocation entry)) (tr_sessions r)) =
      map (\<lambda>(k, entry). (k, ?f entry)) (tr_sessions r)"
    by (auto simp: revoke_bucket_def)
  have d: "distinct (map fst (map (\<lambda>(k, entry). (k, ?f entry)) (tr_sessions r)))"
    using assms by (simp add: case_prod_beta comp_def)
  show ?thesis
    unfolding revoke_matching_def Let_def m
    using map_of_filter_snd [OF d, of "\<lambda>ss. ss \<noteq> []" k]
    by (auto simp: bucket_def map_of_map_snd revoke_bucket_def split: option.splits if_splits)
qed

definition registry_ok :: "tunnel_registry \<Rightarrow> bool" where
  "registry_ok r \<longleftrightarrow> distinct (map fst (tr_sessions r))
     \<and> (\<forall>k. length (bucket r k) \<le> unat (tr_max_sessions_per_backend r) \<and> (\<forall>s\<in>set (bucket r k). ts_backend_id s = k))"

lemma registry_okI:
  assumes "registry_ok r" and "distinct (map fst (tr_sessions r'))"
    and "tr_max_sessions_per_backend r' = tr_max_sessions_per_backend r"
    and "\<And>k. set (bucket r' k) \<subseteq> set (bucket r k) \<and> length (bucket r' k) \<le> length (bucket r k)"
  shows "registry_ok r'"
  using assms unfolding registry_ok_def by (metis le_trans subset_iff)

lemma distinct_keys [simp]:
  "distinct (map fst al) \<Longrightarrow> distinct (map fst (AList.update k v al))"
  "distinct (map fst al) \<Longrightarrow> distinct (map fst (AList.delete k al))"
  by (simp_all add: distinct_update distinct_delete)

lemma register_invariant:
  assumes "registry_ok r" shows "registry_ok (fst (register s r))"
proof -
  have d: "distinct (map fst (tr_sessions (fst (register s r))))"
    using assms by (auto simp: register_def Let_def notify_session_waiters_def registry_ok_def)
  have m: "tr_max_sessions_per_backend (fst (register s r)) = tr_max_sessions_per_backend r"
    by (simp add: register_def Let_def notify_session_waiters_def)
  obtain r' res where e: "register s r = (r', res)" by fastforce
  show ?thesis
  proof (cases res)
    case (Inl err)
    then show ?thesis using assms d m register_refused e by (auto simp: registry_ok_def)
  next
    case (Inr u)
    then show ?thesis using assms d m register_ok [of s r r' u] e by (auto simp: registry_ok_def)
  qed
qed

lemma deregister_invariant: "registry_ok r \<Longrightarrow> registry_ok (fst (deregister k sid r))"
proof (rule registry_okI [where r = r])
  assume ok: "registry_ok r"
  then show "distinct (map fst (tr_sessions (fst (deregister k sid r))))"
    by (auto simp: registry_ok_def deregister_def Let_def split: option.split)
  show "tr_max_sessions_per_backend (fst (deregister k sid r)) = tr_max_sessions_per_backend r"
    by (simp add: deregister_def Let_def split: option.split)
qed (auto simp: bucket_deregister)

lemma revoke_invariant: "registry_ok r \<Longrightarrow> registry_ok (fst (revoke_matching revocation r))"
proof (rule registry_okI [where r = r])
  assume ok: "registry_ok r"
  then have d: "distinct (map fst (tr_sessions r))" by (simp add: registry_ok_def)
  have "distinct (map fst (filter P (map (\<lambda>(k, entry). (k, f entry)) (tr_sessions r))))" for P f
    by (rule distinct_map_filter) (use d in \<open>simp add: case_prod_beta comp_def\<close>)
  note keep = this [of "\<lambda>(k, ss). ss \<noteq> []" "\<lambda>entry. fst (revoke_bucket revocation entry)"]
  show "distinct (map fst (tr_sessions (fst (revoke_matching revocation r))))"
    using keep by (simp add: revoke_matching_def Let_def comp_def split_def)
  show "set (bucket (fst (revoke_matching revocation r)) k) \<subseteq> set (bucket r k)
      \<and> length (bucket (fst (revoke_matching revocation r)) k) \<le> length (bucket r k)" for k
    by (auto simp: bucket_revoke_matching [OF d])
  show "tr_max_sessions_per_backend (fst (revoke_matching revocation r)) = tr_max_sessions_per_backend r"
    by (simp add: revoke_matching_def Let_def)
qed

lemma stamp_first_same: "stamp_first now sid ss = Some ss' \<Longrightarrow> map ts_backend_id ss' = map ts_backend_id ss"
  by (induction ss arbitrary: ss') (auto split: if_splits)

lemma bucket_heartbeat: "map ts_backend_id (bucket (fst (record_heartbeat now k sid r)) k') = map ts_backend_id (bucket r k')"
  by (auto simp: record_heartbeat_def split: option.split dest: stamp_first_same)

lemma heartbeat_invariant: "registry_ok r \<Longrightarrow> registry_ok (fst (record_heartbeat now k sid r))"
proof -
  assume ok: "registry_ok r"
  let ?r = "fst (record_heartbeat now k sid r)"
  have "length (bucket ?r k') = length (bucket r k') \<and> ts_backend_id ` set (bucket ?r k') = ts_backend_id ` set (bucket r k')" for k'
    using arg_cong [OF bucket_heartbeat [of now k sid r k'], of length]
      arg_cong [OF bucket_heartbeat [of now k sid r k'], of set] by simp
  moreover have "distinct (map fst (tr_sessions ?r))" "tr_max_sessions_per_backend ?r = tr_max_sessions_per_backend r"
    using ok by (simp_all add: registry_ok_def record_heartbeat_def split: option.split)
  ultimately show ?thesis using ok unfolding registry_ok_def by (metis imageE imageI)
qed

lemma deregister_all_invariant: "registry_ok r \<Longrightarrow> registry_ok (fst (deregister_all k r))"
  by (auto simp: registry_ok_def deregister_all_def)

lemma acquire_invariant: "registry_ok r \<Longrightarrow> registry_ok (fst (acquire_stream is_closed open_bi k r))"
proof -
  assume ok: "registry_ok r"
  have c: "registry_ok (r\<lparr>tr_rr_counter := n\<rparr>)" for n using ok by (simp add: registry_ok_def)
  then show ?thesis
    using ok deregister_invariant [OF c] by (auto simp: acquire_stream_def Let_def split: option.split sum.split)
qed

text \<open>Any sequence of registry calls.\<close>

datatype registry_op =
    RRegister tunnel_session
  | RDeregister string session_id
  | RDeregisterAll string
  | RRevoke revocation_set
  | RHeartbeat instant string session_id
  | RAcquire "connection set" string
  | RRefuse string
  | RTakeRefusal string
  | RWakeHandle string
  | RShutdown

fun registry_step :: "registry_op \<Rightarrow> tunnel_registry \<Rightarrow> tunnel_registry" where
  "registry_step (RRegister s) r = fst (register s r)"
| "registry_step (RDeregister k sid) r = fst (deregister k sid r)"
| "registry_step (RDeregisterAll k) r = fst (deregister_all k r)"
| "registry_step (RRevoke rv) r = fst (revoke_matching rv r)"
| "registry_step (RHeartbeat now k sid) r = fst (record_heartbeat now k sid r)"
| "registry_step (RAcquire dead k) r = fst (acquire_stream (\<lambda>c. c \<in> dead) (\<lambda>c. Inr c) k r)"
| "registry_step (RRefuse k) r = note_refusal k r"
| "registry_step (RTakeRefusal k) r = fst (take_refusal k r)"
| "registry_step (RWakeHandle k) r = fst (wake_handle k r)"
| "registry_step RShutdown r = fst (shutdown_all r)"

lemma registry_okD: "registry_ok r \<Longrightarrow> registry_ok (r\<lparr>tr_refused := f\<rparr>)" "registry_ok r \<Longrightarrow> registry_ok (r\<lparr>tr_notified := n\<rparr>)"
    "registry_ok r \<Longrightarrow> registry_ok (r\<lparr>tr_wake_notify := w\<rparr>)"
  by (simp_all add: registry_ok_def)

lemma registry_step_ok: "registry_ok r \<Longrightarrow> registry_ok (registry_step op r)"
proof (cases op)
  case RShutdown
  then show ?thesis by (simp add: shutdown_all_def registry_ok_def bucket_def Let_def)
next
  case (RRefuse k)
  moreover assume "registry_ok r"
  ultimately show ?thesis by (simp add: note_refusal_def notify_session_waiters_def registry_okD split: option.split)
next
  case (RWakeHandle k)
  moreover assume "registry_ok r"
  ultimately show ?thesis by (simp add: wake_handle_def registry_okD split: option.split)
qed (simp_all add: register_invariant deregister_invariant deregister_all_invariant revoke_invariant heartbeat_invariant
    acquire_invariant take_refusal_def registry_okD)

lemma acquire_live:
  assumes "snd (acquire_stream is_closed open_bi k r) = Inr q"
  shows "\<exists>s. s \<in> set (bucket r k) \<and> \<not> is_closed (ts_connection s) \<and> open_bi (ts_connection s) = Inr q"
proof -
  obtain ss where ss: "map_of (tr_sessions r) k = Some ss" "ss \<noteq> []"
    using assms by (auto simp: acquire_stream_def split: option.splits if_splits)
  let ?s = "ss ! (unat (tr_rr_counter r) mod length ss)"
  have "?s \<in> set (bucket r k)" using ss by (simp add: bucket_def)
  then show ?thesis
    using assms ss by (intro exI [of _ ?s]) (auto simp: acquire_stream_def Let_def split: if_splits sum.splits)
qed

text \<open>
  Claim C34. The registry's caps and buckets hold: after any sequence of registry calls on a fresh registry, no
  backend has more sessions than the configured maximum and every session is stored under its own
  backend id, so a stream for one backend is never opened on another backend's connection.
\<close>
theorem registry_capped:
  assumes "r = fold registry_step calls (registry_new mx)"
  shows "session_count k r \<le> unat mx \<and> (\<forall>s\<in>set (bucket r k). ts_backend_id s = k)
    \<and> (snd (acquire_stream is_closed open_bi k r) = Inr q \<longrightarrow>
        (\<exists>s. s \<in> set (bucket r k) \<and> ts_backend_id s = k \<and> \<not> is_closed (ts_connection s) \<and> open_bi (ts_connection s) = Inr q))"
proof -
  have "registry_ok (fold registry_step calls r0) \<and> tr_max_sessions_per_backend (fold registry_step calls r0) = tr_max_sessions_per_backend r0"
    if "registry_ok r0" for r0
    using that
  proof (induction calls arbitrary: r0)
    case (Cons op calls)
    have "tr_max_sessions_per_backend (registry_step op r0) = tr_max_sessions_per_backend r0"
      by (cases op) (simp_all add: register_def deregister_def deregister_all_def revoke_matching_def record_heartbeat_def
          acquire_stream_def note_refusal_def take_refusal_def wake_handle_def shutdown_all_def notify_session_waiters_def Let_def
          split: option.split)
    then show ?case using Cons.IH [OF registry_step_ok [OF Cons.prems]] by simp
  qed simp
  moreover have "registry_ok (registry_new mx)" by (simp add: registry_ok_def registry_new_def bucket_def)
  ultimately have ok: "registry_ok r" and mx: "tr_max_sessions_per_backend r = mx"
    using assms by (auto simp: registry_new_def)
  show ?thesis using ok mx acquire_live [of is_closed open_bi k r q] unfolding registry_ok_def session_count_def by metis
qed

definition demo_session :: tunnel_session where
  "demo_session = \<lparr>ts_session_id = [1], ts_backend_id = ''b'', ts_pool = ''p'', ts_remote_addr = \<lparr>sa_ip = V4 1, sa_port = 2\<rparr>,
     ts_connected_at = 0, ts_last_heartbeat = 0, ts_connection = 7,
     ts_identity = \<lparr>common_name = ''b'', spki_sha256 = []\<rparr>, ts_is_control_peer = False\<rparr>"

theorem registry_capped_witness:
  "let r = fold registry_step [RRegister demo_session, RRegister demo_session] (registry_new 1)
   in session_count ''b'' r = 1 \<and> snd (acquire_stream (\<lambda>c. False) (\<lambda>c. Inr c :: string + nat) ''b'' r) = Inr 7
      \<and> (\<exists>s. s \<in> set (bucket r ''b'') \<and> ts_connection s = 7)"
proof -
  define r where "r = fold registry_step [RRegister demo_session, RRegister demo_session] (registry_new 1)"
  have b: "bucket r ''b'' = [demo_session]" "tr_sessions r = [(''b'', [demo_session])]"
    by (simp_all add: r_def register_def registry_new_def demo_session_def bucket_def notify_session_waiters_def Let_def)
  have a: "snd (acquire_stream (\<lambda>c. False) (\<lambda>c. Inr c :: string + nat) ''b'' r) = Inr 7"
    using b by (simp add: acquire_stream_def demo_session_def Let_def)
  have "\<exists>s. s \<in> set (bucket r ''b'') \<and> ts_connection s = 7"
    using registry_capped [OF r_def, of "''b''" "\<lambda>c. False" "\<lambda>c. Inr c :: string + nat" 7] a by auto
  then show ?thesis using a b unfolding r_def [symmetric] Let_def session_count_def by simp
qed

subsection \<open>Round robin\<close>








end
