(* ===== verification/Registration.thy ===== *)
theory Registration
  imports Registry Health Access Timed
begin

section \<open>Tunnel registration (\<open>tunnel/listener/registration.rs\<close>, \<open>tunnel/listener.rs\<close>)\<close>

text \<open>
  The pipeline establish, admit, commit and the control loop of one tunnel connection, followed by the race
  between registration and the revocation sweep (\<open>startup/background.rs\<close>). The environment answers
  with timeouts, stream contents, write outcomes, clock readings and the random bytes of the session id;
  \<open>display\<close> is the text of an error. The theorems: a committed session is bound to its certificate, passed
  every gate and is acknowledged, and a refused one leaves the registry as it was; no interleaving of
  registrations and revocation updates leaves an acknowledged revoked session once the sweep is done;
  only heartbeats move a session's deadline, and only control peers steer health.
\<close>

subsection \<open>Limits\<close>

definition REJECT_REASON_CN_MISMATCH :: string where "REJECT_REASON_CN_MISMATCH = ''cn_mismatch''"
definition REJECT_REASON_ALLOWLIST :: string where "REJECT_REASON_ALLOWLIST = ''allowlist''"
definition REJECT_REASON_REVOKED :: string where "REJECT_REASON_REVOKED = ''revoked''"
definition REJECT_REASON_GLOBAL_CAP :: string where "REJECT_REASON_GLOBAL_CAP = ''global_cap''"
definition REJECT_REASON_BACKEND_CAP :: string where "REJECT_REASON_BACKEND_CAP = ''backend_cap''"
definition REJECT_REASON_PENDING_CAP :: string where "REJECT_REASON_PENDING_CAP = ''pending_cap''"
definition REJECT_REASON_VERSION :: string where "REJECT_REASON_VERSION = ''version''"
definition MAX_CONCURRENT_PENDING_REGISTRATIONS :: nat where "MAX_CONCURRENT_PENDING_REGISTRATIONS = 128"
definition TUNNEL_IDLE_GRACE_SECS :: u64 where "TUNNEL_IDLE_GRACE_SECS = 15"

definition TUNNEL_CLIENT_BIDI_STREAMS :: u32 where "TUNNEL_CLIENT_BIDI_STREAMS = 4"
definition TUNNEL_UNI_STREAMS :: u32 where "TUNNEL_UNI_STREAMS = 0"
definition TUNNEL_RECEIVE_WINDOW_BYTES :: u32 where "TUNNEL_RECEIVE_WINDOW_BYTES = 8 * 1024 * 1024"

record 'i transport_config =
  tc_max_idle_timeout :: 'i
  tc_max_concurrent_bidi_streams :: u32
  tc_max_concurrent_uni_streams :: u32
  tc_receive_window :: u32

text \<open>\<open>idle_try_from\<close> is quinn's conversion of a duration to an idle timeout.\<close>

definition tunnel_transport_config :: "(duration \<Rightarrow> 'i option) \<Rightarrow> tunnel_config \<Rightarrow> 'i transport_config result" where
  "tunnel_transport_config idle_try_from cfg =
     (let idle_secs = saturating_add (tnc_heartbeat_timeout_secs cfg) TUNNEL_IDLE_GRACE_SECS
      in case idle_try_from (from_secs (unat idle_secs)) of
           None \<Rightarrow> Inl (Tunnel (''tunnel.heartbeat_timeout_secs too large for a QUIC idle timeout: '' @ show_nat (unat idle_secs) @ ''s''))
         | Some idle \<Rightarrow> Inr \<lparr>tc_max_idle_timeout = idle, tc_max_concurrent_bidi_streams = TUNNEL_CLIENT_BIDI_STREAMS,
               tc_max_concurrent_uni_streams = TUNNEL_UNI_STREAMS, tc_receive_window = TUNNEL_RECEIVE_WINDOW_BYTES\<rparr>)"

definition exceeds_session_cap :: "nat \<Rightarrow> u32 option \<Rightarrow> bool" where
  "exceeds_session_cap current cap = (case cap of None \<Rightarrow> False | Some limit \<Rightarrow> unat limit \<le> current)"

subsection \<open>Accepting connections\<close>

record 'r accept_state =
  as_limiter :: "'r option"
  as_pending :: nat
  as_rate_limited :: nat
  as_rejected :: "string list"
  as_spawned :: "socket_addr list"

definition accept_incoming :: "(ip_addr \<Rightarrow> 'r \<Rightarrow> 'r \<times> bool) \<Rightarrow> socket_addr \<Rightarrow> 'r accept_state \<Rightarrow> 'r accept_state" where
  "accept_incoming check_key remote s =
     (let (s1, allowed) = (case as_limiter s of
            None \<Rightarrow> (s, True)
          | Some l \<Rightarrow> (case rate_limit_check check_key (sa_ip remote) l of (l', res) \<Rightarrow> (s\<lparr>as_limiter := Some l'\<rparr>, \<not> isl res)))
      in if \<not> allowed then s1\<lparr>as_rate_limited := as_rate_limited s1 + 1\<rparr>
         else if as_pending s1 = 0 then s1\<lparr>as_rejected := as_rejected s1 @ [REJECT_REASON_PENDING_CAP]\<rparr>
         else s1\<lparr>as_pending := as_pending s1 - 1, as_spawned := as_spawned s1 @ [remote]\<rparr>)"

subsection \<open>Establishing\<close>

definition accept_registration_stream :: "(reduction_error \<Rightarrow> string) \<Rightarrow> (string + connection) timed
    \<Rightarrow> (connection \<Rightarrow> peer_identity result) \<Rightarrow> (string + unit) timed \<Rightarrow> (connection \<times> peer_identity) result" where
  "accept_registration_stream display handshake identity_of control =
     bind_res (timed_res Tunnel ''tunnel handshake timed out'' ''handshake failed: '' handshake) (\<lambda>connection.
     bind_res (case identity_of connection of Inl e \<Rightarrow> Inl (Tunnel (''peer identity: '' @ display e)) | Inr i \<Rightarrow> Inr i) (\<lambda>ident.
     bind_res (timed_res Tunnel ''control stream timed out'' ''accept control stream: '' control) (\<lambda>_.
     Inr (connection, ident))))"

record established =
  es_connection :: connection
  es_identity :: peer_identity
  es_remote_addr :: socket_addr
  es_backend_id :: string
  es_pool :: string
  es_capabilities :: "string list"

text \<open>What one connection's task owns or shares: the registry, its metrics, its permit and the frames it wrote.\<close>

record reg_state =
  rg_registry :: tunnel_registry
  rg_rejected :: "string list"
  rg_pending :: bool
  rg_sent :: "tunnel_frame list"
  rg_sessions_active :: int
  rg_duplicates :: nat

text \<open>Outcomes of the environment: a drain slot was free, a bounded control write succeeded.\<close>

record reject_env =
  rj_drain_slot :: bool
  rj_write_ok :: bool

definition reject_and_close :: "reject_env \<Rightarrow> string \<Rightarrow> reg_state \<Rightarrow> reg_state" where
  "reject_and_close env reason s =
     (if rj_drain_slot env \<and> rj_write_ok env
      then s\<lparr>rg_sent := rg_sent s @ [Shutdown (case array_string_from 64 reason of Some r \<Rightarrow> r | None \<Rightarrow> [])]\<rparr>
      else s)"

definition reject_registration :: "reject_env \<Rightarrow> string \<Rightarrow> string \<Rightarrow> reduction_error \<Rightarrow> reg_state \<Rightarrow> reg_state \<times> reduction_error" where
  "reject_registration env reason close_msg err s =
     (reject_and_close env close_msg (s\<lparr>rg_rejected := rg_rejected s @ [reason], rg_pending := False\<rparr>), err)"

definition reject :: "reject_env \<Rightarrow> string \<Rightarrow> string \<Rightarrow> reduction_error \<Rightarrow> reg_state \<Rightarrow> 'a result \<times> reg_state" where
  "reject env reason close_msg err s = (case reject_registration env reason close_msg err s of (s', e) \<Rightarrow> (Inl e, s'))"

definition establish_registration :: "(reduction_error \<Rightarrow> string) \<Rightarrow> (bytes \<Rightarrow> tunnel_frame decode_outcome) \<Rightarrow> (tunnel_frame \<Rightarrow> string)
    \<Rightarrow> (connection \<times> peer_identity) result \<Rightarrow> socket_addr \<Rightarrow> bool \<times> bool \<times> bool \<Rightarrow> reader \<Rightarrow> writer \<Rightarrow> reject_env
    \<Rightarrow> reg_state \<Rightarrow> established result \<times> reg_state" where
  "establish_registration display bc_decode debug accepted remote_addr timeouts r w env s =
     (case accepted of
        Inl e \<Rightarrow> (Inl e, s)
      | Inr (connection, ident) \<Rightarrow>
          (case timeouts of (t_preamble, t_write, t_register) \<Rightarrow>
           (case (if t_preamble then (Inl (Tunnel ''preamble timed out''), r) else tunnel_read_preamble r) of
              (Inl e, _) \<Rightarrow> (Inl e, s)
            | (Inr peer_version, r) \<Rightarrow>
                if peer_version \<noteq> TUNNEL_VERSION
                then reject env REJECT_REASON_VERSION ''unsupported protocol version''
                       (Tunnel (''unsupported protocol version '' @ show_nat (unat peer_version))) s
                else (case (if t_write then Inl (Tunnel ''write preamble stalled'') else fst (tunnel_write_preamble w)) of
                        Inl e \<Rightarrow> (Inl e, s)
                      | Inr _ \<Rightarrow>
                          (case (if t_register then Inl (Tunnel ''registration timed out'')
                                 else case fst (tunnel_read_frame bc_decode r) of
                                        Inl e \<Rightarrow> Inl (Tunnel (''read register frame: '' @ display e)) | Inr f \<Rightarrow> Inr f) of
                             Inl e \<Rightarrow> (Inl e, s)
                           | Inr (Register backend_id pool capabilities) \<Rightarrow>
                               (Inr \<lparr>es_connection = connection, es_identity = ident, es_remote_addr = remote_addr,
                                     es_backend_id = backend_id, es_pool = pool, es_capabilities = capabilities\<rparr>, s)
                           | Inr other \<Rightarrow> (Inl (Tunnel (''expected Register frame, got '' @ debug other)), s))))))"

subsection \<open>Admission and commit\<close>

definition admit_registration :: "tunnel_config \<Rightarrow> revocation_set \<Rightarrow> reject_env \<Rightarrow> established \<Rightarrow> reg_state \<Rightarrow> established result \<times> reg_state" where
  "admit_registration cfg revocation env e s =
     (if es_backend_id e \<noteq> common_name (es_identity e)
      then reject env REJECT_REASON_CN_MISMATCH ''backend_id does not match certificate'' (Tunnel ''backend_id does not match certificate CN'') s
      else if is_revoked revocation (es_identity e)
      then reject env REJECT_REASON_REVOKED REJECT_REASON_REVOKED (Tunnel ''identity revoked'') s
      else if tnc_allowed_backend_ids cfg \<noteq> [] \<and> es_backend_id e \<notin> set (tnc_allowed_backend_ids cfg)
      then reject env REJECT_REASON_ALLOWLIST ''not in allowlist'' (Tunnel ''backend not in allowlist'') s
      else if exceeds_session_cap (total_sessions (rg_registry s)) (tnc_max_total_sessions cfg)
      then reject env REJECT_REASON_GLOBAL_CAP ''at capacity'' (Tunnel ''global session cap reached'') s
      else (Inr e, s))"

record committed =
  co_connection :: connection
  co_backend_id :: string
  co_session_id :: session_id
  co_is_control_peer :: bool

definition session_of :: "established \<Rightarrow> session_id \<Rightarrow> instant \<Rightarrow> instant \<Rightarrow> tunnel_session" where
  "session_of e sid t1 t2 =
     \<lparr>ts_session_id = sid, ts_backend_id = es_backend_id e, ts_pool = es_pool e, ts_remote_addr = es_remote_addr e,
      ts_connected_at = t1, ts_last_heartbeat = t2, ts_connection = es_connection e, ts_identity = es_identity e,
      ts_is_control_peer = list_ex (\<lambda>c. c = CONTROL_CAPABILITY) (es_capabilities e)\<rparr>"

definition commit_registration :: "bytes option \<Rightarrow> instant \<times> instant \<Rightarrow> revocation_set \<Rightarrow> bool \<Rightarrow> reject_env \<Rightarrow> established
    \<Rightarrow> reg_state \<Rightarrow> committed result \<times> reg_state" where
  "commit_registration random clock revocation ack_ok env e s =
     (case session_id_generate random of
        Inl err \<Rightarrow> (Inl err, s)
      | Inr sid \<Rightarrow>
          let session = session_of e sid (fst clock) (snd clock) in
          case register session (rg_registry s) of
            (r1, Inl err) \<Rightarrow> reject env REJECT_REASON_BACKEND_CAP ''at capacity'' err (s\<lparr>rg_registry := r1\<rparr>)
          | (r1, Inr _) \<Rightarrow>
              if is_revoked revocation (es_identity e)
              then reject env REJECT_REASON_REVOKED REJECT_REASON_REVOKED (Tunnel ''identity revoked'')
                     (s\<lparr>rg_registry := fst (deregister (es_backend_id e) sid r1)\<rparr>)
              else if \<not> ack_ok
              then (Inl (Tunnel ''register ack write failed or stalled''),
                    s\<lparr>rg_registry := fst (deregister (es_backend_id e) sid r1)\<rparr>)
              else (Inr \<lparr>co_connection = es_connection e, co_backend_id = es_backend_id e, co_session_id = sid,
                         co_is_control_peer = ts_is_control_peer session\<rparr>,
                    s\<lparr>rg_registry := r1, rg_sent := rg_sent s @ [RegisterAck sid], rg_pending := False,
                      rg_sessions_active := rg_sessions_active s + 1,
                      rg_duplicates := rg_duplicates s + (if 1 < session_count (common_name (es_identity e)) r1 then 1 else 0)\<rparr>))"

definition finish_connection :: "committed \<Rightarrow> reg_state \<Rightarrow> reg_state" where
  "finish_connection c s =
     s\<lparr>rg_registry := fst (deregister (co_backend_id c) (co_session_id c) (rg_registry s)),
       rg_sessions_active := rg_sessions_active s - 1\<rparr>"

subsection \<open>The control loop\<close>

record 'l control_state =
  cs_registry :: tunnel_registry
  cs_health :: "'l health_state"
  cs_last_heartbeat :: instant
  cs_sent :: "tunnel_frame list"
  cs_heartbeat_timeouts :: nat

record control_ctx =
  cc_backend_id :: string
  cc_session_id :: session_id
  cc_heartbeat_timeout :: duration
  cc_is_control_peer :: bool
  cc_health_sink :: bool

text \<open>
  The select arm that wins an iteration: a frame read (or a read error) at some instant, the heartbeat
  deadline, a frame from the session's channel (\<open>None\<close>: closed), or the shutdown signal. A flag says whether the
  bounded write of the answer succeeds.
\<close>

datatype (plugins only: size code) control_event =
    CtlRead instant "tunnel_frame result" bool
  | CtlDeadline
  | CtlOutbound "tunnel_frame option" bool
  | CtlCancelled bool

definition heartbeat_deadline :: "control_ctx \<Rightarrow> 'l control_state \<Rightarrow> instant" where
  "heartbeat_deadline ctx s = cs_last_heartbeat s + cc_heartbeat_timeout ctx"

definition send_if :: "bool \<Rightarrow> tunnel_frame \<Rightarrow> 'l control_state \<Rightarrow> 'l control_state" where
  "send_if ok f s = (if ok then s\<lparr>cs_sent := cs_sent s @ [f]\<rparr> else s)"

definition control_frame :: "'l health_lru \<Rightarrow> control_ctx \<Rightarrow> instant \<Rightarrow> tunnel_frame \<Rightarrow> bool \<Rightarrow> 'l control_state
    \<Rightarrow> 'l control_state \<times> bool" where
  "control_frame ops ctx now f ok s =
     (case f of
        Heartbeat timestamp_ms \<Rightarrow>
          (send_if ok HeartbeatAck
             (s\<lparr>cs_last_heartbeat := now,
                cs_registry := fst (record_heartbeat now (cc_backend_id ctx) (cc_session_id ctx) (cs_registry s))\<rparr>), ok)
      | Shutdown reason \<Rightarrow> (s, False)
      | HealthFrame reported available \<Rightarrow>
          (if cc_is_control_peer ctx \<and> cc_health_sink ctx
           then s\<lparr>cs_health := health_update ops now
                  [\<lparr>bh_backend_id = reported, bh_load = Fin 0, bh_latency_ms = 0,
                    bh_availability = (if available then Online else Offline)\<rparr>] (cs_health s)\<rparr>
           else s, True)
      | RefuseWake refused \<Rightarrow>
          (if cc_is_control_peer ctx then s\<lparr>cs_registry := note_refusal refused (cs_registry s)\<rparr> else s, True)
      | _ \<Rightarrow> (s, True))"

definition control_step :: "'l health_lru \<Rightarrow> control_ctx \<Rightarrow> control_event \<Rightarrow> 'l control_state \<Rightarrow> 'l control_state \<times> bool" where
  "control_step ops ctx ev s =
     (case ev of
        CtlRead now (Inr f) ok \<Rightarrow> control_frame ops ctx now f ok s
      | CtlRead now (Inl e) ok \<Rightarrow> (s, False)
      | CtlDeadline \<Rightarrow> (s\<lparr>cs_heartbeat_timeouts := cs_heartbeat_timeouts s + 1\<rparr>, False)
      | CtlOutbound (Some (Shutdown reason)) ok \<Rightarrow> (send_if ok (Shutdown reason) s, False)
      | CtlOutbound _ ok \<Rightarrow> (s, False)
      | CtlCancelled ok \<Rightarrow> (send_if ok (Shutdown ''proxy shutting down'') s, False))"

fun run_control_loop :: "'l health_lru \<Rightarrow> control_ctx \<Rightarrow> control_event list \<Rightarrow> 'l control_state \<Rightarrow> 'l control_state \<times> bool" where
  "run_control_loop ops ctx [] s = (s, True)"
| "run_control_loop ops ctx (ev # evs) s =
     (case control_step ops ctx ev s of
        (s', True) \<Rightarrow> run_control_loop ops ctx evs s'
      | (s', False) \<Rightarrow> (s', False))"

subsection \<open>Admission is sound, refusal leaves no trace\<close>

lemma bucket_reg_state [simp]: "rg_registry (reject_and_close env reason s) = rg_registry s"
  by (simp add: reject_and_close_def)

lemma reject_simps:
  "reject env reason msg err s = (res, s') \<longleftrightarrow>
     res = Inl err \<and> s' = reject_and_close env msg (s\<lparr>rg_rejected := rg_rejected s @ [reason], rg_pending := False\<rparr>)"
  by (auto simp: reject_def reject_registration_def)

lemma admit_ok:
  "admit_registration cfg rv env e s = (Inr e', s') \<longleftrightarrow>
     e' = e \<and> s' = s \<and> es_backend_id e = common_name (es_identity e) \<and> \<not> is_revoked rv (es_identity e)
     \<and> (tnc_allowed_backend_ids cfg = [] \<or> es_backend_id e \<in> set (tnc_allowed_backend_ids cfg))
     \<and> \<not> exceeds_session_cap (total_sessions (rg_registry s)) (tnc_max_total_sessions cfg)"
  by (auto simp: admit_registration_def reject_simps)

lemma commit_ok:
  assumes "commit_registration random clock rv ack env e s = (Inr c, s')"
  obtains sid r1 where "session_id_generate random = Inr sid"
    and "register (session_of e sid (fst clock) (snd clock)) (rg_registry s) = (r1, Inr ())"
    and "\<not> is_revoked rv (es_identity e)" and "ack"
    and "co_session_id c = sid" and "co_backend_id c = es_backend_id e" and "co_connection c = es_connection e"
    and "rg_registry s' = r1" and "rg_sent s' = rg_sent s @ [RegisterAck sid]" and "\<not> rg_pending s'"
  using assms
  by (auto simp: commit_registration_def reject_simps Let_def split: sum.splits prod.splits if_splits)

lemma session_of_simps [simp]:
  "ts_backend_id (session_of e sid t1 t2) = es_backend_id e" "ts_session_id (session_of e sid t1 t2) = sid"
  "ts_identity (session_of e sid t1 t2) = es_identity e" "ts_connection (session_of e sid t1 t2) = es_connection e"
  by (simp_all add: session_of_def)

text \<open>
  Claim C14. A tunnel registration is bound to its certificate: when admission and commit both succeed, even with
  other tasks changing the registry in between, the backend id is the certificate's common name, the
  identity was revoked neither at admission nor after the session became visible, the allowlist and
  both session caps admit it, exactly this session is appended to the backend's bucket, and the client
  has received exactly one frame, the acknowledgement of this session.
\<close>
theorem registration_sound:
  assumes "admit_registration cfg rev1 env e s = (Inr e', s1)"
    and "commit_registration random clock rev2 ack env' e' t = (Inr c, t')"
  shows "co_backend_id c = common_name (es_identity e)
    \<and> \<not> is_revoked rev1 (es_identity e) \<and> \<not> is_revoked rev2 (es_identity e)
    \<and> (tnc_allowed_backend_ids cfg = [] \<or> co_backend_id c \<in> set (tnc_allowed_backend_ids cfg))
    \<and> (\<forall>m. tnc_max_total_sessions cfg = Some m \<longrightarrow> total_sessions (rg_registry s) < unat m)
    \<and> session_count (co_backend_id c) (rg_registry t) < unat (tr_max_sessions_per_backend (rg_registry t))
    \<and> bucket (rg_registry t') = (bucket (rg_registry t))(co_backend_id c :=
         bucket (rg_registry t) (co_backend_id c) @ [session_of e (co_session_id c) (fst clock) (snd clock)])
    \<and> rg_sent t' = rg_sent t @ [RegisterAck (co_session_id c)] \<and> \<not> rg_pending t'"
proof -
  have a: "e' = e" "es_backend_id e = common_name (es_identity e)" "\<not> is_revoked rev1 (es_identity e)"
      "tnc_allowed_backend_ids cfg = [] \<or> es_backend_id e \<in> set (tnc_allowed_backend_ids cfg)"
      "\<not> exceeds_session_cap (total_sessions (rg_registry s)) (tnc_max_total_sessions cfg)"
    using assms(1) unfolding admit_ok by blast+
  obtain sid r1 where c: "register (session_of e sid (fst clock) (snd clock)) (rg_registry t) = (r1, Inr ())"
      "\<not> is_revoked rev2 (es_identity e)" "co_session_id c = sid" "co_backend_id c = es_backend_id e"
      "rg_registry t' = r1" "rg_sent t' = rg_sent t @ [RegisterAck sid]" "\<not> rg_pending t'"
    using commit_ok [OF assms(2)] a(1) by metis
  show ?thesis
    using a c register_ok [OF c(1)] by (auto simp: exceeds_session_cap_def session_count_def not_le)
qed

definition demo_established :: established where
  "demo_established = \<lparr>es_connection = 7, es_identity = \<lparr>common_name = ''b'', spki_sha256 = []\<rparr>,
     es_remote_addr = \<lparr>sa_ip = V4 1, sa_port = 2\<rparr>, es_backend_id = ''b'', es_pool = ''p'', es_capabilities = []\<rparr>"

definition demo_reg_state :: reg_state where
  "demo_reg_state = \<lparr>rg_registry = registry_new 8, rg_rejected = [], rg_pending = True, rg_sent = [],
     rg_sessions_active = 0, rg_duplicates = 0\<rparr>"

definition demo_reject_env :: reject_env where
  "demo_reject_env = \<lparr>rj_drain_slot = True, rj_write_ok = True\<rparr>"

lemmas demo_reg_defs = demo_established_def demo_reg_state_def demo_reject_env_def

lemma demo_admit: "admit_registration default_tunnel_config revocation_empty demo_reject_env demo_established demo_reg_state =
    (Inr demo_established, demo_reg_state)"
  by (simp add: admit_ok demo_reg_defs default_tunnel_config_def revocation_empty_def is_revoked_def exceeds_session_cap_def)

lemma demo_commit:
  "\<exists>c t'. commit_registration (Some [1, 2, 3, 4, 5, 6, 7, 8]) (0, 0) revocation_empty True demo_reject_env demo_established demo_reg_state
     = (Inr c, t') \<and> co_backend_id c = ''b''"
  by (simp add: commit_registration_def session_id_generate_def register_def session_of_def demo_reg_defs registry_new_def
      bucket_def revocation_empty_def is_revoked_def Let_def notify_session_waiters_def)

theorem registration_sound_witness:
  "\<exists>c t'. commit_registration (Some [1, 2, 3, 4, 5, 6, 7, 8]) (0, 0) revocation_empty True demo_reject_env demo_established demo_reg_state
     = (Inr c, t') \<and> rg_sent t' = [RegisterAck (co_session_id c)]
     \<and> bucket (rg_registry t') ''b'' = [session_of demo_established (co_session_id c) 0 0]"
proof -
  obtain c t' where c: "commit_registration (Some [1, 2, 3, 4, 5, 6, 7, 8]) (0, 0) revocation_empty True demo_reject_env
      demo_established demo_reg_state = (Inr c, t')" "co_backend_id c = ''b''"
    using demo_commit by blast
  have "bucket (rg_registry demo_reg_state) ''b'' = []" "rg_sent demo_reg_state = []"
    by (simp_all add: demo_reg_state_def registry_new_def bucket_def)
  then show ?thesis using registration_sound [OF demo_admit c(1)] c by auto
qed

lemma filter_fresh: "sid \<notin> ts_session_id ` set ss \<Longrightarrow> filter (\<lambda>s. ts_session_id s \<noteq> sid) ss = ss"
  by (auto simp: filter_id_conv)

lemma commit_rollback:
  assumes "register s r = (r1, Inr ())" and "ts_session_id s = sid" and "ts_backend_id s = k"
    and "sid \<notin> ts_session_id ` set (bucket r k)"
  shows "bucket (fst (deregister k sid r1)) = bucket r"
  using register_ok [OF assms(1)] assms by (simp add: bucket_deregister filter_fresh fun_eq_iff)

lemma reject_close_sent: "x \<in> set (rg_sent (reject_and_close env msg s)) \<Longrightarrow> x \<in> set (rg_sent s) \<or> (\<exists>m. x = Shutdown m)"
  by (auto simp: reject_and_close_def split: if_splits)

text \<open>
  Claim C15. A refused registration leaves no trace: whatever gate of admission or step of commit fails (no random
  bytes, backend cap, revoked after registering, acknowledgement not written), the sessions of every backend are those
  from before, provided the fresh session id was not in use, and the client never received an
  acknowledgement.
\<close>
theorem registration_refused:
  assumes "admit_registration cfg rv1 env e s = (Inl err, s')
      \<or> (commit_registration random clock rv2 ack env e s = (Inl err, s')
          \<and> (\<forall>sid. session_id_generate random = Inr sid \<longrightarrow> sid \<notin> ts_session_id ` set (bucket (rg_registry s) (es_backend_id e))))"
  shows "bucket (rg_registry s') = bucket (rg_registry s) \<and> (\<forall>sid. RegisterAck sid \<in> set (rg_sent s') \<longrightarrow> RegisterAck sid \<in> set (rg_sent s))"
  using assms
proof
  assume "admit_registration cfg rv1 env e s = (Inl err, s')"
  then show ?thesis
    by (auto simp: admit_registration_def reject_simps dest: reject_close_sent split: if_splits)
next
  assume c: "commit_registration random clock rv2 ack env e s = (Inl err, s')
      \<and> (\<forall>sid. session_id_generate random = Inr sid \<longrightarrow> sid \<notin> ts_session_id ` set (bucket (rg_registry s) (es_backend_id e)))"
  show ?thesis
  proof (cases "session_id_generate random")
    case (Inl x)
    then show ?thesis using c by (auto simp: commit_registration_def)
  next
    case (Inr sid)
    let ?session = "session_of e sid (fst clock) (snd clock)"
    obtain r1 res where r: "register ?session (rg_registry s) = (r1, res)" by fastforce
    have fresh: "sid \<notin> ts_session_id ` set (bucket (rg_registry s) (es_backend_id e))" using c Inr by blast
    have b: "bucket r1 = bucket (rg_registry s)" if "res = Inl x" for x using register_refused r that by blast
    have d: "bucket (fst (deregister (es_backend_id e) sid r1)) = bucket (rg_registry s)" if "res = Inr ()"
      using commit_rollback [of ?session "rg_registry s" r1 sid "es_backend_id e"] r that fresh by simp
    show ?thesis
      using c Inr r b d
      by (auto simp: commit_registration_def Let_def reject_simps dest: reject_close_sent split: sum.splits if_splits)
  qed
qed

theorem registration_refused_witness:
  "bucket (rg_registry (snd (commit_registration (Some [1, 2, 3, 4, 5, 6, 7, 8]) (0, 0) revocation_empty False demo_reject_env
     demo_established demo_reg_state))) = bucket (registry_new 8)"
proof -
  let ?c = "commit_registration (Some [1, 2, 3, 4, 5, 6, 7, 8]) (0, 0) revocation_empty False demo_reject_env demo_established demo_reg_state"
  have e: "?c = (Inl (Tunnel ''register ack write failed or stalled''), snd ?c)"
    by (simp add: commit_registration_def session_id_generate_def register_def session_of_def demo_reg_defs registry_new_def
        bucket_def revocation_empty_def is_revoked_def Let_def notify_session_waiters_def)
  have "bucket (rg_registry demo_reg_state) k = []" for k by (simp add: demo_reg_state_def registry_new_def bucket_def)
  then show ?thesis
    using registration_refused [OF disjI2, OF conjI, OF e] by (simp add: demo_reg_state_def)
qed

subsection \<open>Only heartbeats are liveness, only control peers steer\<close>

definition is_heartbeat :: "control_event \<Rightarrow> bool" where
  "is_heartbeat ev = (case ev of CtlRead _ (Inr (Heartbeat _)) _ \<Rightarrow> True | _ \<Rightarrow> False)"

lemma send_if_simps [simp]:
  "cs_last_heartbeat (send_if ok f s) = cs_last_heartbeat s" "cs_health (send_if ok f s) = cs_health s"
  "cs_registry (send_if ok f s) = cs_registry s"
  by (simp_all add: send_if_def)

lemma control_step_heartbeat:
  "\<not> is_heartbeat ev \<Longrightarrow> cs_last_heartbeat (fst (control_step ops ctx ev s)) = cs_last_heartbeat s"
  by (auto simp: control_step_def control_frame_def is_heartbeat_def
      split: control_event.splits sum.splits tunnel_frame.splits option.splits)

lemma record_heartbeat_refused [simp]:
  "tr_refused (fst (record_heartbeat now k sid r)) = tr_refused r" "tr_control_peers (fst (record_heartbeat now k sid r)) = tr_control_peers r"
  by (simp_all add: record_heartbeat_def split: option.split)

lemma control_step_steers:
  "\<not> cc_is_control_peer ctx \<Longrightarrow> cs_health (fst (control_step ops ctx ev s)) = cs_health s
     \<and> tr_refused (cs_registry (fst (control_step ops ctx ev s))) = tr_refused (cs_registry s)"
  by (auto simp: control_step_def control_frame_def
      split: control_event.splits sum.splits tunnel_frame.splits option.splits)

lemma run_control_loop_invariant:
  assumes "\<And>ev s. ev \<in> set evs \<Longrightarrow> P s \<Longrightarrow> P (fst (control_step ops ctx ev s))" and "P s"
  shows "P (fst (run_control_loop ops ctx evs s))"
  using assms
proof (induction evs arbitrary: s)
  case (Cons ev evs)
  obtain s' go where st: "control_step ops ctx ev s = (s', go)" by fastforce
  have "P s'" using Cons.prems(1) [of ev s] Cons.prems(2) st by simp
  then show ?case using Cons.IH [of s'] Cons.prems(1) st by (cases go) auto
qed simp

lemma run_control_loop_deadline:
  "CtlDeadline \<in> set evs \<Longrightarrow> \<not> snd (run_control_loop ops ctx evs s)"
  by (induction evs arbitrary: s) (auto simp: control_step_def split: prod.split bool.split)

text \<open>
  Claim C16. Traffic is not liveness and tunnel clients do not steer routing: whatever frames, errors and channel
  events other than heartbeats a session's control loop handles, the heartbeat deadline stays where it was, and the
  loop ends once the deadline is handled; a peer that did not register as a control peer changes
  neither the health state nor the wake refusals, heartbeats included.
\<close>
theorem control_loop_deadline:
  assumes "\<forall>ev\<in>set evs. \<not> is_heartbeat ev"
  shows "heartbeat_deadline ctx (fst (run_control_loop ops ctx evs s)) = heartbeat_deadline ctx s
    \<and> \<not> snd (run_control_loop ops ctx (evs @ [CtlDeadline]) s)
    \<and> (\<not> cc_is_control_peer ctx \<longrightarrow>
        cs_health (fst (run_control_loop ops ctx (evs @ hbs) s)) = cs_health s
        \<and> tr_refused (cs_registry (fst (run_control_loop ops ctx (evs @ hbs) s))) = tr_refused (cs_registry s))"
proof (intro conjI impI)
  show "heartbeat_deadline ctx (fst (run_control_loop ops ctx evs s)) = heartbeat_deadline ctx s"
    using assms by (intro run_control_loop_invariant [where P = "\<lambda>t. heartbeat_deadline ctx t = heartbeat_deadline ctx s"])
      (auto simp: heartbeat_deadline_def control_step_heartbeat)
  show "\<not> snd (run_control_loop ops ctx (evs @ [CtlDeadline]) s)"
    by (rule run_control_loop_deadline) simp
  assume n: "\<not> cc_is_control_peer ctx"
  show "cs_health (fst (run_control_loop ops ctx (evs @ hbs) s)) = cs_health s"
    by (rule run_control_loop_invariant [where P = "\<lambda>t. cs_health t = cs_health s"]) (simp_all add: control_step_steers [OF n])
  show "tr_refused (cs_registry (fst (run_control_loop ops ctx (evs @ hbs) s))) = tr_refused (cs_registry s)"
    by (rule run_control_loop_invariant [where P = "\<lambda>t. tr_refused (cs_registry t) = tr_refused (cs_registry s)"])
      (simp_all add: control_step_steers [OF n])
qed

definition demo_ctx :: control_ctx where
  "demo_ctx = \<lparr>cc_backend_id = ''b'', cc_session_id = [1], cc_heartbeat_timeout = from_secs 45,
     cc_is_control_peer = False, cc_health_sink = True\<rparr>"

theorem control_loop_deadline_witness:
  "let evs = [CtlRead 1 (Inr (NewStream 42)) True, CtlRead 2 (Inr (HealthFrame ''x'' False)) True] in
   \<forall>ops s. snd (run_control_loop ops demo_ctx evs s)
     \<and> heartbeat_deadline demo_ctx (fst (run_control_loop ops demo_ctx evs s)) = heartbeat_deadline demo_ctx s
     \<and> \<not> snd (run_control_loop ops demo_ctx (evs @ [CtlDeadline]) s)"
proof -
  let ?evs = "[CtlRead 1 (Inr (NewStream 42)) True, CtlRead 2 (Inr (HealthFrame ''x'' False)) True]"
  have "\<forall>ev\<in>set ?evs. \<not> is_heartbeat ev" by (simp add: is_heartbeat_def)
  note t = control_loop_deadline [OF this, of demo_ctx]
  have "snd (run_control_loop ops demo_ctx ?evs s)" for ops :: "'a health_lru" and s
    by (simp add: control_step_def control_frame_def demo_ctx_def)
  then show ?thesis unfolding Let_def using t by blast
qed

subsection \<open>Registration against the revocation sweep\<close>

text \<open>
  The watch channel's current set, whether the sweep task has still to see it, the buckets the running sweep has
  not visited (\<open>None\<close>: no sweep is running), the registry, and the sessions whose second revocation
  check passed, the only ones acknowledged. The sweep holds the channel's read guard while it runs, so a new set
  is published only between sweeps; registrations, checks, heartbeats and deregistrations interleave
  with the visits of single buckets.
\<close>

record race_state =
  ra_published :: revocation_set
  ra_unseen :: bool
  ra_todo :: "string set option"
  ra_registry :: tunnel_registry
  ra_checked :: "(session_id \<times> peer_identity) set"

definition race_key :: "tunnel_session \<Rightarrow> session_id \<times> peer_identity" where
  "race_key s = (ts_session_id s, ts_identity s)"

definition sweep_visit :: "revocation_set \<Rightarrow> string \<Rightarrow> tunnel_registry \<Rightarrow> tunnel_registry" where
  "sweep_visit rv k r = r\<lparr>tr_sessions := AList.update k (fst (revoke_bucket rv (bucket r k))) (tr_sessions r)\<rparr>"

inductive race_step :: "race_state \<Rightarrow> race_state \<Rightarrow> bool" where
  publish: "ra_todo s = None \<Longrightarrow> race_step s (s\<lparr>ra_published := rv, ra_unseen := True\<rparr>)"
| sweep_start: "ra_todo s = None \<Longrightarrow> ra_unseen s \<Longrightarrow>
    race_step s (s\<lparr>ra_unseen := False, ra_todo := Some {k. bucket (ra_registry s) k \<noteq> []}\<rparr>)"
| visit: "ra_todo s = Some ks \<Longrightarrow> k \<in> ks \<Longrightarrow>
    race_step s (s\<lparr>ra_todo := Some (ks - {k}), ra_registry := sweep_visit (ra_published s) k (ra_registry s)\<rparr>)"
| sweep_end: "ra_todo s = Some {} \<Longrightarrow> race_step s (s\<lparr>ra_todo := None\<rparr>)"
| registers: "race_key session \<notin> ra_checked s \<Longrightarrow>
    race_step s (s\<lparr>ra_registry := fst (register session (ra_registry s))\<rparr>)"
| recheck_passes: "\<not> is_revoked (ra_published s) i \<Longrightarrow> race_step s (s\<lparr>ra_checked := insert (sid, i) (ra_checked s)\<rparr>)"
| deregisters: "race_step s (s\<lparr>ra_registry := fst (deregister k sid (ra_registry s))\<rparr>)"
| heartbeats: "race_step s (s\<lparr>ra_registry := fst (record_heartbeat now k sid (ra_registry s))\<rparr>)"

inductive race_reaches :: "race_state \<Rightarrow> bool" where
  start: "race_reaches \<lparr>ra_published = rv, ra_unseen = False, ra_todo = None, ra_registry = registry_new mx, ra_checked = {}\<rparr>"
| step: "race_reaches s \<Longrightarrow> race_step s s' \<Longrightarrow> race_reaches s'"

definition race_ok :: "race_state \<Rightarrow> bool" where
  "race_ok s \<longleftrightarrow> (\<forall>k x. x \<in> race_key ` set (bucket (ra_registry s) k) \<longrightarrow> x \<in> ra_checked s \<longrightarrow> is_revoked (ra_published s) (snd x)
     \<longrightarrow> ra_unseen s \<or> (\<exists>ks. ra_todo s = Some ks \<and> k \<in> ks))"

lemma stamp_first_key: "stamp_first now sid ss = Some ss' \<Longrightarrow> map race_key ss' = map race_key ss"
  by (induction ss arbitrary: ss') (auto simp: race_key_def split: if_splits)

lemma keys_heartbeat: "race_key ` set (bucket (fst (record_heartbeat now k sid r)) k') = race_key ` set (bucket r k')"
proof (cases "stamp_first now sid (bucket r k)")
  case (Some ss)
  have "race_key ` set ss = race_key ` set (bucket r k)"
    using arg_cong [OF stamp_first_key [OF Some], of set] by simp
  then show ?thesis using Some by (simp add: record_heartbeat_def)
qed (simp add: record_heartbeat_def)

lemma keys_deregister: "race_key ` set (bucket (fst (deregister k sid r)) k') \<subseteq> race_key ` set (bucket r k')"
  by (auto simp: bucket_deregister)

lemma keys_register:
  "race_key ` set (bucket (fst (register s r)) k') \<subseteq> insert (race_key s) (race_key ` set (bucket r k'))"
proof -
  obtain r' res where e: "register s r = (r', res)" by fastforce
  show ?thesis
  proof (cases res)
    case (Inl x)
    then show ?thesis using register_refused [of s r r' x] e by auto
  next
    case (Inr u)
    then show ?thesis using register_ok [of s r r' u] e by auto
  qed
qed

lemma bucket_visit: "bucket (sweep_visit rv k r) = (bucket r)(k := filter (\<lambda>s. \<not> is_revoked rv (ts_identity s)) (bucket r k))"
  by (simp add: sweep_visit_def revoke_bucket_def)

lemma race_okD:
  assumes "race_ok s" and "x \<in> race_key ` set (bucket (ra_registry s) k)" and "x \<in> ra_checked s"
    and "is_revoked (ra_published s) (snd x)"
  shows "ra_unseen s \<or> (\<exists>ks. ra_todo s = Some ks \<and> k \<in> ks)"
  using assms unfolding race_ok_def by blast

lemma race_ok_visit:
  assumes ok: "race_ok s" and t: "ra_todo s = Some ks"
  shows "race_ok (s\<lparr>ra_todo := Some (ks - {k}), ra_registry := sweep_visit (ra_published s) k (ra_registry s)\<rparr>)"
  unfolding race_ok_def
proof (intro allI impI)
  fix k' x
  let ?s = "s\<lparr>ra_todo := Some (ks - {k}), ra_registry := sweep_visit (ra_published s) k (ra_registry s)\<rparr>"
  assume x: "x \<in> race_key ` set (bucket (ra_registry ?s) k')" "x \<in> ra_checked ?s" "is_revoked (ra_published ?s) (snd x)"
  have k: "k' \<noteq> k" using x(1,3) by (auto simp: bucket_visit race_key_def)
  then have "x \<in> race_key ` set (bucket (ra_registry s) k')" using x(1) by (simp add: bucket_visit)
  then have "ra_unseen s \<or> k' \<in> ks" using race_okD [OF ok, of x k'] x(2,3) t by simp
  then show "ra_unseen ?s \<or> (\<exists>ks. ra_todo ?s = Some ks \<and> k' \<in> ks)" using k by simp
qed

lemma race_ok_intro:
  assumes "\<And>k x. x \<in> race_key ` set (bucket (ra_registry s) k) \<Longrightarrow> x \<in> ra_checked s \<Longrightarrow> is_revoked (ra_published s) (snd x)
    \<Longrightarrow> ra_unseen s \<or> (\<exists>ks. ra_todo s = Some ks \<and> k \<in> ks)"
  shows "race_ok s"
  using assms unfolding race_ok_def by blast

lemma race_upd:
  "ra_registry (s\<lparr>ra_registry := r\<rparr>) = r" "ra_checked (s\<lparr>ra_registry := r\<rparr>) = ra_checked s"
  "ra_published (s\<lparr>ra_registry := r\<rparr>) = ra_published s" "ra_unseen (s\<lparr>ra_registry := r\<rparr>) = ra_unseen s"
  "ra_todo (s\<lparr>ra_registry := r\<rparr>) = ra_todo s" "ra_registry (s\<lparr>ra_checked := c\<rparr>) = ra_registry s"
  "ra_checked (s\<lparr>ra_checked := c\<rparr>) = c" "ra_published (s\<lparr>ra_checked := c\<rparr>) = ra_published s"
  "ra_unseen (s\<lparr>ra_checked := c\<rparr>) = ra_unseen s" "ra_todo (s\<lparr>ra_checked := c\<rparr>) = ra_todo s"
  by simp_all

lemma race_ok_end: "race_ok s \<Longrightarrow> ra_todo s = Some {} \<Longrightarrow> race_ok (s\<lparr>ra_todo := None\<rparr>)"
  by (rule race_ok_intro) (drule race_okD; simp)

lemma race_ok_start: "race_ok (s\<lparr>ra_unseen := False, ra_todo := Some {k. bucket (ra_registry s) k \<noteq> []}\<rparr>)"
  by (rule race_ok_intro) force

lemma race_ok_publish: "race_ok (s\<lparr>ra_published := rv, ra_unseen := True\<rparr>)"
  by (rule race_ok_intro) simp

lemma race_ok_recheck:
  assumes "race_ok s" and "\<not> is_revoked (ra_published s) i"
  shows "race_ok (s\<lparr>ra_checked := insert (sid, i) (ra_checked s)\<rparr>)"
proof (rule race_ok_intro, simp_all only: race_upd)
  fix k x assume x: "x \<in> race_key ` set (bucket (ra_registry s) k)" "x \<in> insert (sid, i) (ra_checked s)"
    "is_revoked (ra_published s) (snd x)"
  have "x \<noteq> (sid, i)" using assms(2) x(3) by force
  then have "x \<in> ra_checked s" using x(2) by blast
  then show "ra_unseen s \<or> (\<exists>ks. ra_todo s = Some ks \<and> k \<in> ks)" by (rule race_okD [OF assms(1) x(1) _ x(3)])
qed

lemma race_ok_registry:
  assumes "race_ok s" and "\<And>k. race_key ` set (bucket r k) \<inter> ra_checked s \<subseteq> race_key ` set (bucket (ra_registry s) k)"
  shows "race_ok (s\<lparr>ra_registry := r\<rparr>)"
proof (rule race_ok_intro, simp_all only: race_upd)
  fix k x assume x: "x \<in> race_key ` set (bucket r k)" "x \<in> ra_checked s" "is_revoked (ra_published s) (snd x)"
  have "x \<in> race_key ` set (bucket (ra_registry s) k)" using assms(2) [of k] x(1,2) by blast
  then show "ra_unseen s \<or> (\<exists>ks. ra_todo s = Some ks \<and> k \<in> ks)" by (rule race_okD [OF assms(1) _ x(2,3)])
qed

lemma insert_inter_subset: "A \<subseteq> insert a B \<Longrightarrow> a \<notin> C \<Longrightarrow> A \<inter> C \<subseteq> B"
  by blast

lemma race_ok_register:
  "race_ok s \<Longrightarrow> race_key session \<notin> ra_checked s \<Longrightarrow> race_ok (s\<lparr>ra_registry := fst (register session (ra_registry s))\<rparr>)"
  by (erule race_ok_registry) (rule insert_inter_subset, rule keys_register)

lemma race_ok_deregister: "race_ok s \<Longrightarrow> race_ok (s\<lparr>ra_registry := fst (deregister k sid (ra_registry s))\<rparr>)"
  by (erule race_ok_registry) (rule le_infI1, rule keys_deregister)

lemma race_ok_heartbeat: "race_ok s \<Longrightarrow> race_ok (s\<lparr>ra_registry := fst (record_heartbeat now k sid (ra_registry s))\<rparr>)"
  by (erule race_ok_registry) (rule le_infI1, rule equalityD1, rule keys_heartbeat)

lemmas race_ok_steps = race_ok_end race_ok_start race_ok_publish race_ok_visit race_ok_recheck race_ok_register
  race_ok_deregister race_ok_heartbeat

lemma race_ok_step: "race_step s s' \<Longrightarrow> race_ok s \<Longrightarrow> race_ok s'"
  by (induction rule: race_step.induct) (rule race_ok_steps; assumption)+

lemma race_reaches_ok: "race_reaches s \<Longrightarrow> race_ok s"
proof (induction rule: race_reaches.induct)
  case (start rv mx)
  then show ?case by (simp add: race_ok_def registry_new_def bucket_def)
qed (rule race_ok_step)

text \<open>The visits of all buckets, in any order that covers them, are the sweep of the registry.\<close>

lemma sweep_visits:
  "bucket (fold (sweep_visit rv) ks r) k = (if k \<in> set ks then filter (\<lambda>s. \<not> is_revoked rv (ts_identity s)) (bucket r k) else bucket r k)"
  by (induction ks arbitrary: r) (auto simp: bucket_visit filter_id_conv)

lemma sweep_visits_revoke_matching:
  assumes "distinct (map fst (tr_sessions r))" and "{k. bucket r k \<noteq> []} \<subseteq> set ks"
  shows "bucket (fold (sweep_visit rv) ks r) = bucket (fst (revoke_matching rv r))"
proof
  fix k
  show "bucket (fold (sweep_visit rv) ks r) k = bucket (fst (revoke_matching rv r)) k"
    using assms(2) by (cases "bucket r k = []") (auto simp: sweep_visits bucket_revoke_matching [OF assms(1)])
qed

text \<open>
  Claim C13. The race between registering and revoking is closed: under every interleaving of registrations, their
  second revocation check, heartbeats, deregistrations, published revocation sets and the sweep's visits
  of single buckets, once the sweep task has seen the current set and finished, no session that
  passed its second check, hence no acknowledged one, has a revoked identity.
\<close>
theorem revocation_race_closed:
  assumes "race_reaches s" and "\<not> ra_unseen s" and "ra_todo s = None"
    and "x \<in> set (bucket (ra_registry s) k)" and "(ts_session_id x, ts_identity x) \<in> ra_checked s"
  shows "\<not> is_revoked (ra_published s) (ts_identity x)"
proof
  assume r: "is_revoked (ra_published s) (ts_identity x)"
  have "race_key x \<in> race_key ` set (bucket (ra_registry s) k)" by (rule imageI) (rule assms(4))
  moreover have "race_key x \<in> ra_checked s" "is_revoked (ra_published s) (snd (race_key x))"
    using assms(5) r by (simp_all add: race_key_def)
  ultimately have "ra_unseen s \<or> (\<exists>ks. ra_todo s = Some ks \<and> k \<in> ks)"
    using race_reaches_ok [OF assms(1)] unfolding race_ok_def by blast
  then show False using assms(2,3) by simp
qed

definition demo_revocation :: revocation_set where
  "demo_revocation = \<lparr>rs_spki = {}, rs_backend_ids = {''z''}\<rparr>"

definition demo_race :: "revocation_set \<Rightarrow> bool \<Rightarrow> string set option \<Rightarrow> tunnel_registry \<Rightarrow> bool \<Rightarrow> race_state" where
  "demo_race rv unseen todo r checked = \<lparr>ra_published = rv, ra_unseen = unseen, ra_todo = todo, ra_registry = r,
     ra_checked = (if checked then {race_key demo_session} else {})\<rparr>"

definition demo_registered :: tunnel_registry where
  "demo_registered = fst (register demo_session (registry_new 8))"

lemma demo_bucket: "bucket demo_registered = (\<lambda>k. if k = ''b'' then [demo_session] else [])"
  by (simp add: demo_registered_def register_def registry_new_def demo_session_def bucket_def notify_session_waiters_def Let_def fun_eq_iff)

lemma demo_keys: "{k. bucket demo_registered k \<noteq> []} = {''b''}"
  by (simp add: demo_bucket Collect_conv_if)

text \<open>A run: \<open>b\<close> registers and passes its check, then a set revoking \<open>z\<close> is published and swept.\<close>

lemma demo_race_run: "race_reaches (demo_race demo_revocation False None (sweep_visit demo_revocation ''b'' demo_registered) True)"
proof -
  note st = race_reaches.step
  have s0: "race_reaches (demo_race revocation_empty False None (registry_new 8) False)"
    using race_reaches.start [of revocation_empty 8] by (simp add: demo_race_def)
  have s1: "race_reaches (demo_race revocation_empty False None demo_registered False)"
    using st [OF s0 registers [of demo_session]] by (simp add: demo_race_def demo_registered_def)
  have s2: "race_reaches (demo_race revocation_empty False None demo_registered True)"
    using st [OF s1 recheck_passes [of _ "ts_identity demo_session" "ts_session_id demo_session"]]
    by (simp add: demo_race_def race_key_def is_revoked_def revocation_empty_def)
  have s3: "race_reaches (demo_race demo_revocation True None demo_registered True)"
    using st [OF s2 publish [of _ demo_revocation]] by (simp add: demo_race_def)
  have s4: "race_reaches (demo_race demo_revocation False (Some {''b''}) demo_registered True)"
    using st [OF s3 sweep_start] by (simp add: demo_race_def demo_keys)
  have s5: "race_reaches (demo_race demo_revocation False (Some {}) (sweep_visit demo_revocation ''b'' demo_registered) True)"
    using st [OF s4 visit [of _ "{''b''}" "''b''"]] by (simp add: demo_race_def)
  show ?thesis using st [OF s5 sweep_end] by (simp add: demo_race_def)
qed

theorem revocation_race_closed_witness:
  "\<exists>s. race_reaches s \<and> bucket (ra_registry s) ''b'' = [demo_session] \<and> ra_published s = demo_revocation
     \<and> \<not> is_revoked (ra_published s) (ts_identity demo_session)"
proof -
  define s where "s = demo_race demo_revocation False None (sweep_visit demo_revocation ''b'' demo_registered) True"
  have f: "ra_published s = demo_revocation" "\<not> ra_unseen s" "ra_todo s = None"
      "ra_registry s = sweep_visit demo_revocation ''b'' demo_registered" "ra_checked s = {race_key demo_session}"
    by (simp_all add: s_def demo_race_def)
  have n: "\<not> is_revoked demo_revocation (ts_identity demo_session)"
    by (simp add: is_revoked_def demo_revocation_def demo_session_def)
  have b: "bucket (ra_registry s) ''b'' = [demo_session]" unfolding f bucket_visit demo_bucket using n by simp
  have m: "demo_session \<in> set (bucket (ra_registry s) ''b'')" unfolding b by simp
  have c: "(ts_session_id demo_session, ts_identity demo_session) \<in> ra_checked s" unfolding f race_key_def by simp
  have "\<not> is_revoked (ra_published s) (ts_identity demo_session)"
    by (rule revocation_race_closed [OF demo_race_run [folded s_def] f(2,3) m c])
  then show ?thesis using demo_race_run [folded s_def] b f(1) by blast
qed

end
