(* ===== verification/Compress.thy ===== *)
theory Compress
  imports Http
begin

section \<open>Compressed bodies (\<open>proxy/compress_body.rs\<close>, \<open>compression.rs\<close>)\<close>

text \<open>
  The streaming body that compresses a response with zstd: the two encoder loops with their growing output buffer
  and no-progress guard, the phases, the hand-over of large chunks to a blocking task, and bounded
  decompression. The encoder is a parameter; \<open>zs_doc\<close> states what zstd documents of it. The loops may
  run forever on an arbitrary encoder, so they are partial. The theorems: with a documented encoder
  every poll returns and the body ends, and a body that ends without an error decodes to exactly the
  data of the inner body.
\<close>

subsection \<open>The encoder\<close>

text \<open>
  \<open>zs_run e input room\<close>: bytes consumed and bytes written, at most \<open>room\<close>. \<open>zs_finish e room\<close>: how much remains to
  be flushed and the bytes written.
\<close>

record 'e zstd_ops =
  zs_run :: "'e \<Rightarrow> bytes \<Rightarrow> nat \<Rightarrow> (string + nat \<times> bytes) \<times> 'e"
  zs_finish :: "'e \<Rightarrow> nat \<Rightarrow> (string + nat \<times> bytes) \<times> 'e"

definition OUTPUT_BUF_SIZE :: nat where "OUTPUT_BUF_SIZE = 16384"
definition OFFLOAD_THRESHOLD_BYTES :: nat where "OFFLOAD_THRESHOLD_BYTES = 32 * 1024"

datatype 'x compress_error = Inner 'x | Zstd string

definition grow :: "bytes \<Rightarrow> nat \<Rightarrow> nat" where
  "grow out cap = (if length out = cap then cap + OUTPUT_BUF_SIZE else cap)"

partial_function (option) chunk_loop :: "'e zstd_ops \<Rightarrow> bytes \<Rightarrow> 'e \<Rightarrow> nat \<Rightarrow> bytes \<Rightarrow> nat \<Rightarrow> ((string + bytes) \<times> 'e) option" where
  "chunk_loop ops input enc pos out cap =
     (if length input \<le> pos then Some (Inr out, enc)
      else case zs_run ops enc (drop pos input) (cap - length out) of
             (Inl e, enc') \<Rightarrow> Some (Inl e, enc')
           | (Inr (consumed, written), enc') \<Rightarrow>
               if written = [] \<and> consumed = 0 then Some (Inl ''zstd encoder made no progress'', enc')
               else chunk_loop ops input enc' (pos + consumed) (out @ written) (grow (out @ written) cap))"

definition compress_chunk :: "'e zstd_ops \<Rightarrow> 'e \<Rightarrow> bytes \<Rightarrow> ((string + bytes) \<times> 'e) option" where
  "compress_chunk ops enc input = chunk_loop ops input enc 0 [] (max OUTPUT_BUF_SIZE (length input))"

partial_function (option) finish_loop :: "'e zstd_ops \<Rightarrow> 'e \<Rightarrow> bytes \<Rightarrow> nat \<Rightarrow> ((string + bytes) \<times> 'e) option" where
  "finish_loop ops enc out cap =
     (case zs_finish ops enc (cap - length out) of
        (Inl e, enc') \<Rightarrow> Some (Inl e, enc')
      | (Inr (remaining, written), enc') \<Rightarrow>
          if remaining = 0 then Some (Inr (out @ written), enc')
          else if written = [] \<and> length (out @ written) < cap then Some (Inl ''zstd encoder made no progress during finish'', enc')
          else finish_loop ops enc' (out @ written) (grow (out @ written) cap))"

definition finish_encoder :: "'e zstd_ops \<Rightarrow> 'e \<Rightarrow> ((string + bytes) \<times> 'e) option" where
  "finish_encoder ops enc = finish_loop ops enc [] OUTPUT_BUF_SIZE"

subsection \<open>The body\<close>

datatype compression_phase = Streaming | Offloading | Flushing | CompressionDone

datatype body_frame = DataFrame bytes | Trailers header_map

text \<open>What polling the inner body or the blocking task yields; an exhausted list is the end of the stream, or a finished task.\<close>

datatype 'x inner_poll = InnerPending | InnerError 'x | InnerFrame body_frame
datatype join_poll = JoinPending | JoinFailed string

datatype 'x body_poll = PollPending | PollEnd | PollFrame body_frame | PollError "'x compress_error"
datatype 'x body_step = StepReady "'x body_poll" | StepContinue

record ('x, 'e) compressed_body =
  cb_inner :: "'x inner_poll list"
  cb_encoder :: "'e option"
  cb_task :: "('e \<times> bytes) option"
  cb_joins :: "join_poll list"
  cb_phase :: compression_phase

definition with_level :: "(int \<Rightarrow> string + 'e) \<Rightarrow> 'x inner_poll list \<Rightarrow> join_poll list \<Rightarrow> int \<Rightarrow> string + ('x, 'e) compressed_body" where
  "with_level encoder_new inner joins level =
     bind_res (encoder_new level) (\<lambda>encoder.
       Inr \<lparr>cb_inner = inner, cb_encoder = Some encoder, cb_task = None, cb_joins = joins, cb_phase = Streaming\<rparr>)"

definition encoder_missing :: "'x body_step" where
  "encoder_missing = StepReady (PollError (Zstd ''compressor state lost''))"

definition compress_chunk_owned :: "'e zstd_ops \<Rightarrow> 'e \<Rightarrow> bytes \<Rightarrow> (string + 'e \<times> bytes) option" where
  "compress_chunk_owned ops enc input =
     (case compress_chunk ops enc input of
        None \<Rightarrow> None
      | Some (Inl e, _) \<Rightarrow> Some (Inl e)
      | Some (Inr compressed, enc') \<Rightarrow> Some (Inr (enc', compressed)))"

definition flatten_join :: "string + (string + 'e \<times> bytes) \<Rightarrow> string + 'e \<times> bytes" where
  "flatten_join r = (case r of Inr inner \<Rightarrow> inner | Inl join_err \<Rightarrow> Inl (''compression task join failed: '' @ join_err))"

definition fail_body :: "string \<Rightarrow> ('x, 'e) compressed_body \<Rightarrow> ('x, 'e) compressed_body \<times> 'x body_step" where
  "fail_body e b = (b\<lparr>cb_phase := CompressionDone\<rparr>, StepReady (PollError (Zstd e)))"

definition emit_data :: "bytes \<Rightarrow> 'x body_step" where
  "emit_data compressed = (if compressed = [] then StepContinue else StepReady (PollFrame (DataFrame compressed)))"

definition join_result :: "'e zstd_ops \<Rightarrow> join_poll list \<Rightarrow> 'e \<Rightarrow> bytes \<Rightarrow> (string + (string + 'e \<times> bytes)) option" where
  "join_result ops joins enc input =
     (case joins of
        JoinFailed e # _ \<Rightarrow> Some (Inl e)
      | _ \<Rightarrow> map_option Inr (compress_chunk_owned ops enc input))"

definition poll_offloading :: "'e zstd_ops \<Rightarrow> ('x, 'e) compressed_body \<Rightarrow> (('x, 'e) compressed_body \<times> 'x body_step) option" where
  "poll_offloading ops b =
     (case cb_task b of
        None \<Rightarrow> Some (b\<lparr>cb_phase := CompressionDone\<rparr>, encoder_missing)
      | Some (enc, input) \<Rightarrow>
          (case cb_joins b of
             JoinPending # js \<Rightarrow> Some (b\<lparr>cb_joins := js\<rparr>, StepReady PollPending)
           | js \<Rightarrow>
               (case join_result ops js enc input of
                  None \<Rightarrow> None
                | Some r \<Rightarrow>
                    let b = b\<lparr>cb_task := None, cb_joins := tl js\<rparr> in
                    (case flatten_join r of
                       Inr (enc', compressed) \<Rightarrow>
                         Some (b\<lparr>cb_encoder := Some enc', cb_phase := Streaming\<rparr>, emit_data compressed)
                     | Inl e \<Rightarrow> Some (fail_body e b)))))"

definition offload_chunk :: "bytes \<Rightarrow> ('x, 'e) compressed_body \<Rightarrow> ('x, 'e) compressed_body \<times> 'x body_step" where
  "offload_chunk input b =
     (case cb_encoder b of
        None \<Rightarrow> (b\<lparr>cb_phase := CompressionDone\<rparr>, encoder_missing)
      | Some enc \<Rightarrow> (b\<lparr>cb_encoder := None, cb_task := Some (enc, input), cb_phase := Offloading\<rparr>, StepContinue))"

definition compress_inline :: "'e zstd_ops \<Rightarrow> bytes \<Rightarrow> ('x, 'e) compressed_body \<Rightarrow> (('x, 'e) compressed_body \<times> 'x body_step) option" where
  "compress_inline ops data b =
     (case cb_encoder b of
        None \<Rightarrow> Some (b\<lparr>cb_phase := CompressionDone\<rparr>, encoder_missing)
      | Some enc \<Rightarrow>
          (case compress_chunk ops enc data of
             None \<Rightarrow> None
           | Some (Inl e, enc') \<Rightarrow> Some (fail_body e (b\<lparr>cb_encoder := Some enc'\<rparr>))
           | Some (Inr compressed, enc') \<Rightarrow> Some (b\<lparr>cb_encoder := Some enc'\<rparr>, emit_data compressed)))"

definition compress_frame :: "'e zstd_ops \<Rightarrow> body_frame \<Rightarrow> ('x, 'e) compressed_body \<Rightarrow> (('x, 'e) compressed_body \<times> 'x body_step) option" where
  "compress_frame ops frame b =
     (case frame of
        Trailers t \<Rightarrow> Some (b, StepReady (PollFrame frame))
      | DataFrame data \<Rightarrow>
          if OFFLOAD_THRESHOLD_BYTES < length data then Some (offload_chunk data b) else compress_inline ops data b)"

definition poll_streaming :: "'e zstd_ops \<Rightarrow> ('x, 'e) compressed_body \<Rightarrow> (('x, 'e) compressed_body \<times> 'x body_step) option" where
  "poll_streaming ops b =
     (case cb_inner b of
        [] \<Rightarrow> Some (b\<lparr>cb_phase := Flushing\<rparr>, StepContinue)
      | InnerPending # rest \<Rightarrow> Some (b\<lparr>cb_inner := rest\<rparr>, StepReady PollPending)
      | InnerError e # rest \<Rightarrow> Some (b\<lparr>cb_inner := rest\<rparr>, StepReady (PollError (Inner e)))
      | InnerFrame frame # rest \<Rightarrow> compress_frame ops frame (b\<lparr>cb_inner := rest\<rparr>))"

definition poll_flushing :: "'e zstd_ops \<Rightarrow> ('x, 'e) compressed_body \<Rightarrow> (('x, 'e) compressed_body \<times> 'x body_step) option" where
  "poll_flushing ops b =
     (case cb_encoder b of
        None \<Rightarrow> Some (b\<lparr>cb_phase := CompressionDone\<rparr>, encoder_missing)
      | Some enc \<Rightarrow>
          (case finish_encoder ops enc of
             None \<Rightarrow> None
           | Some (Inl e, enc') \<Rightarrow> Some (fail_body e (b\<lparr>cb_encoder := Some enc'\<rparr>))
           | Some (Inr flushed, enc') \<Rightarrow>
               Some (b\<lparr>cb_encoder := Some enc', cb_phase := CompressionDone\<rparr>,
                     StepReady (if flushed = [] then PollEnd else PollFrame (DataFrame flushed)))))"

definition body_step :: "'e zstd_ops \<Rightarrow> ('x, 'e) compressed_body \<Rightarrow> (('x, 'e) compressed_body \<times> 'x body_step) option" where
  "body_step ops b =
     (case cb_phase b of
        CompressionDone \<Rightarrow> Some (b, StepReady PollEnd)
      | Offloading \<Rightarrow> poll_offloading ops b
      | Streaming \<Rightarrow> poll_streaming ops b
      | Flushing \<Rightarrow> poll_flushing ops b)"

partial_function (option) compressed_poll_frame ::
    "'e zstd_ops \<Rightarrow> ('x, 'e) compressed_body \<Rightarrow> (('x, 'e) compressed_body \<times> 'x body_poll) option" where
  "compressed_poll_frame ops b =
     (case body_step ops b of
        None \<Rightarrow> None
      | Some (b', StepReady p) \<Rightarrow> Some (b', p)
      | Some (b', StepContinue) \<Rightarrow> compressed_poll_frame ops b')"

definition is_end_stream :: "('x, 'e) compressed_body \<Rightarrow> bool" where
  "is_end_stream b \<longleftrightarrow> cb_phase b = CompressionDone"

text \<open>A consumer: poll until the end of the stream, at most \<open>n\<close> times.\<close>

fun drain_body :: "nat \<Rightarrow> 'e zstd_ops \<Rightarrow> ('x, 'e) compressed_body \<Rightarrow> 'x body_poll list option" where
  "drain_body 0 ops b = None"
| "drain_body (Suc n) ops b =
     (case compressed_poll_frame ops b of
        None \<Rightarrow> None
      | Some (b', PollEnd) \<Rightarrow> Some []
      | Some (b', p) \<Rightarrow> map_option (Cons p) (drain_body n ops b'))"

subsection \<open>What zstd documents\<close>

text \<open>
  \<open>mid e inp out\<close>: the encoder is in the middle of a frame that has consumed \<open>inp\<close> and emitted \<open>out\<close>;
  \<open>held\<close> bounds the bytes it can still emit, and grows by at most \<open>k\<close> per consumed byte. A call writes at most into the
  room it is given; \<open>finish\<close> reports 0 exactly when the frame is complete, and the frame then decodes to
  what was consumed.
\<close>

definition zs_doc :: "'e zstd_ops \<Rightarrow> nat \<Rightarrow> ('e \<Rightarrow> nat) \<Rightarrow> ('e \<Rightarrow> bytes \<Rightarrow> bytes \<Rightarrow> bool) \<Rightarrow> (bytes \<Rightarrow> bytes option) \<Rightarrow> bool" where
  "zs_doc ops k held mid decode \<longleftrightarrow>
     (\<forall>e chunk room c w e'. zs_run ops e chunk room = (Inr (c, w), e') \<longrightarrow>
        c \<le> length chunk \<and> length w \<le> room \<and> held e' + length w \<le> held e + k * c
        \<and> (\<forall>inp out. mid e inp out \<longrightarrow> mid e' (inp @ take c chunk) (out @ w)))
   \<and> (\<forall>e room remaining w e'. zs_finish ops e room = (Inr (remaining, w), e') \<longrightarrow>
        length w \<le> room \<and> held e' + length w \<le> held e
        \<and> (\<forall>inp out. mid e inp out \<longrightarrow> (if remaining = 0 then decode (out @ w) = Some inp else mid e' inp (out @ w))))"

lemma zs_docD:
  assumes "zs_doc ops k held mid decode"
  shows "zs_run ops e chunk room = (Inr (c, w), e') \<Longrightarrow> c \<le> length chunk \<and> length w \<le> room \<and> held e' + length w \<le> held e + k * c"
    and "zs_run ops e chunk room = (Inr (c, w), e') \<Longrightarrow> mid e inp out \<Longrightarrow> mid e' (inp @ take c chunk) (out @ w)"
    and "zs_finish ops e room = (Inr (n, w), e') \<Longrightarrow> length w \<le> room \<and> held e' + length w \<le> held e"
    and "zs_finish ops e room = (Inr (0, w), e') \<Longrightarrow> mid e inp out \<Longrightarrow> decode (out @ w) = Some inp"
    and "zs_finish ops e room = (Inr (n, w), e') \<Longrightarrow> n \<noteq> 0 \<Longrightarrow> mid e inp out \<Longrightarrow> mid e' inp (out @ w)"
  using assms unfolding zs_doc_def by metis+

lemma chunk_loop_ok:
  assumes doc: "zs_doc ops k held mid decode" and "mid enc (inp @ take pos input) (pre @ out)" and "pos \<le> length input"
  shows "\<exists>r enc'. chunk_loop ops input enc pos out cap = Some (r, enc') \<and> (\<forall>o'. r = Inr o' \<longrightarrow> mid enc' (inp @ input) (pre @ o'))"
  using assms(2-)
proof (induction "(k + 1) * (length input - pos) + held enc" arbitrary: enc pos out cap rule: less_induct)
  case less
  show ?case
  proof (cases "length input \<le> pos")
    case True
    then show ?thesis using less.prems by (subst chunk_loop.simps) simp
  next
    case False
    obtain r enc' where run: "zs_run ops enc (drop pos input) (cap - length out) = (r, enc')" by fastforce
    show ?thesis
    proof (cases r)
      case (Inl e)
      then show ?thesis using run False by (subst chunk_loop.simps) simp
    next
      case (Inr cw)
      obtain c w where cw: "cw = (c, w)" by fastforce
      note run' = run [unfolded Inr cw]
      have l: "c \<le> length input - pos" "held enc' + length w \<le> held enc + k * c" using zs_docD(1) [OF doc run'] by simp_all
      show ?thesis
      proof (cases "w = [] \<and> c = 0")
        case True
        then show ?thesis using run' False by (subst chunk_loop.simps) simp
      next
        case progress: False
        have i: "mid enc' (inp @ take (pos + c) input) (pre @ out @ w)"
          using zs_docD(2) [OF doc run' less.prems(1)] by (simp add: take_add)
        have p: "pos + c \<le> length input" using l(1) False by simp
        have "(k + 1) * (length input - pos) = (k + 1) * (length input - (pos + c)) + (k + 1) * c"
          using p by (simp flip: add_mult_distrib2)
        then have "(k + 1) * (length input - (pos + c)) + held enc' < (k + 1) * (length input - pos) + held enc"
          using l(2) progress by (cases w) auto
        note ih = less.hyps [OF this i p, of "grow (out @ w) cap"]
        have "chunk_loop ops input enc pos out cap = chunk_loop ops input enc' (pos + c) (out @ w) (grow (out @ w) cap)"
          using run' False progress by (subst chunk_loop.simps) auto
        then show ?thesis using ih by simp
      qed
    qed
  qed
qed

lemma compress_chunk_ok:
  assumes "zs_doc ops k held mid decode" and "mid enc inp pre"
  shows "\<exists>r enc'. compress_chunk ops enc input = Some (r, enc') \<and> (\<forall>o'. r = Inr o' \<longrightarrow> mid enc' (inp @ input) (pre @ o'))"
  using chunk_loop_ok [OF assms(1), of enc inp 0 input pre "[]"] assms(2) by (simp add: compress_chunk_def)

lemma grow_room: "length out \<le> cap \<Longrightarrow> length out < grow out cap"
  by (simp add: grow_def OUTPUT_BUF_SIZE_def)

lemma finish_loop_ok:
  assumes doc: "zs_doc ops k held mid decode" and "mid enc inp (pre @ out)" and "length out < cap"
  shows "\<exists>r enc'. finish_loop ops enc out cap = Some (r, enc') \<and> (\<forall>o'. r = Inr o' \<longrightarrow> decode (pre @ o') = Some inp)"
  using assms(2-)
proof (induction "held enc" arbitrary: enc out cap rule: less_induct)
  case less
  obtain r enc' where fin: "zs_finish ops enc (cap - length out) = (r, enc')" by fastforce
  show ?case
  proof (cases r)
    case (Inl e)
    then show ?thesis using fin by (subst finish_loop.simps) simp
  next
    case (Inr nw)
    obtain n w where nw: "nw = (n, w)" by fastforce
    note fin' = fin [unfolded Inr nw]
    have l: "length w \<le> cap - length out" "held enc' + length w \<le> held enc" using zs_docD(3) [OF doc fin'] by simp_all
    consider "n = 0" | "n \<noteq> 0" "w = []" | "n \<noteq> 0" "w \<noteq> []" by blast
    then show ?thesis
    proof cases
      case 1
      then show ?thesis using fin' zs_docD(4) [OF doc _ less.prems(1)] by (subst finish_loop.simps) simp
    next
      case 2
      then show ?thesis using fin' less.prems(2) by (subst finish_loop.simps) simp
    next
      case 3
      have "mid enc' inp (pre @ out @ w)" using zs_docD(5) [OF doc fin' 3(1) less.prems(1)] by simp
      moreover have "held enc' < held enc" using l(2) 3(2) by (cases w) auto
      moreover have "length (out @ w) < grow (out @ w) cap" using l(1) less.prems(2) by (intro grow_room) simp
      moreover have "finish_loop ops enc out cap = finish_loop ops enc' (out @ w) (grow (out @ w) cap)"
        using fin' 3 by (subst finish_loop.simps) simp
      ultimately show ?thesis using less.hyps [of enc' "out @ w" "grow (out @ w) cap"] by simp
    qed
  qed
qed

lemma finish_encoder_ok:
  assumes "zs_doc ops k held mid decode" and "mid enc inp pre"
  shows "\<exists>r enc'. finish_encoder ops enc = Some (r, enc') \<and> (\<forall>o'. r = Inr o' \<longrightarrow> decode (pre @ o') = Some inp)"
  using finish_loop_ok [OF assms(1), of enc inp pre "[]" OUTPUT_BUF_SIZE] assms(2) by (simp add: finish_encoder_def OUTPUT_BUF_SIZE_def)

subsection \<open>The body ends and is faithful\<close>

fun frame_data :: "body_frame \<Rightarrow> bytes" where
  "frame_data (DataFrame d) = d"
| "frame_data (Trailers t) = []"

fun frame_trailers :: "body_frame \<Rightarrow> header_map list" where
  "frame_trailers (DataFrame d) = []"
| "frame_trailers (Trailers t) = [t]"

definition inner_frames :: "'x inner_poll list \<Rightarrow> body_frame list" where
  "inner_frames inner = List.map_filter (\<lambda>p. case p of InnerFrame f \<Rightarrow> Some f | _ \<Rightarrow> None) inner"

definition poll_frames :: "'x body_poll list \<Rightarrow> body_frame list" where
  "poll_frames ps = List.map_filter (\<lambda>p. case p of PollFrame f \<Rightarrow> Some f | _ \<Rightarrow> None) ps"

definition poll_failed :: "'x body_poll \<Rightarrow> bool" where
  "poll_failed p = (case p of PollError _ \<Rightarrow> True | _ \<Rightarrow> False)"

abbreviation data_of :: "body_frame list \<Rightarrow> bytes" where
  "data_of fs \<equiv> concat (map frame_data fs)"

abbreviation trailers_of :: "body_frame list \<Rightarrow> header_map list" where
  "trailers_of fs \<equiv> concat (map frame_trailers fs)"

lemma frames_simps [simp]:
  "inner_frames [] = []" "inner_frames (InnerFrame f # r) = f # inner_frames r"
  "inner_frames (InnerPending # r) = inner_frames r" "inner_frames (InnerError e # r) = inner_frames r"
  "poll_frames [] = []" "poll_frames (PollFrame f # ps) = f # poll_frames ps" "poll_frames (PollPending # ps) = poll_frames ps"
  "poll_frames (PollError x # ps) = poll_frames ps" "poll_frames (PollEnd # ps) = poll_frames ps"
  by (simp_all add: inner_frames_def poll_frames_def List.map_filter_def)

lemma poll_failed_simps [simp]:
  "poll_failed (PollError x)" "\<not> poll_failed PollPending" "\<not> poll_failed PollEnd" "\<not> poll_failed (PollFrame f)"
  by (simp_all add: poll_failed_def)

text \<open>\<open>all\<close>: the data of the whole inner body; \<open>pre\<close>: the data emitted so far.\<close>

definition body_ok :: "('e \<Rightarrow> bytes \<Rightarrow> bytes \<Rightarrow> bool) \<Rightarrow> (bytes \<Rightarrow> bytes option) \<Rightarrow> ('x, 'e) compressed_body \<Rightarrow> bytes \<Rightarrow> bytes \<Rightarrow> bool" where
  "body_ok mid decode b all pre =
     (case cb_phase b of
        Streaming \<Rightarrow> (\<exists>enc inp. cb_encoder b = Some enc \<and> mid enc inp pre \<and> all = inp @ data_of (inner_frames (cb_inner b)))
      | Offloading \<Rightarrow> (\<exists>enc inp input. cb_task b = Some (enc, input) \<and> mid enc inp pre
            \<and> all = inp @ input @ data_of (inner_frames (cb_inner b)))
      | Flushing \<Rightarrow> cb_inner b = [] \<and> (\<exists>enc. cb_encoder b = Some enc \<and> mid enc all pre)
      | CompressionDone \<Rightarrow> cb_inner b = [] \<and> decode pre = Some all)"

definition phase_rank :: "compression_phase \<Rightarrow> nat" where
  "phase_rank p = (case p of CompressionDone \<Rightarrow> 0 | Flushing \<Rightarrow> 1 | Streaming \<Rightarrow> 2 | Offloading \<Rightarrow> 3)"

definition body_measure :: "('x, 'e) compressed_body \<Rightarrow> nat" where
  "body_measure b = 2 * length (cb_inner b) + length (cb_joins b) + phase_rank (cb_phase b)"

text \<open>One iteration: it returns, gets nearer to the end, and keeps the relation unless it reports an error.\<close>

definition step_good :: "('e \<Rightarrow> bytes \<Rightarrow> bytes \<Rightarrow> bool) \<Rightarrow> (bytes \<Rightarrow> bytes option) \<Rightarrow> ('x, 'e) compressed_body \<Rightarrow> bytes \<Rightarrow> bytes
    \<Rightarrow> (('x, 'e) compressed_body \<times> 'x body_step) option \<Rightarrow> bool" where
  "step_good mid decode b all pre res =
     (case res of
        None \<Rightarrow> False
      | Some (b', st) \<Rightarrow> body_measure b' < body_measure b \<and>
          (case st of
             StepContinue \<Rightarrow> body_ok mid decode b' all pre \<and> trailers_of (inner_frames (cb_inner b')) = trailers_of (inner_frames (cb_inner b))
           | StepReady (PollError x) \<Rightarrow> body_ok mid decode b' all pre \<or> cb_phase b' = CompressionDone
           | StepReady PollEnd \<Rightarrow> cb_inner b = [] \<and> decode pre = Some all
           | StepReady p \<Rightarrow> body_ok mid decode b' all (pre @ data_of (poll_frames [p]))
               \<and> trailers_of (inner_frames (cb_inner b)) = trailers_of (poll_frames [p]) @ trailers_of (inner_frames (cb_inner b'))))"

lemmas step_good_defs = step_good_def body_measure_def body_ok_def phase_rank_def

lemma step_good_flushing:
  assumes "zs_doc ops k held mid decode" and "body_ok mid decode b all pre" and "cb_phase b = Flushing"
  shows "step_good mid decode b all pre (poll_flushing ops b)"
proof -
  obtain enc where e: "cb_encoder b = Some enc" "mid enc all pre" "cb_inner b = []" using assms(2,3) by (auto simp: body_ok_def)
  obtain r enc' where f: "finish_encoder ops enc = Some (r, enc')" "\<forall>o'. r = Inr o' \<longrightarrow> decode (pre @ o') = Some all"
    using finish_encoder_ok [OF assms(1) e(2)] by blast
  show ?thesis using e f assms(3) by (auto simp: poll_flushing_def fail_body_def step_good_defs split: sum.split)
qed

lemma step_good_inline:
  assumes "zs_doc ops k held mid decode" and "cb_encoder b = Some enc" and "mid enc inp pre" and "cb_phase b = Streaming"
    and "cb_inner b = InnerFrame (DataFrame d) # rest" and "all = inp @ d @ data_of (inner_frames rest)"
  shows "step_good mid decode b all pre (compress_inline ops d (b\<lparr>cb_inner := rest\<rparr>))"
proof -
  obtain r enc' where f: "compress_chunk ops enc d = Some (r, enc')" "\<forall>o'. r = Inr o' \<longrightarrow> mid enc' (inp @ d) (pre @ o')"
    using compress_chunk_ok [OF assms(1,3)] by blast
  show ?thesis
    using f assms(2-) by (auto simp: compress_inline_def fail_body_def emit_data_def step_good_defs split: sum.split)
qed

lemma step_good_streaming:
  assumes "zs_doc ops k held mid decode" and "body_ok mid decode b all pre" and "cb_phase b = Streaming"
  shows "step_good mid decode b all pre (poll_streaming ops b)"
proof -
  obtain enc inp where e: "cb_encoder b = Some enc" "mid enc inp pre" "all = inp @ data_of (inner_frames (cb_inner b))"
    using assms(2,3) by (auto simp: body_ok_def)
  show ?thesis
  proof (cases "cb_inner b")
    case Nil
    then show ?thesis using e assms(3) by (auto simp: poll_streaming_def step_good_defs)
  next
    case (Cons p rest)
    consider "p = InnerPending" | x where "p = InnerError x" | t where "p = InnerFrame (Trailers t)"
      | d where "p = InnerFrame (DataFrame d)" by (metis body_frame.exhaust inner_poll.exhaust)
    then show ?thesis
    proof cases
      case (4 d)
      have a: "all = inp @ d @ data_of (inner_frames rest)" using e(3) Cons 4 by simp
      show ?thesis
      proof (cases "OFFLOAD_THRESHOLD_BYTES < length d")
        case True
        then show ?thesis using e a Cons 4 assms(3)
          by (auto simp: poll_streaming_def compress_frame_def offload_chunk_def step_good_defs)
      next
        case False
        then show ?thesis using step_good_inline [OF assms(1) e(1,2) assms(3) _ a] Cons 4
          by (simp add: poll_streaming_def compress_frame_def)
      qed
    qed (use e Cons assms(3) in \<open>auto simp: poll_streaming_def compress_frame_def step_good_defs\<close>)
  qed
qed

lemma step_good_offloading:
  assumes "zs_doc ops k held mid decode" and "body_ok mid decode b all pre" and "cb_phase b = Offloading"
  shows "step_good mid decode b all pre (poll_offloading ops b)"
proof -
  obtain enc inp input where e: "cb_task b = Some (enc, input)" "mid enc inp pre"
      "all = inp @ input @ data_of (inner_frames (cb_inner b))"
    using assms(2,3) by (auto simp: body_ok_def)
  obtain r enc' where f: "compress_chunk ops enc input = Some (r, enc')" "\<forall>o'. r = Inr o' \<longrightarrow> mid enc' (inp @ input) (pre @ o')"
    using compress_chunk_ok [OF assms(1) e(2)] by blast
  show ?thesis
    using e f assms(3)
    by (auto simp: poll_offloading_def join_result_def compress_chunk_owned_def flatten_join_def fail_body_def emit_data_def
        step_good_defs Let_def split: sum.split list.split join_poll.split)
qed

lemma body_step_good:
  assumes "zs_doc ops k held mid decode" and "body_ok mid decode b all pre" and "cb_phase b \<noteq> CompressionDone"
  shows "step_good mid decode b all pre (body_step ops b)"
  using step_good_flushing [OF assms(1,2)] step_good_streaming [OF assms(1,2)] step_good_offloading [OF assms(1,2)] assms(3)
  by (cases "cb_phase b") (simp_all add: body_step_def)

definition poll_good :: "('e \<Rightarrow> bytes \<Rightarrow> bytes \<Rightarrow> bool) \<Rightarrow> (bytes \<Rightarrow> bytes option) \<Rightarrow> ('x, 'e) compressed_body \<Rightarrow> bytes \<Rightarrow> bytes
    \<Rightarrow> (('x, 'e) compressed_body \<times> 'x body_poll) option \<Rightarrow> bool" where
  "poll_good mid decode b all pre res =
     (case res of
        None \<Rightarrow> False
      | Some (b', p) \<Rightarrow> (p \<noteq> PollEnd \<longrightarrow> body_measure b' < body_measure b) \<and>
          (case p of
             PollError x \<Rightarrow> body_ok mid decode b' all pre \<or> cb_phase b' = CompressionDone
           | PollEnd \<Rightarrow> trailers_of (inner_frames (cb_inner b)) = [] \<and> decode pre = Some all
           | _ \<Rightarrow> body_ok mid decode b' all (pre @ data_of (poll_frames [p]))
               \<and> trailers_of (inner_frames (cb_inner b)) = trailers_of (poll_frames [p]) @ trailers_of (inner_frames (cb_inner b'))))"

lemma poll_done: "cb_phase b = CompressionDone \<Longrightarrow> compressed_poll_frame ops b = Some (b, PollEnd)"
  by (subst compressed_poll_frame.simps) (simp add: body_step_def)

lemma poll_frame_good:
  assumes doc: "zs_doc ops k held mid decode" and "body_ok mid decode b all pre"
  shows "poll_good mid decode b all pre (compressed_poll_frame ops b)"
  using assms(2)
proof (induction "body_measure b" arbitrary: b rule: less_induct)
  case less
  show ?case
  proof (cases "cb_phase b = CompressionDone")
    case True
    then show ?thesis using less.prems by (simp add: poll_done poll_good_def body_ok_def)
  next
    case False
    note good = body_step_good [OF doc less.prems False]
    obtain b' st where st: "body_step ops b = Some (b', st)"
      using good by (cases "body_step ops b") (auto simp: step_good_def)
    show ?thesis
    proof (cases st)
      case (StepReady p)
      then have "compressed_poll_frame ops b = Some (b', p)" using st by (subst compressed_poll_frame.simps) simp
      then show ?thesis using good st StepReady by (cases p) (simp_all add: step_good_def poll_good_def)
    next
      case StepContinue
      have g: "body_measure b' < body_measure b" "body_ok mid decode b' all pre"
          "trailers_of (inner_frames (cb_inner b')) = trailers_of (inner_frames (cb_inner b))"
        using good st StepContinue by (simp_all add: step_good_def)
      have "compressed_poll_frame ops b = compressed_poll_frame ops b'"
        using st StepContinue by (subst compressed_poll_frame.simps) simp
      then show ?thesis
        using less.hyps [OF g(1,2)] g(1,3)
        by (auto simp: poll_good_def split: option.splits prod.splits body_poll.splits)
    qed
  qed
qed

lemma drain_body_good:
  assumes doc: "zs_doc ops k held mid decode"
  shows "body_measure b < n \<Longrightarrow> body_ok mid decode b all pre \<or> cb_phase b = CompressionDone \<Longrightarrow>
    \<exists>ps. drain_body n ops b = Some ps \<and> (body_ok mid decode b all pre \<longrightarrow> (\<forall>p\<in>set ps. \<not> poll_failed p) \<longrightarrow>
      decode (pre @ data_of (poll_frames ps)) = Some all \<and> trailers_of (poll_frames ps) = trailers_of (inner_frames (cb_inner b)))"
proof (induction n arbitrary: b pre)
  case (Suc n)
  show ?case
  proof (cases "body_ok mid decode b all pre")
    case False
    then show ?thesis using Suc.prems(2) by (simp add: poll_done)
  next
    case True
    note good = poll_frame_good [OF doc True]
    obtain b' p where p: "compressed_poll_frame ops b = Some (b', p)"
      using good by (cases "compressed_poll_frame ops b") (auto simp: poll_good_def)
    show ?thesis
    proof (cases p)
      case PollEnd
      then show ?thesis using p good by (simp add: poll_good_def)
    next
      case (PollError x)
      have "body_measure b' < n" "body_ok mid decode b' all pre \<or> cb_phase b' = CompressionDone"
        using good p PollError Suc.prems(1) by (simp_all add: poll_good_def)
      then obtain ps where "drain_body n ops b' = Some ps" using Suc.IH by blast
      then show ?thesis using p PollError by simp
    next
      case PollPending
      have g: "body_measure b' < n" "body_ok mid decode b' all pre"
          "trailers_of (inner_frames (cb_inner b)) = trailers_of (inner_frames (cb_inner b'))"
        using good p PollPending Suc.prems(1) by (simp_all add: poll_good_def)
      show ?thesis using Suc.IH [OF g(1) disjI1, OF g(2)] g(2,3) p PollPending by auto
    next
      case (PollFrame f)
      have g: "body_measure b' < n" "body_ok mid decode b' all (pre @ frame_data f)"
          "trailers_of (inner_frames (cb_inner b)) = frame_trailers f @ trailers_of (inner_frames (cb_inner b'))"
        using good p PollFrame Suc.prems(1) by (simp_all add: poll_good_def)
      show ?thesis using Suc.IH [OF g(1) disjI1, OF g(2)] g(2,3) p PollFrame by auto
    qed
  qed
qed simp

text \<open>
  Claim C32. The compressed body ends and is never silently truncated: with an encoder that behaves as zstd documents,
  whatever frames, waits and errors the inner body and the blocking task produce, every poll returns, the body
  reaches its end within a number of polls linear in those events, and unless an error was reported on the way its
  data decodes to exactly the inner body's data and its trailers are the inner body's.
\<close>
theorem compressed_body_ends:
  assumes "zs_doc ops k held mid decode" and "\<And>e. encoder_new level = Inr e \<Longrightarrow> mid e [] []"
    and "with_level encoder_new inner joins level = Inr b" and "2 * length inner + length joins + 2 < n"
  shows "\<exists>ps. drain_body n ops b = Some ps \<and> ((\<forall>p\<in>set ps. \<not> poll_failed p) \<longrightarrow>
    decode (data_of (poll_frames ps)) = Some (data_of (inner_frames inner))
    \<and> trailers_of (poll_frames ps) = trailers_of (inner_frames inner))"
proof -
  obtain e where e: "encoder_new level = Inr e"
      "b = \<lparr>cb_inner = inner, cb_encoder = Some e, cb_task = None, cb_joins = joins, cb_phase = Streaming\<rparr>"
    using assms(3) by (cases "encoder_new level") (auto simp: with_level_def)
  have ok: "body_ok mid decode b (data_of (inner_frames inner)) []" using e assms(2) by (simp add: body_ok_def)
  have "body_measure b < n" using e(2) assms(4) by (simp add: body_measure_def phase_rank_def)
  then show ?thesis using drain_body_good [OF assms(1) _ disjI1, OF _ ok] ok e(2) by fastforce
qed

text \<open>An encoder that stores, and one that keeps everything until it is finished.\<close>

definition store_encoder :: "unit zstd_ops" where
  "store_encoder = \<lparr>zs_run = (\<lambda>e chunk room. (Inr (min (length chunk) room, take (min (length chunk) room) chunk), e)),
     zs_finish = (\<lambda>e room. (Inr (0, []), e))\<rparr>"

definition hoard_encoder :: "bytes zstd_ops" where
  "hoard_encoder = \<lparr>zs_run = (\<lambda>e chunk room. (Inr (length chunk, []), e @ chunk)),
     zs_finish = (\<lambda>e room. (Inr (length e - room, take room e), drop room e))\<rparr>"

lemma store_doc: "zs_doc store_encoder 1 (\<lambda>_. 0) (\<lambda>_ inp out. inp = out) Some"
  by (simp add: zs_doc_def store_encoder_def)

lemma store_chunk: "d \<noteq> [] \<Longrightarrow> compress_chunk store_encoder e d = Some (Inr d, e)"
  unfolding compress_chunk_def
  by (subst chunk_loop.simps, simp add: store_encoder_def, subst chunk_loop.simps, simp)

lemma store_finish: "finish_encoder store_encoder e = Some (Inr [], e)"
  unfolding finish_encoder_def by (subst finish_loop.simps) (simp add: store_encoder_def)

lemmas body_eval = body_step_def poll_streaming_def compress_frame_def compress_inline_def emit_data_def poll_flushing_def
  OFFLOAD_THRESHOLD_BYTES_def

definition demo_body :: "'x inner_poll list \<Rightarrow> 'e \<Rightarrow> ('x, 'e) compressed_body" where
  "demo_body inner e = \<lparr>cb_inner = inner, cb_encoder = Some e, cb_task = None, cb_joins = [], cb_phase = Streaming\<rparr>"

lemma poll_end:
  "finish_encoder ops e = Some (Inr [], e') \<Longrightarrow>
   compressed_poll_frame ops (demo_body [] e) = Some ((demo_body [] e')\<lparr>cb_phase := CompressionDone\<rparr>, PollEnd)"
  by (subst compressed_poll_frame.simps, simp add: demo_body_def body_eval, subst compressed_poll_frame.simps, simp add: body_eval)

lemma poll_data:
  assumes "compress_chunk ops e d = Some (Inr (x # xs), e')" and "length d \<le> OFFLOAD_THRESHOLD_BYTES"
  shows "compressed_poll_frame ops (demo_body (InnerFrame (DataFrame d) # rest) e) = Some (demo_body rest e', PollFrame (DataFrame (x # xs)))"
  using assms by (subst compressed_poll_frame.simps) (simp add: demo_body_def body_eval)

lemma poll_pending: "compressed_poll_frame ops (demo_body (InnerPending # rest) e) = Some (demo_body rest e, PollPending)"
  by (subst compressed_poll_frame.simps) (simp add: demo_body_def body_eval)

definition demo_inner :: "nat inner_poll list" where
  "demo_inner = [InnerFrame (DataFrame [1, 2]), InnerPending, InnerFrame (DataFrame [3])]"

lemma drain_body_numeral:
  "drain_body (numeral v) ops b =
     (case compressed_poll_frame ops b of
        None \<Rightarrow> None
      | Some (b', PollEnd) \<Rightarrow> Some []
      | Some (b', p) \<Rightarrow> map_option (Cons p) (drain_body (pred_numeral v) ops b'))"
  unfolding numeral_eq_Suc by (rule drain_body.simps)

lemma demo_drain: "drain_body 9 store_encoder (demo_body demo_inner ()) =
    Some [PollFrame (DataFrame [1, 2]), PollPending, PollFrame (DataFrame [3])]"
  by (simp add: demo_inner_def drain_body_numeral poll_data [OF store_chunk] poll_pending poll_end [OF store_finish] OFFLOAD_THRESHOLD_BYTES_def)

theorem compressed_body_ends_witness:
  "drain_body 9 store_encoder (demo_body demo_inner ()) = Some [PollFrame (DataFrame [1, 2]), PollPending, PollFrame (DataFrame [3])]
   \<and> [1, 2, 3] = data_of (inner_frames demo_inner)"
proof -
  have w: "with_level (\<lambda>_. Inr ()) demo_inner [] 3 = Inr (demo_body demo_inner ())" by (simp add: with_level_def demo_body_def)
  have "2 * length demo_inner + length ([] :: join_poll list) + 2 < 9" by (simp add: demo_inner_def)
  from compressed_body_ends [OF store_doc _ w this] show ?thesis by (simp add: demo_drain)
qed

subsection \<open>Trailers overtake buffered data\<close>

text \<open>
  Trailers are passed through as they arrive, before the encoder is flushed, so with an encoder that still holds
  data the compressed body yields its last data after the trailers.
\<close>

lemma hoard_chunk: "d \<noteq> [] \<Longrightarrow> compress_chunk hoard_encoder e d = Some (Inr [], e @ d)"
  unfolding compress_chunk_def
  by (subst chunk_loop.simps, simp add: hoard_encoder_def, subst chunk_loop.simps, simp)

lemma hoard_finish: "length e \<le> OUTPUT_BUF_SIZE \<Longrightarrow> finish_encoder hoard_encoder e = Some (Inr e, [])"
  unfolding finish_encoder_def by (subst finish_loop.simps) (simp add: hoard_encoder_def)

lemma trailers_precede_data:
  assumes "d \<noteq> []" and "length d \<le> OUTPUT_BUF_SIZE"
  shows "drain_body 3 hoard_encoder (demo_body ([InnerFrame (DataFrame d), InnerFrame (Trailers t)] :: nat inner_poll list) []) =
    Some [PollFrame (Trailers t), PollFrame (DataFrame d)]"
proof -
  have l: "length d \<le> OFFLOAD_THRESHOLD_BYTES" using assms(2) by (simp add: OUTPUT_BUF_SIZE_def OFFLOAD_THRESHOLD_BYTES_def)
  have "compressed_poll_frame hoard_encoder (demo_body ([InnerFrame (DataFrame d), InnerFrame (Trailers t)] :: nat inner_poll list) []) =
      compressed_poll_frame hoard_encoder (demo_body ([InnerFrame (Trailers t)] :: nat inner_poll list) d)"
    using l hoard_chunk [OF assms(1)]
    by (subst compressed_poll_frame.simps) (simp add: demo_body_def body_eval)
  also have "\<dots> = Some (demo_body ([] :: nat inner_poll list) d, PollFrame (Trailers t))"
    by (subst compressed_poll_frame.simps) (simp add: demo_body_def body_eval)
  finally have 1: "compressed_poll_frame hoard_encoder (demo_body ([InnerFrame (DataFrame d), InnerFrame (Trailers t)] :: nat inner_poll list) []) =
      Some (demo_body ([] :: nat inner_poll list) d, PollFrame (Trailers t))" .
  have 2: "compressed_poll_frame hoard_encoder (demo_body ([] :: nat inner_poll list) d) =
      Some ((demo_body ([] :: nat inner_poll list) [])\<lparr>cb_phase := CompressionDone\<rparr>, PollFrame (DataFrame d))"
    using assms hoard_finish [OF assms(2)]
    by (subst compressed_poll_frame.simps, simp add: demo_body_def body_eval, subst compressed_poll_frame.simps, simp add: body_eval)
  show ?thesis using 1 2 by (simp add: drain_body_numeral poll_done)
qed

subsection \<open>Whole buffers (\<open>compression.rs\<close>)\<close>

definition DEFAULT_COMPRESSION_LEVEL :: int where "DEFAULT_COMPRESSION_LEVEL = 3"

definition compress_with_level :: "(bytes \<Rightarrow> int \<Rightarrow> string + bytes) \<Rightarrow> bytes \<Rightarrow> int \<Rightarrow> bytes result" where
  "compress_with_level encode_all data level =
     (case encode_all data level of Inl e \<Rightarrow> Inl (Transport (''zstd compress: '' @ e)) | Inr out \<Rightarrow> Inr out)"

text \<open>
  \<open>decoder_new\<close> yields the bytes the decoder produces and the error, if any, that follows them. Reading through
  \<open>take(limit)\<close> stops at the limit without asking the decoder again.
\<close>

definition decompress_bounded :: "(bytes \<Rightarrow> string + bytes \<times> string option) \<Rightarrow> bytes \<Rightarrow> nat \<Rightarrow> bytes result" where
  "decompress_bounded decoder_new data max_bytes =
     (case decoder_new data of
        Inl e \<Rightarrow> Inl (Transport (''zstd init: '' @ e))
      | Inr (stream, failure) \<Rightarrow>
          let limit = max_bytes + 1; output = take limit stream in
          (case (if length stream < limit then failure else None) of
             Some e \<Rightarrow> Inl (Transport (''zstd decompress: '' @ e))
           | None \<Rightarrow>
               if max_bytes < length output
               then Inl (Transport (''decompressed body exceeds '' @ show_nat max_bytes @ '' byte limit''))
               else Inr output))"

lemma decompress_bounded_exact:
  "decompress_bounded decoder_new data max_bytes = Inr out \<longleftrightarrow> decoder_new data = Inr (out, None) \<and> length out \<le> max_bytes"
  by (auto simp: decompress_bounded_def Let_def split: sum.splits option.splits if_splits)

end
