(* ===== verification/Pool.thy ===== *)
theory Pool
  imports Registry Timed Interfaces Config_Types
begin

section \<open>The connection pool (\<open>proxy/pool.rs\<close>, \<open>pool/quic.rs\<close>, \<open>pool/plaintext.rs\<close>)\<close>

text \<open>
  Pooled HTTP/2 senders and idle QUIC connections by address and host, the per-backend connection permits, and every
  way to obtain a sender. A connection is a handle that carries the address it was dialled to and the host
  name TLS verified; whether it is closed or ready, and how each step of a dial ends, are arguments. The
  tunnel registry shared with the listener is part of the state. The theorems: a connection is only ever
  handed out for the address and host it was verified for, the pools stay within their caps, and no backend
  has more permits out than its limit.
\<close>

definition MAX_IDLE_PER_HOST :: u32 where "MAX_IDLE_PER_HOST = 16"
definition H2_CONNS_PER_BACKEND :: u32 where "H2_CONNS_PER_BACKEND = 4"
definition H2_STREAM_WINDOW :: u32 where "H2_STREAM_WINDOW = 2 * 1024 * 1024"
definition H2_CONN_WINDOW :: u32 where "H2_CONN_WINDOW = 4 * 1024 * 1024"

record pooled_conn =
  pc_handle :: nat
  pc_addr :: socket_addr
  pc_host :: string

datatype h1_origin = OverTunnel connection | OverQuic pooled_conn | OverTcp socket_addr

datatype http_sender = H1 h1_origin | H2 pooled_conn

type_synonym host_conns = "(string \<times> pooled_conn list) list"

record conn_pool =
  cp_tcp_h2 :: "socket_addr \<Rightarrow> host_conns option"
  cp_tcp_h2_rr :: u64
  cp_quic_idle :: "(socket_addr \<times> host_conns) list"
  cp_quic_endpoint :: bool
  cp_conn_limits :: "string \<Rightarrow> nat option"
  cp_h2_conns_per_backend :: u32
  cp_max_idle_quic_per_host :: u32
  cp_h2_stream_window :: u32
  cp_h2_conn_window :: u32
  cp_tunnel_registry :: "tunnel_registry option"

definition pool_default :: conn_pool where
  "pool_default = \<lparr>cp_tcp_h2 = Map.empty, cp_tcp_h2_rr = 0, cp_quic_idle = [], cp_quic_endpoint = False,
     cp_conn_limits = Map.empty, cp_h2_conns_per_backend = H2_CONNS_PER_BACKEND,
     cp_max_idle_quic_per_host = MAX_IDLE_PER_HOST, cp_h2_stream_window = H2_STREAM_WINDOW,
     cp_h2_conn_window = H2_CONN_WINDOW, cp_tunnel_registry = None\<rparr>"

definition with_tunnel_registry :: "tunnel_registry \<Rightarrow> conn_pool \<Rightarrow> conn_pool" where
  "with_tunnel_registry r p = p\<lparr>cp_tunnel_registry := Some r\<rparr>"

definition with_pool_config :: "u32 \<Rightarrow> u32 \<Rightarrow> u32 \<Rightarrow> u32 \<Rightarrow> conn_pool \<Rightarrow> conn_pool" where
  "with_pool_config h2_conns max_idle_quic stream_window conn_window p =
     p\<lparr>cp_h2_conns_per_backend := h2_conns, cp_max_idle_quic_per_host := max_idle_quic,
       cp_h2_stream_window := stream_window, cp_h2_conn_window := conn_window\<rparr>"

subsection \<open>Connection permits\<close>

text \<open>A backend's semaphore, created with \<open>max_connections\<close> permits on first use; the map holds the free permits.\<close>

definition conn_permits :: "conn_pool \<Rightarrow> backend_config \<Rightarrow> nat" where
  "conn_permits p b = (case cp_conn_limits p (bc_id b) of None \<Rightarrow> unat (bc_max_connections b) | Some n \<Rightarrow> n)"

definition try_acquire_conn_permit :: "backend_config \<Rightarrow> conn_pool \<Rightarrow> conn_pool \<times> unit result" where
  "try_acquire_conn_permit b p =
     (let n = conn_permits p b in
      if n = 0 then (p\<lparr>cp_conn_limits := (cp_conn_limits p)(bc_id b \<mapsto> n)\<rparr>, Inl BackendUnavailable)
      else (p\<lparr>cp_conn_limits := (cp_conn_limits p)(bc_id b \<mapsto> n - 1)\<rparr>, Inr ()))"

definition release_conn_permit :: "backend_config \<Rightarrow> conn_pool \<Rightarrow> conn_pool" where
  "release_conn_permit b p = p\<lparr>cp_conn_limits := (cp_conn_limits p)(bc_id b \<mapsto> conn_permits p b + 1)\<rparr>"

definition connection_pressure :: "conn_pool \<Rightarrow> string \<Rightarrow> u32 \<Rightarrow> f64" where
  "connection_pressure p k max_connections =
     (let mx = unat max_connections in
      if mx = 0 then Fin 1
      else let available = (case cp_conn_limits p k of None \<Rightarrow> mx | Some n \<Rightarrow> n);
               in_use = mx - available
           in f64_div (f64_of_nat in_use) (f64_of_nat mx))"

subsection \<open>HTTP/2 over TLS\<close>

definition pooled_h2_conns :: "conn_pool \<Rightarrow> socket_addr \<Rightarrow> nat" where
  "pooled_h2_conns p addr = (case cp_tcp_h2 p addr of None \<Rightarrow> 0 | Some hosts \<Rightarrow> sum_list (map (length \<circ> snd) hosts))"

text \<open>What the connections answer at this moment.\<close>

record conn_view =
  cv_closed :: "pooled_conn \<Rightarrow> bool"
  cv_ready :: "pooled_conn \<Rightarrow> bool"
  cv_becomes_ready :: "pooled_conn \<Rightarrow> bool"

definition pick_ready :: "conn_view \<Rightarrow> u64 \<Rightarrow> pooled_conn list \<Rightarrow> pooled_conn \<times> bool" where
  "pick_ready v start senders =
     (let count = length senders in
      case List.find (\<lambda>i. cv_ready v (senders ! i)) (map (\<lambda>offset. unat (start + of_nat offset) mod count) [0..<count]) of
        Some i \<Rightarrow> (senders ! i, True)
      | None \<Rightarrow> (senders ! (unat start mod count), False))"

definition reuse_pooled_h2 :: "conn_view \<Rightarrow> socket_addr \<Rightarrow> string \<Rightarrow> conn_pool \<Rightarrow> conn_pool \<times> pooled_conn option" where
  "reuse_pooled_h2 v addr host p =
     (case cp_tcp_h2 p addr of
        None \<Rightarrow> (p, None)
      | Some hosts \<Rightarrow>
          (case map_of hosts host of
             None \<Rightarrow> (p, None)
           | Some senders \<Rightarrow>
               let live = filter (\<lambda>s. \<not> cv_closed v s) senders;
                   p = p\<lparr>cp_tcp_h2 := (cp_tcp_h2 p)(addr \<mapsto> AList.update host live hosts)\<rparr>
               in if live = [] then (p, None)
                  else let start = cp_tcp_h2_rr p;
                           p = p\<lparr>cp_tcp_h2_rr := start + 1\<rparr>;
                           (candidate, ready_hint) = pick_ready v start live
                       in (p, if ready_hint \<or> cv_becomes_ready v candidate then Some candidate else None)))"

text \<open>The steps of a dial; \<open>dl_handle\<close> names the connection it opens.\<close>

record dial =
  dl_handle :: nat
  dl_connect :: "(string + unit) timed"
  dl_server_name :: "string + unit"
  dl_tls :: "(string + unit) timed"
  dl_http :: "(string + unit) timed"

definition pool_h2 :: "conn_view \<Rightarrow> pooled_conn \<Rightarrow> conn_pool \<Rightarrow> conn_pool" where
  "pool_h2 v sender p =
     (let hosts = (case cp_tcp_h2 p (pc_addr sender) of None \<Rightarrow> [] | Some hosts \<Rightarrow> hosts);
          senders = (case map_of hosts (pc_host sender) of None \<Rightarrow> [] | Some ss \<Rightarrow> ss);
          live = filter (\<lambda>s. \<not> cv_closed v s) senders;
          live' = (if length live < unat (cp_h2_conns_per_backend p) then live @ [sender] else live)
      in p\<lparr>cp_tcp_h2 := (cp_tcp_h2 p)(pc_addr sender \<mapsto> AList.update (pc_host sender) live' hosts)\<rparr>)"

definition connect_tcp_h2 :: "conn_view \<Rightarrow> dial \<Rightarrow> backend_config \<Rightarrow> conn_pool \<Rightarrow> conn_pool \<times> http_sender result" where
  "connect_tcp_h2 v d b p =
     (case bind_res (timed_res Forward ''connect: timed out'' (''connect '' @ show_socket_addr (bc_address b) @ '': '') (dl_connect d)) (\<lambda>_.
           bind_res (map_err (\<lambda>e. Forward (''invalid server name: '' @ e)) (dl_server_name d)) (\<lambda>_.
           bind_res (timed_res Forward ''tls handshake: timed out'' ''tls handshake: '' (dl_tls d)) (\<lambda>_.
           timed_res Forward ''http2 handshake: timed out'' ''http2 handshake: '' (dl_http d)))) of
        Inl e \<Rightarrow> (p, Inl e)
      | Inr _ \<Rightarrow>
          let sender = \<lparr>pc_handle = dl_handle d, pc_addr = bc_address b, pc_host = bc_host b\<rparr>
          in (pool_h2 v sender p, Inr (H2 sender)))"

definition acquire_tcp :: "conn_view \<Rightarrow> dial \<Rightarrow> backend_config \<Rightarrow> conn_pool \<Rightarrow> conn_pool \<times> http_sender result" where
  "acquire_tcp v d b p =
     (case reuse_pooled_h2 v (bc_address b) (bc_host b) p of
        (p, Some sender) \<Rightarrow> (p, Inr (H2 sender))
      | (p, None) \<Rightarrow> connect_tcp_h2 v d b p)"

subsection \<open>Cleartext HTTP/1.1\<close>

definition acquire_tcp_plaintext :: "dial \<Rightarrow> backend_config \<Rightarrow> http_sender result" where
  "acquire_tcp_plaintext d b =
     bind_res (timed_res Forward ''connect: timed out'' (''connect '' @ show_socket_addr (bc_address b) @ '': '') (dl_connect d)) (\<lambda>_.
     bind_res (timed_res Forward ''http1 handshake: timed out'' ''http1 handshake: '' (dl_http d)) (\<lambda>_.
     Inr (H1 (OverTcp (bc_address b)))))"

subsection \<open>QUIC\<close>

text \<open>\<open>quic_idle\<close> is a list because draining visits its entries; lookups go by key.\<close>

fun pop_open :: "(pooled_conn \<Rightarrow> bool) \<Rightarrow> pooled_conn list \<Rightarrow> pooled_conn list \<times> pooled_conn option" where
  "pop_open is_closed [] = ([], None)"
| "pop_open is_closed (c # cs) = (if is_closed c then pop_open is_closed cs else (cs, Some c))"

definition take_quic :: "conn_view \<Rightarrow> socket_addr \<Rightarrow> string \<Rightarrow> conn_pool \<Rightarrow> conn_pool \<times> pooled_conn option" where
  "take_quic v addr host p =
     (case map_of (cp_quic_idle p) addr of
        None \<Rightarrow> (p, None)
      | Some hosts \<Rightarrow>
          (case map_of hosts host of
             None \<Rightarrow> (p, None)
           | Some queue \<Rightarrow>
               (case pop_open (cv_closed v) queue of
                  (queue', c) \<Rightarrow> (p\<lparr>cp_quic_idle := AList.update addr (AList.update host queue' hosts) (cp_quic_idle p)\<rparr>, c))))"

definition put_quic :: "conn_view \<Rightarrow> pooled_conn \<Rightarrow> socket_addr \<Rightarrow> string \<Rightarrow> conn_pool \<Rightarrow> conn_pool" where
  "put_quic v c addr host p =
     (if cv_closed v c then p
      else let hosts = (case map_of (cp_quic_idle p) addr of None \<Rightarrow> [] | Some hosts \<Rightarrow> hosts);
               queue = (case map_of hosts host of None \<Rightarrow> [] | Some q \<Rightarrow> q);
               queue' = (if length queue < unat (cp_max_idle_quic_per_host p) then queue @ [c] else queue)
           in p\<lparr>cp_quic_idle := AList.update addr (AList.update host queue' hosts) (cp_quic_idle p)\<rparr>)"

record quic_dial =
  qd_handle :: nat
  qd_crypto :: "string + unit"
  qd_bind :: "string + unit"
  qd_connect :: "string + unit"
  qd_handshake :: "(string + unit) timed"
  qd_open :: "(string + unit) timed"
  qd_stream_type :: "string + unit"
  qd_http :: "(string + unit) timed"

definition get_or_init_quic_endpoint :: "quic_dial \<Rightarrow> conn_pool \<Rightarrow> conn_pool \<times> unit result" where
  "get_or_init_quic_endpoint d p =
     (if cp_quic_endpoint p then (p, Inr ())
      else case bind_res (map_err (\<lambda>e. Forward (''QUIC client crypto: '' @ e)) (qd_crypto d)) (\<lambda>_.
                map_err (\<lambda>e. Forward (''QUIC endpoint: '' @ e)) (qd_bind d)) of
             Inl e \<Rightarrow> (p, Inl e)
           | Inr _ \<Rightarrow> (p\<lparr>cp_quic_endpoint := True\<rparr>, Inr ()))"

definition pool_bind :: "conn_pool \<times> 'a result \<Rightarrow> ('a \<Rightarrow> conn_pool \<Rightarrow> conn_pool \<times> 'b result) \<Rightarrow> conn_pool \<times> 'b result" where
  "pool_bind m k = (case m of (p, Inl e) \<Rightarrow> (p, Inl e) | (p, Inr x) \<Rightarrow> k x p)"

definition connect_quic :: "quic_dial \<Rightarrow> backend_config \<Rightarrow> conn_pool \<Rightarrow> conn_pool \<times> pooled_conn result" where
  "connect_quic d b p =
     pool_bind (get_or_init_quic_endpoint d p) (\<lambda>_ p.
       (p, bind_res (map_err (\<lambda>e. Forward (''QUIC connect: '' @ e)) (qd_connect d)) (\<lambda>_.
           bind_res (timed_res Forward ''QUIC handshake: timed out'' ''QUIC handshake: '' (qd_handshake d)) (\<lambda>_.
           Inr \<lparr>pc_handle = qd_handle d, pc_addr = bc_address b, pc_host = bc_host b\<rparr>))))"

definition take_or_connect :: "conn_view \<Rightarrow> quic_dial \<Rightarrow> backend_config \<Rightarrow> conn_pool \<Rightarrow> conn_pool \<times> pooled_conn result" where
  "take_or_connect v d b p =
     (case take_quic v (bc_address b) (bc_host b) p of
        (p, Some c) \<Rightarrow> (p, Inr c)
      | (p, None) \<Rightarrow> connect_quic d b p)"

definition acquire_quic :: "conn_view \<Rightarrow> quic_dial \<Rightarrow> backend_config \<Rightarrow> conn_pool \<Rightarrow> conn_pool \<times> http_sender result" where
  "acquire_quic v d b p =
     pool_bind (take_or_connect v d b p) (\<lambda>conn p.
     pool_bind (p, bind_res (timed_res Forward ''QUIC stream open: timed out'' ''QUIC stream open: '' (qd_open d)) (\<lambda>_.
                   map_err (\<lambda>e. Forward (''write stream type: '' @ e)) (qd_stream_type d))) (\<lambda>_ p.
     (put_quic v conn (bc_address b) (bc_host b) p,
      bind_res (timed_res Forward ''http handshake: timed out'' ''http handshake: '' (qd_http d)) (\<lambda>_. Inr (H1 (OverQuic conn))))))"

datatype raw_stream = RawTunnel connection | RawQuic pooled_conn

text \<open>A stream of the registry: the registry is updated in place.\<close>

definition registry_stream :: "(connection \<Rightarrow> bool) \<Rightarrow> (connection \<Rightarrow> string + unit) \<Rightarrow> string \<Rightarrow> tunnel_registry
    \<Rightarrow> conn_pool \<Rightarrow> conn_pool \<times> connection result" where
  "registry_stream is_closed open_bi k r p =
     (case acquire_stream is_closed (\<lambda>c. bind_res (open_bi c) (\<lambda>_. Inr c)) k r of
        (r', res) \<Rightarrow> (p\<lparr>cp_tunnel_registry := Some r'\<rparr>, res))"

text \<open>\<open>tv_closed\<close>, \<open>tv_open\<close>: the tunnel connections' state; \<open>tv_http\<close>: the HTTP/1.1 handshake over the new stream.\<close>

record tunnel_view =
  tv_closed :: "connection \<Rightarrow> bool"
  tv_open :: "connection \<Rightarrow> string + unit"
  tv_http :: "(string + unit) timed"

definition acquire_raw_stream :: "tunnel_view \<Rightarrow> conn_view \<Rightarrow> quic_dial \<Rightarrow> (string + unit) \<Rightarrow> backend_config \<Rightarrow> conn_pool \<Rightarrow> conn_pool \<times> raw_stream result" where
  "acquire_raw_stream tv v d raw_open b p =
     (let dial_quic = pool_bind (take_or_connect v d b p) (\<lambda>conn p.
            pool_bind (p, bind_res (map_err (\<lambda>e. Forward (''raw stream open: '' @ e)) raw_open) (\<lambda>_.
                          map_err (\<lambda>e. Forward (''write raw stream type: '' @ e)) (qd_stream_type d))) (\<lambda>_ p.
            (put_quic v conn (bc_address b) (bc_host b) p, Inr (RawQuic conn))))
      in case cp_tunnel_registry p of
           Some r \<Rightarrow>
             if is_tunnel_backend (bc_id b) r
             then pool_bind (registry_stream (tv_closed tv) (tv_open tv) (bc_id b) r p) (\<lambda>c p. (p, Inr (RawTunnel c)))
             else dial_quic
         | None \<Rightarrow> dial_quic)"

subsection \<open>Obtaining a sender\<close>

definition acquire_tunnel :: "tunnel_view \<Rightarrow> tunnel_registry \<Rightarrow> backend_config \<Rightarrow> conn_pool \<Rightarrow> conn_pool \<times> http_sender result" where
  "acquire_tunnel tv r b p =
     pool_bind (registry_stream (tv_closed tv) (tv_open tv) (bc_id b) r p) (\<lambda>c p.
       (p, bind_res (timed_res Forward ''tunnel http handshake: timed out'' ''tunnel http handshake: '' (tv_http tv)) (\<lambda>_.
           Inr (H1 (OverTunnel c)))))"

record pool_env =
  pe_view :: conn_view
  pe_tunnel :: tunnel_view
  pe_dial :: dial
  pe_quic :: quic_dial

definition acquire_direct :: "pool_env \<Rightarrow> backend_config \<Rightarrow> conn_pool \<Rightarrow> conn_pool \<times> http_sender result" where
  "acquire_direct env b p =
     (case bc_transport b of
        Tcp \<Rightarrow> if is_plaintext (bc_scheme b) then (p, acquire_tcp_plaintext (pe_dial env) b)
               else acquire_tcp (pe_view env) (pe_dial env) b p
      | Quic \<Rightarrow> acquire_quic (pe_view env) (pe_quic env) b p)"

definition acquire :: "pool_env \<Rightarrow> backend_config \<Rightarrow> conn_pool \<Rightarrow> conn_pool \<times> http_sender result" where
  "acquire env b p =
     (case cp_tunnel_registry p of
        Some r \<Rightarrow> if is_tunnel_backend (bc_id b) r then acquire_tunnel (pe_tunnel env) r b p else acquire_direct env b p
      | None \<Rightarrow> acquire_direct env b p)"

subsection \<open>Draining and warming up\<close>

text \<open>Both return the idle QUIC connections they close.\<close>

definition drain_backends :: "socket_addr list \<Rightarrow> conn_pool \<Rightarrow> conn_pool \<times> pooled_conn list" where
  "drain_backends addrs p =
     fold (\<lambda>addr (p, out).
        (p\<lparr>cp_tcp_h2 := (cp_tcp_h2 p)(addr := None), cp_quic_idle := AList.delete addr (cp_quic_idle p)\<rparr>,
         out @ (case map_of (cp_quic_idle p) addr of None \<Rightarrow> [] | Some hosts \<Rightarrow> concat (map snd hosts)))) addrs (p, [])"

definition drain :: "conn_pool \<Rightarrow> conn_pool \<times> pooled_conn list" where
  "drain p = (p\<lparr>cp_tcp_h2 := Map.empty, cp_quic_idle := []\<rparr>, concat (map (\<lambda>(_, hosts). concat (map snd hosts)) (cp_quic_idle p)))"

text \<open>The dials of one backend's warm-up are numbered; a failed one ends the loop.\<close>

fun warm_loop :: "(nat \<Rightarrow> conn_view \<times> dial) \<Rightarrow> backend_config \<Rightarrow> nat list \<Rightarrow> conn_pool \<Rightarrow> conn_pool" where
  "warm_loop dials b [] p = p"
| "warm_loop dials b (i # is) p =
     (case connect_tcp_h2 (fst (dials i)) (snd (dials i)) b p of
        (p', Inr _) \<Rightarrow> warm_loop dials b is p'
      | (p', Inl _) \<Rightarrow> p')"

definition warm_up_tcp :: "(nat \<Rightarrow> conn_view \<times> dial) \<Rightarrow> backend_config \<Rightarrow> conn_pool \<Rightarrow> conn_pool" where
  "warm_up_tcp dials b p =
     (let existing = (case cp_tcp_h2 p (bc_address b) of
            None \<Rightarrow> 0
          | Some hosts \<Rightarrow> (case map_of hosts (bc_host b) of None \<Rightarrow> 0 | Some ss \<Rightarrow> length ss))
      in warm_loop dials b [existing..<unat (cp_h2_conns_per_backend p)] p)"

definition warm_up_quic :: "pool_env \<Rightarrow> backend_config \<Rightarrow> conn_pool \<Rightarrow> conn_pool" where
  "warm_up_quic env b p = fst (acquire env b p)"

definition warm_up_one :: "(nat \<Rightarrow> conn_view \<times> dial) \<times> pool_env \<Rightarrow> backend_config \<Rightarrow> conn_pool \<Rightarrow> conn_pool" where
  "warm_up_one env b p =
     (if bc_transport b = Tcp \<and> is_plaintext (bc_scheme b) then p
      else case bc_transport b of Tcp \<Rightarrow> warm_up_tcp (fst env) b p | Quic \<Rightarrow> warm_up_quic (snd env) b p)"

definition warm_up :: "(backend_config \<Rightarrow> (nat \<Rightarrow> conn_view \<times> dial) \<times> pool_env) \<Rightarrow> backend_config list \<Rightarrow> conn_pool \<Rightarrow> conn_pool" where
  "warm_up env_of bs p = fold (\<lambda>b. warm_up_one (env_of b) b) bs p"

subsection \<open>Every connection stays under its address and host\<close>

definition h2_at :: "conn_pool \<Rightarrow> socket_addr \<Rightarrow> string \<Rightarrow> pooled_conn list" where
  "h2_at p addr host = (case cp_tcp_h2 p addr of None \<Rightarrow> []
     | Some hosts \<Rightarrow> (case map_of hosts host of None \<Rightarrow> [] | Some ss \<Rightarrow> ss))"

definition quic_at :: "conn_pool \<Rightarrow> socket_addr \<Rightarrow> string \<Rightarrow> pooled_conn list" where
  "quic_at p addr host = (case map_of (cp_quic_idle p) addr of None \<Rightarrow> []
     | Some hosts \<Rightarrow> (case map_of hosts host of None \<Rightarrow> [] | Some ss \<Rightarrow> ss))"

definition conns_ok :: "u32 \<Rightarrow> socket_addr \<Rightarrow> string \<Rightarrow> pooled_conn list \<Rightarrow> bool" where
  "conns_ok cap addr host cs \<longleftrightarrow> length cs \<le> unat cap \<and> (\<forall>c\<in>set cs. pc_addr c = addr \<and> pc_host c = host)"

definition pool_ok :: "conn_pool \<Rightarrow> bool" where
  "pool_ok p \<longleftrightarrow> (\<forall>addr host. conns_ok (cp_h2_conns_per_backend p) addr host (h2_at p addr host)
     \<and> conns_ok (cp_max_idle_quic_per_host p) addr host (quic_at p addr host))"

text \<open>A step that keeps the configuration and changes at most the lists of one address and host.\<close>

lemma pool_okI:
  assumes "pool_ok p" and "cp_h2_conns_per_backend p' = cp_h2_conns_per_backend p"
    and "cp_max_idle_quic_per_host p' = cp_max_idle_quic_per_host p"
    and "\<And>addr host. h2_at p' addr host = h2_at p addr host \<or> conns_ok (cp_h2_conns_per_backend p) addr host (h2_at p' addr host)"
    and "\<And>addr host. quic_at p' addr host = quic_at p addr host \<or> conns_ok (cp_max_idle_quic_per_host p) addr host (quic_at p' addr host)"
  shows "pool_ok p'"
  unfolding pool_ok_def
proof (intro allI conjI)
  fix addr host
  show "conns_ok (cp_h2_conns_per_backend p') addr host (h2_at p' addr host)"
    using assms(1,2) assms(4) [of addr host] unfolding pool_ok_def by auto
  show "conns_ok (cp_max_idle_quic_per_host p') addr host (quic_at p' addr host)"
    using assms(1,3) assms(5) [of addr host] unfolding pool_ok_def by auto
qed

lemma pool_okD:
  assumes "pool_ok p"
  shows "conns_ok (cp_h2_conns_per_backend p) addr host (h2_at p addr host)"
    and "conns_ok (cp_max_idle_quic_per_host p) addr host (quic_at p addr host)"
  using assms by (simp_all add: pool_ok_def)

lemma conns_ok_nil [simp]: "conns_ok cap addr host []"
  by (simp add: conns_ok_def)

lemma conns_ok_filter: "conns_ok cap addr host cs \<Longrightarrow> conns_ok cap addr host (filter P cs)"
  unfolding conns_ok_def by (auto intro: le_trans [OF length_filter_le])

lemma conns_ok_snoc:
  "conns_ok cap addr host cs \<Longrightarrow> length cs < unat cap \<Longrightarrow> pc_addr c = addr \<Longrightarrow> pc_host c = host \<Longrightarrow> conns_ok cap addr host (cs @ [c])"
  by (simp add: conns_ok_def)

lemma h2_at_update [simp]:
  "h2_at (p\<lparr>cp_tcp_h2 := (cp_tcp_h2 p)(addr \<mapsto> AList.update host cs hosts)\<rparr>) a h =
     (if a = addr then if h = host then cs else (case map_of hosts h of None \<Rightarrow> [] | Some ss \<Rightarrow> ss) else h2_at p a h)"
  by (simp add: h2_at_def update_conv)

lemma quic_at_update [simp]:
  "quic_at (p\<lparr>cp_quic_idle := AList.update addr (AList.update host cs hosts) (cp_quic_idle p)\<rparr>) a h =
     (if a = addr then if h = host then cs else (case map_of hosts h of None \<Rightarrow> [] | Some ss \<Rightarrow> ss) else quic_at p a h)"
  by (simp add: quic_at_def update_conv)

lemma at_other [simp]:
  "h2_at (p\<lparr>cp_quic_idle := q\<rparr>) = h2_at p" "quic_at (p\<lparr>cp_tcp_h2 := t\<rparr>) = quic_at p"
  "h2_at (p\<lparr>cp_tcp_h2_rr := n\<rparr>) = h2_at p" "quic_at (p\<lparr>cp_tcp_h2_rr := n\<rparr>) = quic_at p"
  "h2_at (p\<lparr>cp_quic_endpoint := e\<rparr>) = h2_at p" "quic_at (p\<lparr>cp_quic_endpoint := e\<rparr>) = quic_at p"
  "h2_at (p\<lparr>cp_conn_limits := l\<rparr>) = h2_at p" "quic_at (p\<lparr>cp_conn_limits := l\<rparr>) = quic_at p"
  "h2_at (p\<lparr>cp_tunnel_registry := r\<rparr>) = h2_at p" "quic_at (p\<lparr>cp_tunnel_registry := r\<rparr>) = quic_at p"
  by (simp_all add: h2_at_def quic_at_def fun_eq_iff)

lemma pool_ok_other [simp]:
  "pool_ok (p\<lparr>cp_tcp_h2_rr := n\<rparr>) = pool_ok p" "pool_ok (p\<lparr>cp_quic_endpoint := e\<rparr>) = pool_ok p"
  "pool_ok (p\<lparr>cp_conn_limits := l\<rparr>) = pool_ok p" "pool_ok (p\<lparr>cp_tunnel_registry := r\<rparr>) = pool_ok p"
  by (simp_all add: pool_ok_def)

lemma find_in: "List.find P xs = Some x \<Longrightarrow> x \<in> set xs"
  by (induction xs) (auto split: if_splits)

lemma pick_ready_in:
  assumes "senders \<noteq> []" shows "fst (pick_ready v start senders) \<in> set senders"
proof -
  have "\<forall>i\<in>set (map (\<lambda>offset. unat (start + of_nat offset) mod length senders) [0..<length senders]). i < length senders"
    using assms by auto
  then show ?thesis
    using assms by (auto simp: pick_ready_def Let_def dest!: find_in split: option.split)
qed

lemma pool_ok_set_h2:
  assumes "pool_ok p" and "conns_ok (cp_h2_conns_per_backend p) addr host cs"
    and "hosts = (case cp_tcp_h2 p addr of None \<Rightarrow> [] | Some hosts \<Rightarrow> hosts)"
  shows "pool_ok (p\<lparr>cp_tcp_h2 := (cp_tcp_h2 p)(addr \<mapsto> AList.update host cs hosts)\<rparr>)"
  by (rule pool_okI [OF assms(1)]) (use assms(2,3) in \<open>auto simp: h2_at_def update_conv split: option.splits\<close>)

lemma pool_ok_set_quic:
  assumes "pool_ok p" and "conns_ok (cp_max_idle_quic_per_host p) addr host cs"
    and "hosts = (case map_of (cp_quic_idle p) addr of None \<Rightarrow> [] | Some hosts \<Rightarrow> hosts)"
  shows "pool_ok (p\<lparr>cp_quic_idle := AList.update addr (AList.update host cs hosts) (cp_quic_idle p)\<rparr>)"
  by (rule pool_okI [OF assms(1)]) (use assms(2,3) in \<open>auto simp: quic_at_def update_conv split: option.splits\<close>)

subsection \<open>Operations keep the pool well formed\<close>

definition conn_for :: "backend_config \<Rightarrow> pooled_conn \<Rightarrow> bool" where
  "conn_for b c \<longleftrightarrow> pc_addr c = bc_address b \<and> pc_host c = bc_host b"

lemma reuse_ok:
  assumes "pool_ok p" and "reuse_pooled_h2 v (bc_address b) (bc_host b) p = (p', res)"
  shows "pool_ok p' \<and> cp_tunnel_registry p' = cp_tunnel_registry p \<and> (\<forall>c. res = Some c \<longrightarrow> conn_for b c)"
proof (cases "cp_tcp_h2 p (bc_address b)")
  case None
  then show ?thesis using assms by (simp add: reuse_pooled_h2_def)
next
  case (Some hosts)
  show ?thesis
  proof (cases "map_of hosts (bc_host b)")
    case None
    then show ?thesis using assms Some by (simp add: reuse_pooled_h2_def)
  next
    case senders: (Some senders)
    let ?live = "filter (\<lambda>s. \<not> cv_closed v s) senders"
    have "h2_at p (bc_address b) (bc_host b) = senders" using Some senders by (simp add: h2_at_def)
    then have c: "conns_ok (cp_h2_conns_per_backend p) (bc_address b) (bc_host b) senders"
      using pool_okD(1) [OF assms(1), of "bc_address b" "bc_host b"] by simp
    note q = pool_ok_set_h2 [OF assms(1) conns_ok_filter [OF c, of "\<lambda>s. \<not> cv_closed v s"], of hosts]
    have "fst (pick_ready v start ?live) \<in> set senders" if "?live \<noteq> []" for start
      using pick_ready_in [OF that] by auto
    then have "conn_for b (fst (pick_ready v start ?live))" if "?live \<noteq> []" for start
      using that c by (auto simp: conns_ok_def conn_for_def)
    then show ?thesis
      using assms(2) Some senders q by (auto simp: reuse_pooled_h2_def Let_def split: if_splits prod.splits) (metis fst_conv)+
  qed
qed

lemma pool_h2_ok:
  assumes "pool_ok p" shows "pool_ok (pool_h2 v c p) \<and> cp_tunnel_registry (pool_h2 v c p) = cp_tunnel_registry p"
proof -
  define hosts where "hosts = (case cp_tcp_h2 p (pc_addr c) of None \<Rightarrow> [] | Some hosts \<Rightarrow> hosts)"
  define live where "live = filter (\<lambda>s. \<not> cv_closed v s) (h2_at p (pc_addr c) (pc_host c))"
  have l: "conns_ok (cp_h2_conns_per_backend p) (pc_addr c) (pc_host c) live"
    unfolding live_def by (rule conns_ok_filter [OF pool_okD(1) [OF assms]])
  have "conns_ok (cp_h2_conns_per_backend p) (pc_addr c) (pc_host c)
      (if length live < unat (cp_h2_conns_per_backend p) then live @ [c] else live)"
    using l conns_ok_snoc [OF l] by simp
  note q = pool_ok_set_h2 [OF assms this hosts_def]
  have "(case map_of hosts (pc_host c) of None \<Rightarrow> [] | Some ss \<Rightarrow> ss) = h2_at p (pc_addr c) (pc_host c)"
    by (simp add: hosts_def h2_at_def split: option.split)
  note g = this
  have e: "pool_h2 v c p = p\<lparr>cp_tcp_h2 := (cp_tcp_h2 p)(pc_addr c \<mapsto> AList.update (pc_host c)
      (if length live < unat (cp_h2_conns_per_backend p) then live @ [c] else live) hosts)\<rparr>"
    unfolding pool_h2_def Let_def hosts_def [symmetric] g live_def by (rule refl)
  show ?thesis unfolding e by (intro conjI q) simp
qed

lemma connect_tcp_h2_ok:
  assumes "pool_ok p" and "connect_tcp_h2 v d b p = (p', res)"
  shows "pool_ok p' \<and> cp_tunnel_registry p' = cp_tunnel_registry p \<and> (\<forall>s. res = Inr s \<longrightarrow> (\<exists>c. s = H2 c \<and> conn_for b c))"
  using assms pool_h2_ok [OF assms(1)] by (auto simp: connect_tcp_h2_def Let_def conn_for_def split: sum.splits)

lemma acquire_tcp_ok:
  assumes "pool_ok p" and "acquire_tcp v d b p = (p', res)"
  shows "pool_ok p' \<and> cp_tunnel_registry p' = cp_tunnel_registry p \<and> (\<forall>s. res = Inr s \<longrightarrow> (\<exists>c. s = H2 c \<and> conn_for b c))"
proof -
  obtain p1 found where r: "reuse_pooled_h2 v (bc_address b) (bc_host b) p = (p1, found)" by fastforce
  note ok = reuse_ok [OF assms(1) r]
  show ?thesis
  proof (cases found)
    case None
    then have "connect_tcp_h2 v d b p1 = (p', res)" using assms(2) r by (simp add: acquire_tcp_def)
    then show ?thesis using connect_tcp_h2_ok [of p1 v d b p' res] ok by simp
  next
    case (Some c)
    then show ?thesis using assms(2) r ok by (auto simp: acquire_tcp_def)
  qed
qed

lemma pop_open_sub: "pop_open P cs = (cs', c) \<Longrightarrow> set cs' \<subseteq> set cs \<and> length cs' \<le> length cs \<and> (\<forall>x. c = Some x \<longrightarrow> x \<in> set cs)"
  by (induction cs arbitrary: cs' c) (auto split: if_splits simp: le_SucI)

lemma take_quic_ok:
  assumes "pool_ok p" and "take_quic v (bc_address b) (bc_host b) p = (p', res)"
  shows "pool_ok p' \<and> cp_tunnel_registry p' = cp_tunnel_registry p \<and> (\<forall>c. res = Some c \<longrightarrow> conn_for b c)"
proof (cases "map_of (cp_quic_idle p) (bc_address b)")
  case None
  then show ?thesis using assms by (simp add: take_quic_def)
next
  case (Some hosts)
  show ?thesis
  proof (cases "map_of hosts (bc_host b)")
    case None
    then show ?thesis using assms Some by (simp add: take_quic_def)
  next
    case queue: (Some queue)
    obtain q' c where pop: "pop_open (cv_closed v) queue = (q', c)" by fastforce
    note sub = pop_open_sub [OF pop]
    have "quic_at p (bc_address b) (bc_host b) = queue" using Some queue by (simp add: quic_at_def)
    then have o: "conns_ok (cp_max_idle_quic_per_host p) (bc_address b) (bc_host b) queue"
      using pool_okD(2) [OF assms(1), of "bc_address b" "bc_host b"] by simp
    then have "conns_ok (cp_max_idle_quic_per_host p) (bc_address b) (bc_host b) q'"
      using sub by (auto simp: conns_ok_def)
    note q = pool_ok_set_quic [OF assms(1) this, of hosts]
    show ?thesis using assms(2) Some queue pop q o sub by (auto simp: take_quic_def conns_ok_def conn_for_def)
  qed
qed

lemma put_quic_ok:
  assumes "pool_ok p" and "conn_for b c"
  shows "pool_ok (put_quic v c (bc_address b) (bc_host b) p) \<and> cp_tunnel_registry (put_quic v c (bc_address b) (bc_host b) p) = cp_tunnel_registry p"
proof -
  define hosts where "hosts = (case map_of (cp_quic_idle p) (bc_address b) of None \<Rightarrow> [] | Some hosts \<Rightarrow> hosts)"
  let ?q = "quic_at p (bc_address b) (bc_host b)"
  have l: "conns_ok (cp_max_idle_quic_per_host p) (bc_address b) (bc_host b) ?q" by (rule pool_okD(2) [OF assms(1)])
  have "conns_ok (cp_max_idle_quic_per_host p) (bc_address b) (bc_host b)
      (if length ?q < unat (cp_max_idle_quic_per_host p) then ?q @ [c] else ?q)"
    using l conns_ok_snoc [OF l] assms(2) by (simp add: conn_for_def)
  note q = pool_ok_set_quic [OF assms(1) this hosts_def]
  have "(case map_of hosts (bc_host b) of None \<Rightarrow> [] | Some ss \<Rightarrow> ss) = ?q"
    by (simp add: hosts_def quic_at_def split: option.split)
  note g = this
  have e: "put_quic v c (bc_address b) (bc_host b) p = (if cv_closed v c then p
      else p\<lparr>cp_quic_idle := AList.update (bc_address b) (AList.update (bc_host b)
        (if length ?q < unat (cp_max_idle_quic_per_host p) then ?q @ [c] else ?q) hosts) (cp_quic_idle p)\<rparr>)"
    unfolding put_quic_def Let_def hosts_def [symmetric] g by (rule refl)
  show ?thesis
  proof (cases "cv_closed v c")
    case False
    then have "put_quic v c (bc_address b) (bc_host b) p = p\<lparr>cp_quic_idle := AList.update (bc_address b) (AList.update (bc_host b)
        (if length ?q < unat (cp_max_idle_quic_per_host p) then ?q @ [c] else ?q) hosts) (cp_quic_idle p)\<rparr>"
      unfolding e by (rule if_not_P)
    note e' = this
    show ?thesis unfolding e' by (intro conjI q) simp
  qed (simp add: e assms(1))
qed

lemma take_or_connect_ok:
  assumes "pool_ok p" and "take_or_connect v d b p = (p', res)"
  shows "pool_ok p' \<and> cp_tunnel_registry p' = cp_tunnel_registry p \<and> (\<forall>c. res = Inr c \<longrightarrow> conn_for b c)"
proof -
  obtain p1 found where t: "take_quic v (bc_address b) (bc_host b) p = (p1, found)" by fastforce
  note ok = take_quic_ok [OF assms(1) t]
  show ?thesis
  proof (cases found)
    case None
    then have "connect_quic d b p1 = (p', res)" using assms(2) t by (simp add: take_or_connect_def)
    then show ?thesis
      using ok by (auto simp: connect_quic_def get_or_init_quic_endpoint_def pool_bind_def conn_for_def bind_res_Inr
          split: if_splits sum.splits)
  next
    case (Some c)
    then show ?thesis using assms(2) t ok by (auto simp: take_or_connect_def)
  qed
qed

lemma acquire_quic_ok:
  assumes "pool_ok p" and "acquire_quic v d b p = (p', res)"
  shows "pool_ok p' \<and> cp_tunnel_registry p' = cp_tunnel_registry p \<and> (\<forall>s. res = Inr s \<longrightarrow> (\<exists>c. s = H1 (OverQuic c) \<and> conn_for b c))"
proof -
  obtain p1 r1 where t: "take_or_connect v d b p = (p1, r1)" by fastforce
  note ok = take_or_connect_ok [OF assms(1) t]
  show ?thesis
  proof (cases r1)
    case (Inl e)
    then show ?thesis using assms(2) t ok by (auto simp: acquire_quic_def pool_bind_def)
  next
    case (Inr c)
    then have f: "conn_for b c" "pool_ok p1" using ok by auto
    show ?thesis
      using assms(2) t ok Inr f(1) put_quic_ok [OF f(2,1)]
      by (auto simp: acquire_quic_def pool_bind_def bind_res_Inr split: sum.splits)
  qed
qed

lemma acquire_raw_ok:
  assumes "pool_ok p" shows "pool_ok (fst (acquire_raw_stream tv v d raw_open b p))"
proof -
  obtain p1 r1 where t: "take_or_connect v d b p = (p1, r1)" by fastforce
  note ok = take_or_connect_ok [OF assms t]
  have "pool_ok (put_quic v c (bc_address b) (bc_host b) p1)" if "r1 = Inr c" for c using put_quic_ok ok that by blast
  then show ?thesis
    using assms t ok by (auto simp: acquire_raw_stream_def registry_stream_def pool_bind_def Let_def split: option.split sum.split prod.split)
qed

text \<open>What a sender may be used for: the backend it was acquired for.\<close>

definition sender_for :: "backend_config \<Rightarrow> tunnel_registry option \<Rightarrow> http_sender \<Rightarrow> bool" where
  "sender_for b reg s =
     (case s of
        H2 c \<Rightarrow> conn_for b c \<and> bc_transport b = Tcp \<and> \<not> is_plaintext (bc_scheme b)
      | H1 (OverQuic c) \<Rightarrow> conn_for b c \<and> bc_transport b = Quic
      | H1 (OverTcp a) \<Rightarrow> a = bc_address b \<and> bc_transport b = Tcp \<and> is_plaintext (bc_scheme b)
      | H1 (OverTunnel c) \<Rightarrow> (\<exists>r x. reg = Some r \<and> x \<in> set (bucket r (bc_id b)) \<and> ts_connection x = c))"

lemma acquire_direct_ok:
  assumes "pool_ok p" and "acquire_direct env b p = (p', res)"
  shows "pool_ok p' \<and> (\<forall>s. res = Inr s \<longrightarrow> sender_for b reg s)"
proof (cases "bc_transport b")
  case Quic
  then have "acquire_quic (pe_view env) (pe_quic env) b p = (p', res)" using assms(2) by (simp add: acquire_direct_def)
  from acquire_quic_ok [OF assms(1) this] show ?thesis using Quic by (auto simp: sender_for_def)
next
  case Tcp
  show ?thesis
  proof (cases "is_plaintext (bc_scheme b)")
    case True
    then show ?thesis
      using assms Tcp by (auto simp: acquire_direct_def acquire_tcp_plaintext_def sender_for_def bind_res_Inr)
  next
    case False
    then have "acquire_tcp (pe_view env) (pe_dial env) b p = (p', res)" using assms(2) Tcp by (simp add: acquire_direct_def)
    from acquire_tcp_ok [OF assms(1) this] show ?thesis using Tcp False by (auto simp: sender_for_def)
  qed
qed

lemma acquire_tunnel_ok:
  assumes "pool_ok p" and "acquire_tunnel tv r b p = (p', res)"
  shows "pool_ok p' \<and> (\<forall>s. res = Inr s \<longrightarrow> sender_for b (Some r) s)"
proof -
  obtain r1 res1 where a: "acquire_stream (tv_closed tv) (\<lambda>c. bind_res (tv_open tv c) (\<lambda>_. Inr c)) (bc_id b) r = (r1, res1)" by fastforce
  have "\<exists>x. x \<in> set (bucket r (bc_id b)) \<and> ts_connection x = c" if "res1 = Inr c" for c
    using acquire_live [of "tv_closed tv" "\<lambda>c. bind_res (tv_open tv c) (\<lambda>_. Inr c)" "bc_id b" r c] a that by (auto simp: bind_res_Inr)
  then show ?thesis
    using assms a by (auto simp: acquire_tunnel_def registry_stream_def pool_bind_def sender_for_def bind_res_Inr split: sum.splits)
qed

lemma acquire_ok:
  assumes "pool_ok p" and "acquire env b p = (p', res)"
  shows "pool_ok p' \<and> (\<forall>s. res = Inr s \<longrightarrow> sender_for b (cp_tunnel_registry p) s)"
proof (cases "\<exists>r. cp_tunnel_registry p = Some r \<and> is_tunnel_backend (bc_id b) r")
  case True
  then obtain r where r: "cp_tunnel_registry p = Some r" "is_tunnel_backend (bc_id b) r" by blast
  then have "acquire_tunnel (pe_tunnel env) r b p = (p', res)" using assms(2) by (simp add: acquire_def)
  from acquire_tunnel_ok [OF assms(1) this] show ?thesis using r by simp
next
  case False
  then have "acquire_direct env b p = (p', res)" using assms(2) by (auto simp: acquire_def split: option.splits if_splits)
  from acquire_direct_ok [OF assms(1) this] show ?thesis by blast
qed

lemma pool_ok_clear:
  "pool_ok p \<Longrightarrow> pool_ok (p\<lparr>cp_tcp_h2 := (cp_tcp_h2 p)(addr := None), cp_quic_idle := AList.delete addr (cp_quic_idle p)\<rparr>)"
  "pool_ok p \<Longrightarrow> pool_ok (p\<lparr>cp_tcp_h2 := Map.empty, cp_quic_idle := []\<rparr>)"
  by (erule pool_okI; simp add: h2_at_def quic_at_def delete_conv)+

lemma drain_backends_ok: "pool_ok p \<Longrightarrow> pool_ok (fst (drain_backends addrs p))"
proof -
  have "pool_ok p \<Longrightarrow> pool_ok (fst (fold (\<lambda>addr (p, out).
        (p\<lparr>cp_tcp_h2 := (cp_tcp_h2 p)(addr := None), cp_quic_idle := AList.delete addr (cp_quic_idle p)\<rparr>,
         out @ (case map_of (cp_quic_idle p) addr of None \<Rightarrow> [] | Some hosts \<Rightarrow> concat (map snd hosts)))) addrs (p, out)))" for out
    by (induction addrs arbitrary: p out) (simp_all add: pool_ok_clear(1))
  then show "pool_ok p \<Longrightarrow> pool_ok (fst (drain_backends addrs p))" by (simp add: drain_backends_def)
qed

lemma warm_loop_ok: "pool_ok p \<Longrightarrow> pool_ok (warm_loop dials b is p)"
proof (induction "is" arbitrary: p)
  case (Cons i "is")
  obtain p' r where c: "connect_tcp_h2 (fst (dials i)) (snd (dials i)) b p = (p', r)" by fastforce
  show ?case using connect_tcp_h2_ok [OF Cons.prems c] Cons.IH [of p'] c by (cases r) simp_all
qed simp

lemma warm_up_ok: "pool_ok p \<Longrightarrow> pool_ok (warm_up env_of bs p)"
proof (induction bs arbitrary: p)
  case (Cons b bs)
  have "pool_ok (fst (acquire env b p))" for env using acquire_ok [OF Cons.prems, of env b] by (metis prod.collapse)
  then have "pool_ok (warm_up_one (env_of b) b p)"
    using Cons.prems warm_loop_ok by (simp add: warm_up_one_def warm_up_tcp_def warm_up_quic_def Let_def split: transport_kind.split)
  from Cons.IH [OF this] show ?case by (simp add: warm_up_def)
qed (simp add: warm_up_def)

text \<open>Any sequence of pool calls, with the listener changing the shared registry in between.\<close>

datatype pool_op =
    PAcquire pool_env backend_config
  | PRaw tunnel_view conn_view quic_dial "string + unit" backend_config
  | PPermit backend_config
  | PRelease backend_config
  | PDrainBackends "socket_addr list"
  | PDrain
  | PWarmUp "backend_config \<Rightarrow> (nat \<Rightarrow> conn_view \<times> dial) \<times> pool_env" "backend_config list"
  | PRegistry registry_op

fun pool_step :: "pool_op \<Rightarrow> conn_pool \<Rightarrow> conn_pool" where
  "pool_step (PAcquire env b) p = fst (acquire env b p)"
| "pool_step (PRaw tv v d o' b) p = fst (acquire_raw_stream tv v d o' b p)"
| "pool_step (PPermit b) p = fst (try_acquire_conn_permit b p)"
| "pool_step (PRelease b) p = release_conn_permit b p"
| "pool_step (PDrainBackends addrs) p = fst (drain_backends addrs p)"
| "pool_step PDrain p = fst (drain p)"
| "pool_step (PWarmUp env_of bs) p = warm_up env_of bs p"
| "pool_step (PRegistry op) p = p\<lparr>cp_tunnel_registry := map_option (registry_step op) (cp_tunnel_registry p)\<rparr>"

lemma pool_step_ok: "pool_ok p \<Longrightarrow> pool_ok (pool_step op p)"
proof (cases op)
  case (PAcquire env b)
  moreover assume "pool_ok p"
  ultimately show ?thesis using acquire_ok [of p env b] by (metis pool_step.simps(1) prod.collapse)
qed (simp_all add: acquire_raw_ok drain_backends_ok warm_up_ok pool_ok_clear try_acquire_conn_permit_def release_conn_permit_def
    drain_def Let_def)

lemma pool_steps_ok: "pool_ok p \<Longrightarrow> pool_ok (fold pool_step ops p)"
  by (induction ops arbitrary: p) (simp_all add: pool_step_ok)

lemma pool_default_ok: "pool_ok (with_pool_config h i sw cw (pool_default\<lparr>cp_tunnel_registry := reg\<rparr>))"
  by (simp add: pool_ok_def h2_at_def quic_at_def pool_default_def with_pool_config_def)

text \<open>
  Claim C33. Connections are never shared across host names: after any sequence of acquisitions, drains and warm-ups, with
  connections closing and the tunnel registry changing at any time, a sender the pool hands out for a
  backend is a TLS or QUIC connection dialled to that backend's address and verified for that backend's host, a
  fresh cleartext connection to it when its scheme is http, or a stream of one of that backend's own
  tunnel sessions.
\<close>
theorem pool_host_isolated:
  assumes "p = fold pool_step ops (with_pool_config h i sw cw (pool_default\<lparr>cp_tunnel_registry := reg\<rparr>))"
    and "snd (acquire env b p) = Inr s"
  shows "sender_for b (cp_tunnel_registry p) s"
proof -
  have "pool_ok p" unfolding assms(1) by (rule pool_steps_ok [OF pool_default_ok])
  moreover have "acquire env b p = (fst (acquire env b p), Inr s)" using assms(2) by (metis prod.collapse)
  ultimately show ?thesis using acquire_ok [of p env b "fst (acquire env b p)" "Inr s"] by blast
qed

definition demo_backend :: "string \<Rightarrow> backend_config" where
  "demo_backend host = \<lparr>bc_id = ''b'', bc_pool = ''p'', bc_address = \<lparr>sa_ip = V4 1, sa_port = 443\<rparr>, bc_host = host, bc_weight = Fin 1,
     bc_transport = Tcp, bc_scheme = Https, bc_max_connections = 2, bc_wakeable = False\<rparr>"

definition demo_pool_env :: "nat \<Rightarrow> pool_env" where
  "demo_pool_env n =
     (let ok = Completed (Inr ()) in
      \<lparr>pe_view = \<lparr>cv_closed = (\<lambda>_. False), cv_ready = (\<lambda>_. True), cv_becomes_ready = (\<lambda>_. True)\<rparr>,
       pe_tunnel = \<lparr>tv_closed = (\<lambda>_. False), tv_open = (\<lambda>_. Inr ()), tv_http = ok\<rparr>,
       pe_dial = \<lparr>dl_handle = n, dl_connect = ok, dl_server_name = Inr (), dl_tls = ok, dl_http = ok\<rparr>,
       pe_quic = \<lparr>qd_handle = n, qd_crypto = Inr (), qd_bind = Inr (), qd_connect = Inr (), qd_handshake = ok,
                  qd_open = ok, qd_stream_type = Inr (), qd_http = ok\<rparr>\<rparr>)"

lemmas demo_pool_defs = demo_backend_def demo_pool_env_def acquire_def acquire_direct_def acquire_tcp_def reuse_pooled_h2_def
  connect_tcp_h2_def pool_h2_def pick_ready_def pool_default_def with_pool_config_def is_plaintext_def map_err_def Let_def

theorem pool_host_isolated_witness:
  "let p = pool_step (PAcquire (demo_pool_env 1) (demo_backend ''a'')) (with_pool_config 4 16 1 1 pool_default) in
   snd (acquire (demo_pool_env 2) (demo_backend ''a'') p) = Inr (H2 \<lparr>pc_handle = 1, pc_addr = \<lparr>sa_ip = V4 1, sa_port = 443\<rparr>, pc_host = ''a''\<rparr>)
   \<and> snd (acquire (demo_pool_env 3) (demo_backend ''z'') p) = Inr (H2 \<lparr>pc_handle = 3, pc_addr = \<lparr>sa_ip = V4 1, sa_port = 443\<rparr>, pc_host = ''z''\<rparr>)
   \<and> sender_for (demo_backend ''z'') None (H2 \<lparr>pc_handle = 3, pc_addr = \<lparr>sa_ip = V4 1, sa_port = 443\<rparr>, pc_host = ''z''\<rparr>)"
proof -
  define p where "p = pool_step (PAcquire (demo_pool_env 1) (demo_backend ''a'')) (with_pool_config 4 16 1 1 pool_default)"
  have e: "p = fold pool_step [PAcquire (demo_pool_env 1) (demo_backend ''a'')] (with_pool_config 4 16 1 1 (pool_default\<lparr>cp_tunnel_registry := None\<rparr>))"
    by (simp add: p_def pool_default_def)
  have r: "cp_tunnel_registry p = None" by (simp add: p_def demo_pool_defs)
  have a: "snd (acquire (demo_pool_env 2) (demo_backend ''a'') p) = Inr (H2 \<lparr>pc_handle = 1, pc_addr = \<lparr>sa_ip = V4 1, sa_port = 443\<rparr>, pc_host = ''a''\<rparr>)"
    by (simp add: p_def demo_pool_defs)
  have z: "snd (acquire (demo_pool_env 3) (demo_backend ''z'') p) = Inr (H2 \<lparr>pc_handle = 3, pc_addr = \<lparr>sa_ip = V4 1, sa_port = 443\<rparr>, pc_host = ''z''\<rparr>)"
    by (simp add: p_def demo_pool_defs)
  show ?thesis using a z pool_host_isolated [OF e z] unfolding p_def [symmetric] Let_def r by blast
qed

subsection \<open>Connection permits are bounded\<close>

definition conn_acquire :: "backend_config \<Rightarrow> conn_pool \<Rightarrow> conn_pool option" where
  "conn_acquire b p = (case try_acquire_conn_permit b p of (p', Inr _) \<Rightarrow> Some p' | (_, Inl _) \<Rightarrow> None)"

interpretation conn_permit_pool: permit_pool "\<lambda>p. conn_permits p b" "conn_acquire b" "release_conn_permit b" for b
  by unfold_locales
    (auto simp: conn_acquire_def try_acquire_conn_permit_def release_conn_permit_def conn_permits_def Let_def split: if_splits option.splits)

lemma conn_permits_bounded:
  assumes "permit_run (conn_acquire b) (release_conn_permit b) ops (0, p) = (held, p')" and "cp_conn_limits p (bc_id b) = None"
  shows "held \<le> unat (bc_max_connections b)"
  using conn_permit_pool.bounded [OF assms(1)] assms(2) by (simp add: conn_permits_def)

lemma conn_pressure_exact:
  assumes "permit_run (conn_acquire b) (release_conn_permit b) ops (0, p) = (held, p')" and "cp_conn_limits p (bc_id b) = None"
    and "bc_max_connections b \<noteq> 0"
  shows "connection_pressure p' (bc_id b) (bc_max_connections b) =
    f64_div (f64_of_nat held) (f64_of_nat (unat (bc_max_connections b)))"
proof -
  have "held + conn_permits p' b = unat (bc_max_connections b)"
    using conn_permit_pool.conserved [OF assms(1)] assms(2) by (simp add: conn_permits_def)
  then have "unat (bc_max_connections b) - conn_permits p' b = held" by simp
  moreover have "unat (bc_max_connections b) \<noteq> 0" using assms(3) by (simp add: unat_eq_zero)
  ultimately show ?thesis by (auto simp: connection_pressure_def conn_permits_def Let_def split: option.splits)
qed

end
