(* ===== verification/Acme.thy ===== *)
theory Acme
  imports Config
begin

section \<open>ACME certificates and their secret state (\<open>tls/acme.rs\<close>, \<open>tls/secret_state.rs\<close>)\<close>

text \<open>
  The task that obtains and renews the server certificate, the resolver it feeds and the store that keeps account and
  certificate. The ACME client, key generation, signing and the parsers of JSON, PEM and X.509 are other
  crates: pure ones are fields of \<open>acme_deps\<close>, calls with an effect are outcomes in \<open>acme_env\<close>. The file store is the
  content of its one file; of the store command we keep the blobs it accepted, and the environment variable it injects is
  fixed for the life of the process. The theorems: what is served after the start, how failing renewals are paced, and that the file store
  never loses a certificate or an account; and two ways in which the store command and short-lived certificates break these.
\<close>

subsection \<open>State\<close>

record acme_secret_state =
  as_account_credentials :: "string option"
  as_cert_chain_pem :: "string option"
  as_key_pem :: "string option"

definition secret_default :: acme_secret_state where
  "secret_default = \<lparr>as_account_credentials = None, as_cert_chain_pem = None, as_key_pem = None\<rparr>"

definition secret_is_empty :: "acme_secret_state \<Rightarrow> bool" where
  "secret_is_empty s \<longleftrightarrow> as_account_credentials s = None \<and> as_cert_chain_pem s = None \<and> as_key_pem s = None"

datatype secret_store = FileStore string | Barrel string "string list"

definition from_acme_config :: "acme_tls_config \<Rightarrow> secret_store" where
  "from_acme_config config =
     (case atc_barrel_state config of
        Some barrel \<Rightarrow> Barrel (bsc_env_var barrel) (bsc_persist_command barrel)
      | None \<Rightarrow> FileStore (atc_cache_dir config))"

record certified_key =
  ck_cert :: "bytes list"
  ck_key :: bytes

datatype key_consistency = KeysConsistent | KeysUnknown | KeysInconsistent string

record challenge_extension =
  ce_oid :: "nat list"
  ce_content :: bytes
  ce_critical :: bool

record acme_deps =
  ad_to_json :: "acme_secret_state \<Rightarrow> string + string"
  ad_from_json :: "string \<Rightarrow> string + acme_secret_state"
  ad_credentials :: "string \<Rightarrow> string + unit"
  ad_pem_certs :: "string \<Rightarrow> string + bytes list"
  ad_pem_key :: "string \<Rightarrow> string + bytes"
  ad_ecdsa :: "bytes \<Rightarrow> string + bytes"
  ad_keys_match :: "certified_key \<Rightarrow> key_consistency"
  ad_not_after :: "bytes \<Rightarrow> string + int"
  ad_self_signed :: "string \<Rightarrow> challenge_extension \<Rightarrow> string + bytes"

text \<open>What the custody of the secret state holds.\<close>

record custody =
  cu_file :: "string option"
  cu_env :: "string \<Rightarrow> string option"
  cu_accepted :: "string list"

record acme_resolver =
  ar_cert :: "certified_key option"
  ar_challenge_certs :: "string \<Rightarrow> certified_key option"

record acme_task =
  at_config :: acme_tls_config
  at_resolver :: acme_resolver
  at_custody :: custody
  at_renewals :: nat
  at_failures :: nat

definition resolver_new :: acme_resolver where
  "resolver_new = \<lparr>ar_cert = None, ar_challenge_certs = Map.empty\<rparr>"

definition set_cert :: "certified_key \<Rightarrow> acme_task \<Rightarrow> acme_task" where
  "set_cert k t = t\<lparr>at_resolver := (at_resolver t)\<lparr>ar_cert := Some k\<rparr>\<rparr>"

definition set_challenge_cert :: "string \<Rightarrow> certified_key \<Rightarrow> acme_task \<Rightarrow> acme_task" where
  "set_challenge_cert domain k t = t\<lparr>at_resolver := (at_resolver t)\<lparr>ar_challenge_certs := (ar_challenge_certs (at_resolver t))(domain \<mapsto> k)\<rparr>\<rparr>"

definition clear_challenge_certs :: "acme_task \<Rightarrow> acme_task" where
  "clear_challenge_certs t = t\<lparr>at_resolver := (at_resolver t)\<lparr>ar_challenge_certs := Map.empty\<rparr>\<rparr>"

definition has_cert :: "acme_resolver \<Rightarrow> bool" where
  "has_cert r \<longleftrightarrow> ar_cert r \<noteq> None"

definition ACME_TLS_ALPN_PROTO :: string where
  "ACME_TLS_ALPN_PROTO = ''acme-tls/1''"

definition resolve :: "acme_resolver \<Rightarrow> string list option \<Rightarrow> string option \<Rightarrow> certified_key option" where
  "resolve r alpn sni =
     (if (case alpn of Some protos \<Rightarrow> list_ex (\<lambda>p. p = ACME_TLS_ALPN_PROTO) protos | None \<Rightarrow> False)
      then (case sni of None \<Rightarrow> None | Some name \<Rightarrow> ar_challenge_certs r name)
      else ar_cert r)"

subsection \<open>The secret store\<close>

text \<open>Outcomes of the calls of one \<open>persist\<close>.\<close>

record persist_env =
  pv_mkdir :: "string + unit"
  pv_temp :: "string + unit"
  pv_write :: "string + unit"
  pv_flush :: "string + unit"
  pv_rename :: "string + unit"
  pv_spawn :: "string + unit"
  pv_stdin :: bool
  pv_stdin_write :: "string + unit"
  pv_stdin_close :: "string + unit"
  pv_wait :: "string + bool"

definition atomic_write :: "persist_env \<Rightarrow> bool \<Rightarrow> string \<Rightarrow> string option \<Rightarrow> string option \<times> unit result" where
  "atomic_write env has_parent data old =
     (if \<not> has_parent then (old, Inl (Config (ConfigMessage ''atomic_write: no parent directory'')))
      else case bind_res (pv_temp env) (\<lambda>_. bind_res (pv_write env) (\<lambda>_. bind_res (pv_flush env) (\<lambda>_. pv_rename env))) of
             Inl e \<Rightarrow> (old, Inl (Io e))
           | Inr _ \<Rightarrow> (Some data, Inr ()))"

definition secret_to_json :: "acme_deps \<Rightarrow> acme_secret_state \<Rightarrow> string result" where
  "secret_to_json dp s = map_err Acme (ad_to_json dp s)"

definition secret_from_json :: "acme_deps \<Rightarrow> string \<Rightarrow> acme_secret_state result" where
  "secret_from_json dp s = map_err Acme (ad_from_json dp s)"

text \<open>\<open>read_error\<close> is the failure of reading an existing file.\<close>

definition load_from_file :: "acme_deps \<Rightarrow> string option \<Rightarrow> custody \<Rightarrow> acme_secret_state option result" where
  "load_from_file dp read_error cu =
     (case cu_file cu of
        None \<Rightarrow> Inr None
      | Some text \<Rightarrow>
          (case read_error of
             Some e \<Rightarrow> Inl (Acme e)
           | None \<Rightarrow> bind_res (secret_from_json dp text) (\<lambda>s. Inr (Some s))))"

definition persist_to_file :: "acme_deps \<Rightarrow> persist_env \<Rightarrow> acme_secret_state \<Rightarrow> custody \<Rightarrow> custody \<times> unit result" where
  "persist_to_file dp env s cu =
     (case pv_mkdir env of
        Inl e \<Rightarrow> (cu, Inl (Acme e))
      | Inr _ \<Rightarrow>
          (case secret_to_json dp s of
             Inl e \<Rightarrow> (cu, Inl e)
           | Inr blob \<Rightarrow>
               (case atomic_write env True blob (cu_file cu) of
                  (f, r) \<Rightarrow> (cu\<lparr>cu_file := f\<rparr>, case r of Inl _ \<Rightarrow> Inl (Acme ''write acme state'') | Inr u \<Rightarrow> Inr u))))"

definition parse_env_blob :: "acme_deps \<Rightarrow> string \<Rightarrow> acme_secret_state option result" where
  "parse_env_blob dp raw = bind_res (secret_from_json dp raw) (\<lambda>s. Inr (Some s))"

definition load_from_env :: "acme_deps \<Rightarrow> string \<Rightarrow> custody \<Rightarrow> acme_secret_state option result" where
  "load_from_env dp env_var cu =
     (case cu_env cu env_var of
        Some raw \<Rightarrow> if raw \<noteq> [] then parse_env_blob dp raw else Inr None
      | None \<Rightarrow> Inr None)"

definition persist_via_command :: "acme_deps \<Rightarrow> persist_env \<Rightarrow> string list \<Rightarrow> acme_secret_state \<Rightarrow> custody \<Rightarrow> custody \<times> unit result" where
  "persist_via_command dp env command s cu =
     (if command = [] then (cu, Inl (Acme ''barrel persist_command is empty''))
      else case secret_to_json dp s of
        Inl e \<Rightarrow> (cu, Inl e)
      | Inr blob \<Rightarrow>
          (case bind_res (pv_spawn env) (\<lambda>_.
                  if \<not> pv_stdin env then Inl ''barrel store command has no stdin''
                  else bind_res (pv_stdin_write env) (\<lambda>_. bind_res (pv_stdin_close env) (\<lambda>_. pv_wait env))) of
             Inl e \<Rightarrow> (cu, Inl (Acme e))
           | Inr success \<Rightarrow>
               if success then (cu\<lparr>cu_accepted := cu_accepted cu @ [blob]\<rparr>, Inr ())
               else (cu, Inl (Acme ''barrel store command exited unsuccessfully''))))"

definition store_load :: "acme_deps \<Rightarrow> secret_store \<Rightarrow> string option \<Rightarrow> custody \<Rightarrow> acme_secret_state option result" where
  "store_load dp store read_error cu =
     (case store of
        FileStore _ \<Rightarrow> load_from_file dp read_error cu
      | Barrel env_var _ \<Rightarrow> load_from_env dp env_var cu)"

definition store_persist :: "acme_deps \<Rightarrow> persist_env \<Rightarrow> secret_store \<Rightarrow> acme_secret_state \<Rightarrow> custody \<Rightarrow> custody \<times> unit result" where
  "store_persist dp env store s cu =
     (case store of
        FileStore _ \<Rightarrow> persist_to_file dp env s cu
      | Barrel _ command \<Rightarrow> persist_via_command dp env command s cu)"

subsection \<open>Certificates\<close>

definition build_certified_key_from_pem :: "acme_deps \<Rightarrow> string \<Rightarrow> string \<Rightarrow> certified_key result" where
  "build_certified_key_from_pem dp cert_pem key_pem =
     bind_res (map_err Acme (ad_pem_certs dp cert_pem)) (\<lambda>certs.
     if certs = [] then Inl (Acme ''no certificates in PEM'')
     else bind_res (map_err Acme (ad_pem_key dp key_pem)) (\<lambda>key.
     bind_res (map_err Acme (ad_ecdsa dp key)) (\<lambda>signing_key.
     let certified = \<lparr>ck_cert = certs, ck_key = signing_key\<rparr>
     in case ad_keys_match dp certified of
          KeysConsistent \<Rightarrow> Inr certified
        | KeysUnknown \<Rightarrow> Inr certified
        | KeysInconsistent e \<Rightarrow> Inl (Acme e))))"

definition ACME_RENEWAL_BUFFER_SECS :: nat where
  "ACME_RENEWAL_BUFFER_SECS = 30 * 24 * 60 * 60"

definition ACME_RETRY_INTERVAL_SECS :: nat where
  "ACME_RETRY_INTERVAL_SECS = 43200"

definition ACME_FAILURE_BACKOFF_BASE_SECS :: u64 where
  "ACME_FAILURE_BACKOFF_BASE_SECS = 300"

definition ACME_FAILURE_BACKOFF_MAX_SECS :: u64 where
  "ACME_FAILURE_BACKOFF_MAX_SECS = 21600"

definition ACME_FAILURE_BACKOFF_MAX_DOUBLINGS :: u32 where
  "ACME_FAILURE_BACKOFF_MAX_DOUBLINGS = 16"

definition failure_backoff :: "u32 \<Rightarrow> duration" where
  "failure_backoff consecutive_failures =
     (if consecutive_failures = 0 then 0
      else let doublings = min (consecutive_failures - 1) ACME_FAILURE_BACKOFF_MAX_DOUBLINGS;
               secs = min (saturating_mul ACME_FAILURE_BACKOFF_BASE_SECS (push_bit (unat doublings) 1)) ACME_FAILURE_BACKOFF_MAX_SECS
           in from_secs (unat secs))"

text \<open>\<open>now\<close> is the system time since the epoch; the seconds of a \<open>u64\<close> and \<open>i64\<close> saturate.\<close>

definition i64_max :: int where
  "i64_max = 2 ^ 63 - 1"

definition i64_saturating_sub :: "int \<Rightarrow> int \<Rightarrow> int" where
  "i64_saturating_sub a b = max (- (2 ^ 63)) (min i64_max (a - b))"

definition unix_secs :: "duration \<Rightarrow> int" where
  "unix_secs now = min i64_max (int (now div 1000000000))"

definition time_until_expiry_from_certified :: "acme_deps \<Rightarrow> duration \<Rightarrow> certified_key \<Rightarrow> duration" where
  "time_until_expiry_from_certified dp now k =
     (case ck_cert k of
        [] \<Rightarrow> 0
      | c # _ \<Rightarrow>
          (case ad_not_after dp c of
             Inl e \<Rightarrow> 0
           | Inr not_after \<Rightarrow> from_secs (nat (i64_saturating_sub not_after (unix_secs now)))))"

definition time_until_renewal_from_certified :: "acme_deps \<Rightarrow> duration \<Rightarrow> certified_key \<Rightarrow> duration" where
  "time_until_renewal_from_certified dp now k = time_until_expiry_from_certified dp now k - from_secs ACME_RENEWAL_BUFFER_SECS"

definition ACME_IDENTIFIER_OID :: "nat list" where
  "ACME_IDENTIFIER_OID = [1, 3, 6, 1, 5, 5, 7, 1, 31]"

definition challenge_ext :: "bytes \<Rightarrow> challenge_extension result" where
  "challenge_ext digest =
     (if length digest > 255 then Inl (Acme ''challenge digest too long for ASN.1 length'')
      else Inr \<lparr>ce_oid = ACME_IDENTIFIER_OID, ce_content = 0x04 # of_nat (length digest) # digest, ce_critical = True\<rparr>)"

record challenge_env =
  cn_keygen :: "string + bytes"
  cn_params :: "string + unit"
  cn_digest :: bytes

definition build_tls_alpn_challenge_cert :: "acme_deps \<Rightarrow> string \<Rightarrow> challenge_env \<Rightarrow> certified_key result" where
  "build_tls_alpn_challenge_cert dp domain env =
     bind_res (map_err Acme (cn_keygen env)) (\<lambda>key.
     bind_res (map_err Acme (cn_params env)) (\<lambda>_.
     bind_res (challenge_ext (cn_digest env)) (\<lambda>ext.
     bind_res (map_err Acme (ad_self_signed dp domain ext)) (\<lambda>cert.
     bind_res (map_err Acme (ad_ecdsa dp key)) (\<lambda>signing_key.
     Inr \<lparr>ck_cert = [cert], ck_key = signing_key\<rparr>)))))"

subsection \<open>Provisioning\<close>

datatype authorization_status = AuthzValid | AuthzPending | AuthzOther string

datatype acme_identifier = Dns string | OtherIdentifier

record authorization =
  az_status :: authorization_status
  az_challenge :: "acme_identifier option"
  az_build :: challenge_env
  az_set_ready :: "string + unit"

datatype order_status = OrderReady | OrderOther string

record acme_env =
  ev_read_error :: "string option"
  ev_builder :: "string + unit"
  ev_restore :: "string + unit"
  ev_create :: "string + unit"
  ev_serialize :: "string + string"
  ev_persist_account :: persist_env
  ev_new_order :: "string + unit"
  ev_authorizations :: "(string + authorization) list"
  ev_ready :: "string + order_status"
  ev_keygen :: "string + string"
  ev_csr_params :: "string + unit"
  ev_csr :: "string + unit"
  ev_finalize :: "string + unit"
  ev_certificate :: "string + string"
  ev_persist_cert :: persist_env

abbreviation at_store :: "acme_task \<Rightarrow> secret_store" where
  "at_store t \<equiv> from_acme_config (at_config t)"

definition persist_state :: "acme_deps \<Rightarrow> persist_env \<Rightarrow> acme_secret_state \<Rightarrow> acme_task \<Rightarrow> acme_task \<times> unit result" where
  "persist_state dp env s t =
     (case store_persist dp env (at_store t) s (at_custody t) of (cu, r) \<Rightarrow> (t\<lparr>at_custody := cu\<rparr>, r))"

text \<open>The account is named by its credentials.\<close>

definition get_or_create_account :: "acme_deps \<Rightarrow> acme_env \<Rightarrow> acme_secret_state \<Rightarrow> acme_task \<Rightarrow> acme_task \<times> acme_secret_state result" where
  "get_or_create_account dp env s t =
     (case as_account_credentials s of
        Some json \<Rightarrow>
          (t, bind_res (map_err Acme (ad_credentials dp json)) (\<lambda>_.
              bind_res (map_err Acme (ev_builder env)) (\<lambda>_.
              bind_res (map_err Acme (ev_restore env)) (\<lambda>_. Inr s))))
      | None \<Rightarrow>
          (case bind_res (ev_builder env) (\<lambda>_. bind_res (ev_create env) (\<lambda>_. ev_serialize env)) of
             Inl e \<Rightarrow> (t, Inl (Acme e))
           | Inr serialized \<Rightarrow>
               let s = s\<lparr>as_account_credentials := Some serialized\<rparr>
               in case persist_state dp (ev_persist_account env) s t of
                    (t, r) \<Rightarrow> (t, bind_res r (\<lambda>_. Inr s))))"

definition directory_url :: "acme_tls_config \<Rightarrow> string" where
  "directory_url config =
     (case atc_directory_url config of
        Some url \<Rightarrow> url
      | None \<Rightarrow> if atc_staging config then ''https://acme-staging-v02.api.letsencrypt.org/directory''
                else ''https://acme-v02.api.letsencrypt.org/directory'')"

fun authorization_loop :: "acme_deps \<Rightarrow> (string + authorization) list \<Rightarrow> acme_task \<Rightarrow> acme_task \<times> unit result" where
  "authorization_loop dp [] t = (t, Inr ())"
| "authorization_loop dp (Inl e # rest) t = (t, Inl (Acme e))"
| "authorization_loop dp (Inr authz # rest) t =
     (case az_status authz of
        AuthzValid \<Rightarrow> authorization_loop dp rest t
      | AuthzOther st \<Rightarrow> (clear_challenge_certs t, Inl (Acme st))
      | AuthzPending \<Rightarrow>
          (case az_challenge authz of
             None \<Rightarrow> (t, Inl (Acme ''no tls-alpn-01 challenge found''))
           | Some OtherIdentifier \<Rightarrow> (clear_challenge_certs t, Inl (Acme ''tls-alpn-01 requires a DNS identifier''))
           | Some (Dns domain) \<Rightarrow>
               (case build_tls_alpn_challenge_cert dp domain (az_build authz) of
                  Inl e \<Rightarrow> (t, Inl e)
                | Inr challenge_cert \<Rightarrow>
                    let t = set_challenge_cert domain challenge_cert t
                    in case az_set_ready authz of
                         Inl e \<Rightarrow> (t, Inl (Acme e))
                       | Inr _ \<Rightarrow> authorization_loop dp rest t)))"

definition finalize_and_cache :: "acme_deps \<Rightarrow> acme_env \<Rightarrow> acme_secret_state \<Rightarrow> acme_task \<Rightarrow> acme_task \<times> certified_key result" where
  "finalize_and_cache dp env s t =
     (case bind_res (ev_keygen env) (\<lambda>key_pem.
           bind_res (ev_csr_params env) (\<lambda>_.
           bind_res (ev_csr env) (\<lambda>_.
           bind_res (ev_finalize env) (\<lambda>_.
           bind_res (ev_certificate env) (\<lambda>chain. Inr (chain, key_pem)))))) of
        Inl e \<Rightarrow> (t, Inl (Acme e))
      | Inr (cert_chain_pem, key_pem) \<Rightarrow>
          (case persist_state dp (ev_persist_cert env) (s\<lparr>as_cert_chain_pem := Some cert_chain_pem, as_key_pem := Some key_pem\<rparr>) t of
             (t, r) \<Rightarrow> (t, bind_res r (\<lambda>_. build_certified_key_from_pem dp cert_chain_pem key_pem))))"

definition provision_cert :: "acme_deps \<Rightarrow> acme_env \<Rightarrow> acme_task \<Rightarrow> acme_task \<times> certified_key result" where
  "provision_cert dp env t =
     (case store_load dp (at_store t) (ev_read_error env) (at_custody t) of
        Inl e \<Rightarrow> (t, Inl e)
      | Inr loaded \<Rightarrow>
          (case get_or_create_account dp env (case loaded of Some s \<Rightarrow> s | None \<Rightarrow> secret_default) t of
             (t, Inl e) \<Rightarrow> (t, Inl e)
           | (t, Inr s) \<Rightarrow>
               (case ev_new_order env of
                  Inl e \<Rightarrow> (t, Inl (Acme e))
                | Inr _ \<Rightarrow>
                    (case authorization_loop dp (ev_authorizations env) t of
                       (t, Inl e) \<Rightarrow> (t, Inl e)
                     | (t, Inr _) \<Rightarrow>
                         let t = clear_challenge_certs t
                         in case ev_ready env of
                              Inl e \<Rightarrow> (t, Inl (Acme e))
                            | Inr (OrderOther st) \<Rightarrow> (t, Inl (Acme st))
                            | Inr OrderReady \<Rightarrow> finalize_and_cache dp env s t))))"

definition load_cached_cert :: "acme_deps \<Rightarrow> string option \<Rightarrow> acme_task \<Rightarrow> certified_key option" where
  "load_cached_cert dp read_error t =
     (case store_load dp (at_store t) read_error (at_custody t) of
        Inr (Some s) \<Rightarrow>
          (case (as_cert_chain_pem s, as_key_pem s) of
             (Some cert, Some key) \<Rightarrow>
               (case build_certified_key_from_pem dp cert key of Inr k \<Rightarrow> Some k | Inl _ \<Rightarrow> None)
           | _ \<Rightarrow> None)
      | _ \<Rightarrow> None)"

subsection \<open>Start and renewal\<close>

definition serve_stale_or_fail :: "acme_deps \<Rightarrow> duration \<Rightarrow> certified_key option \<Rightarrow> reduction_error \<Rightarrow> acme_task \<Rightarrow> acme_task \<times> unit result" where
  "serve_stale_or_fail dp now cached e t =
     (case cached of
        Some k \<Rightarrow> if time_until_expiry_from_certified dp now k > 0 then (set_cert k t, Inr ()) else (t, Inl e)
      | None \<Rightarrow> (t, Inl e))"

text \<open>\<open>now\<close> when the cached certificate is examined, \<open>later\<close> after a failed order.\<close>

definition order_initial_cert :: "acme_deps \<Rightarrow> acme_env \<Rightarrow> duration \<Rightarrow> certified_key option \<Rightarrow> acme_task \<Rightarrow> acme_task \<times> unit result" where
  "order_initial_cert dp env later cached t =
     (case provision_cert dp env t of
        (t, Inr k) \<Rightarrow> (set_cert k (t\<lparr>at_renewals := at_renewals t + 1\<rparr>), Inr ())
      | (t, Inl e) \<Rightarrow> serve_stale_or_fail dp later cached e (t\<lparr>at_failures := at_failures t + 1\<rparr>))"

definition provision_initial_cert :: "acme_deps \<Rightarrow> string option \<Rightarrow> acme_env \<Rightarrow> duration \<Rightarrow> duration \<Rightarrow> acme_task \<Rightarrow> acme_task \<times> unit result" where
  "provision_initial_cert dp read_error env now later t =
     (case load_cached_cert dp read_error t of
        Some k \<Rightarrow>
          if time_until_renewal_from_certified dp now k > 0 then (set_cert k t, Inr ())
          else order_initial_cert dp env later (Some k) t
      | None \<Rightarrow> order_initial_cert dp env later None t)"

definition next_renewal_sleep :: "acme_deps \<Rightarrow> duration \<Rightarrow> u32 \<Rightarrow> acme_task \<Rightarrow> duration" where
  "next_renewal_sleep dp now consecutive_failures t =
     max (case ar_cert (at_resolver t) of
            Some k \<Rightarrow> time_until_renewal_from_certified dp now k
          | None \<Rightarrow> from_secs ACME_RETRY_INTERVAL_SECS)
         (failure_backoff consecutive_failures)"

text \<open>One turn of the loop: the time it starts, and the order placed after the sleep, or no order when the shutdown signal comes first.\<close>

record acme_turn =
  tn_now :: duration
  tn_order :: "acme_env option"

text \<open>The log of a run: for each order the time slept before it and whether it succeeded.\<close>

fun acme_run :: "acme_deps \<Rightarrow> acme_turn list \<Rightarrow> u32 \<Rightarrow> acme_task \<Rightarrow> acme_task \<times> (duration \<times> bool) list" where
  "acme_run dp [] consecutive_failures t = (t, [])"
| "acme_run dp (turn # turns) consecutive_failures t =
     (let sleep_duration = next_renewal_sleep dp (tn_now turn) consecutive_failures t
      in case tn_order turn of
           None \<Rightarrow> (t, [])
         | Some env \<Rightarrow>
             (case provision_cert dp env t of
                (t, Inr k) \<Rightarrow>
                  (case acme_run dp turns 0 (set_cert k (t\<lparr>at_renewals := at_renewals t + 1\<rparr>)) of (t, l) \<Rightarrow> (t, (sleep_duration, True) # l))
              | (t, Inl e) \<Rightarrow>
                  (case acme_run dp turns (saturating_add consecutive_failures 1) (t\<lparr>at_failures := at_failures t + 1\<rparr>) of
                     (t, l) \<Rightarrow> (t, (sleep_duration, False) # l))))"

subsection \<open>What provisioning touches\<close>

lemma task_simps [simp]:
  "ar_cert (at_resolver (set_cert k t)) = Some k" "at_custody (set_cert k t) = at_custody t" "at_config (set_cert k t) = at_config t"
  "ar_cert (at_resolver (set_challenge_cert d k t)) = ar_cert (at_resolver t)" "at_custody (set_challenge_cert d k t) = at_custody t"
  "at_config (set_challenge_cert d k t) = at_config t"
  "ar_cert (at_resolver (clear_challenge_certs t)) = ar_cert (at_resolver t)" "at_custody (clear_challenge_certs t) = at_custody t"
  "at_config (clear_challenge_certs t) = at_config t"
  by (simp_all add: set_cert_def set_challenge_cert_def clear_challenge_certs_def)

lemma persist_state_keeps:
  "persist_state dp env s t = (t', r) \<Longrightarrow> at_resolver t' = at_resolver t \<and> at_config t' = at_config t"
  by (auto simp: persist_state_def split: prod.splits)

lemma account_keeps:
  "get_or_create_account dp env s t = (t', r) \<Longrightarrow> at_resolver t' = at_resolver t \<and> at_config t' = at_config t"
  by (auto simp: get_or_create_account_def Let_def dest!: persist_state_keeps split: option.splits sum.splits prod.splits)

lemma authorization_loop_keeps:
  "authorization_loop dp as t = (t', r) \<Longrightarrow>
   ar_cert (at_resolver t') = ar_cert (at_resolver t) \<and> at_custody t' = at_custody t \<and> at_config t' = at_config t"
proof (induction as arbitrary: t)
  case (Cons a as)
  then show ?case
    by (cases a) (auto simp: Let_def split: authorization_status.splits option.splits acme_identifier.splits sum.splits)
qed simp

lemma finalize_keeps:
  "finalize_and_cache dp env s t = (t', r) \<Longrightarrow> at_resolver t' = at_resolver t \<and> at_config t' = at_config t"
  by (auto simp: finalize_and_cache_def dest!: persist_state_keeps split: sum.splits prod.splits)

text \<open>An order ends before its account is settled, or before the certificate, or with the attempt to store it.\<close>

lemma provision_cases:
  assumes "provision_cert dp env t = (t', r)"
  obtains (unread) e where "store_load dp (at_store t) (ev_read_error env) (at_custody t) = Inl e" "t' = t" "r = Inl e"
  | (no_account) loaded t1 e where "store_load dp (at_store t) (ev_read_error env) (at_custody t) = Inr loaded"
      "get_or_create_account dp env (case loaded of Some s \<Rightarrow> s | None \<Rightarrow> secret_default) t = (t1, Inl e)" "t' = t1" "r = Inl e"
  | (no_order) loaded t1 s where "store_load dp (at_store t) (ev_read_error env) (at_custody t) = Inr loaded"
      "get_or_create_account dp env (case loaded of Some s \<Rightarrow> s | None \<Rightarrow> secret_default) t = (t1, Inr s)"
      "at_custody t' = at_custody t1" "at_config t' = at_config t1" "ar_cert (at_resolver t') = ar_cert (at_resolver t1)" "isl r"
  | (finalized) loaded t1 t2 s where "store_load dp (at_store t) (ev_read_error env) (at_custody t) = Inr loaded"
      "get_or_create_account dp env (case loaded of Some s \<Rightarrow> s | None \<Rightarrow> secret_default) t = (t1, Inr s)"
      "at_custody t2 = at_custody t1" "at_config t2 = at_config t1" "ar_cert (at_resolver t2) = ar_cert (at_resolver t1)"
      "finalize_and_cache dp env s t2 = (t', r)"
proof -
  show thesis
  proof (cases "store_load dp (at_store t) (ev_read_error env) (at_custody t)")
    case (Inl e)
    then show thesis using unread assms by (auto simp: provision_cert_def)
  next
    case (Inr loaded)
    obtain t1 x where a: "get_or_create_account dp env (case loaded of Some s \<Rightarrow> s | None \<Rightarrow> secret_default) t = (t1, x)" by fastforce
    show thesis
    proof (cases x)
      case (Inl e)
      then show thesis using no_account [OF Inr] a assms Inr by (auto simp: provision_cert_def)
    next
      case x: (Inr s)
      obtain t2 y where l: "authorization_loop dp (ev_authorizations env) t1 = (t2, y)" by fastforce
      note k = authorization_loop_keeps [OF l]
      note eval = assms [unfolded provision_cert_def Inr sum.case a x l prod.case Let_def]
      show thesis
      proof (cases "(\<exists>u. ev_new_order env = Inr u) \<and> (\<exists>u. y = Inr u) \<and> ev_ready env = Inr OrderReady")
        case True
        then have "finalize_and_cache dp env s (clear_challenge_certs t2) = (t', r)" using eval by auto
        then show thesis using finalized [OF Inr a [unfolded x], of "clear_challenge_certs t2"] k by simp
      next
        case False
        then have "t' \<in> {t1, t2, clear_challenge_certs t2} \<and> isl r"
          using eval by (auto split: sum.splits order_status.splits)
        then show thesis using no_order [OF Inr a [unfolded x]] k by auto
      qed
    qed
  qed
qed

lemma provision_keeps:
  assumes "provision_cert dp env t = (t', r)"
  shows "ar_cert (at_resolver t') = ar_cert (at_resolver t) \<and> at_config t' = at_config t"
  using assms
proof (cases rule: provision_cases)
  case (no_account loaded t1 e)
  then show ?thesis using account_keeps [OF no_account(2)] by simp
next
  case (no_order loaded t1 s)
  then show ?thesis using account_keeps [OF no_order(2)] by simp
next
  case (finalized loaded t1 t2 s)
  then show ?thesis using account_keeps [OF finalized(2)] finalize_keeps [OF finalized(6)] by simp
qed simp

subsection \<open>The file store keeps what it has\<close>

text \<open>What serde promises of the derived \<open>Serialize\<close> and \<open>Deserialize\<close>: a written state reads back.\<close>

definition json_doc :: "acme_deps \<Rightarrow> bool" where
  "json_doc dp \<longleftrightarrow> (\<forall>s b. ad_to_json dp s = Inr b \<longrightarrow> ad_from_json dp b = Inr s)"

definition keeps_secrets :: "acme_secret_state \<Rightarrow> acme_secret_state \<Rightarrow> bool" where
  "keeps_secrets s s' \<longleftrightarrow> (as_account_credentials s \<noteq> None \<longrightarrow> as_account_credentials s' = as_account_credentials s)
     \<and> (as_cert_chain_pem s \<noteq> None \<and> as_key_pem s \<noteq> None \<longrightarrow> as_cert_chain_pem s' \<noteq> None \<and> as_key_pem s' \<noteq> None)"

abbreviation file_holds :: "acme_deps \<Rightarrow> custody \<Rightarrow> acme_secret_state \<Rightarrow> bool" where
  "file_holds dp cu s \<equiv> load_from_file dp None cu = Inr (Some s)"

lemma keeps_refl [simp]: "keeps_secrets s s"
  by (simp add: keeps_secrets_def)

lemma keeps_trans: "keeps_secrets a b \<Longrightarrow> keeps_secrets b c \<Longrightarrow> keeps_secrets a c"
  by (auto simp: keeps_secrets_def)

lemma persist_file:
  assumes "persist_state dp env s t = (t', r)" "at_store t = FileStore d" "json_doc dp"
  shows "if isl r then at_custody t' = at_custody t else file_holds dp (at_custody t') s"
  using assms
  by (auto simp: persist_state_def store_persist_def persist_to_file_def atomic_write_def secret_to_json_def map_err_def json_doc_def
      load_from_file_def secret_from_json_def split: prod.splits sum.splits if_splits)

lemma account_file:
  assumes "get_or_create_account dp env s t = (t', r)" "at_store t = FileStore d" "json_doc dp" "file_holds dp (at_custody t) s"
  shows "\<exists>s'. file_holds dp (at_custody t') s' \<and> keeps_secrets s s' \<and> (\<forall>x. r = Inr x \<longrightarrow> x = s')"
proof (cases "as_account_credentials s")
  case None
  let ?c = "bind_res (ev_builder env) (\<lambda>_. bind_res (ev_create env) (\<lambda>_. ev_serialize env))"
  show ?thesis
  proof (cases ?c)
    case (Inl e)
    then show ?thesis using assms(1,4) None by (auto simp: get_or_create_account_def intro!: exI [of _ s])
  next
    case (Inr c)
    let ?s = "s\<lparr>as_account_credentials := Some c\<rparr>"
    obtain t1 q where p: "persist_state dp (ev_persist_account env) ?s t = (t1, q)" by fastforce
    have "t' = t1" "r = bind_res q (\<lambda>_. Inr ?s)" using assms(1) None Inr p by (auto simp: get_or_create_account_def Let_def)
    moreover have "keeps_secrets s ?s" using None by (simp add: keeps_secrets_def)
    ultimately show ?thesis using persist_file [OF p assms(2,3)] assms(4) by (cases q) (auto intro: exI [of _ s])
  qed
next
  case (Some c)
  then have "t' = t" "\<forall>x. r = Inr x \<longrightarrow> x = s" using assms(1) by (auto simp: get_or_create_account_def bind_res_Inr)
  then show ?thesis using assms(4) by (intro exI [of _ s]) simp
qed

lemma finalize_file:
  assumes "finalize_and_cache dp env s t = (t', r)" "at_store t = FileStore d" "json_doc dp" "file_holds dp (at_custody t) s"
  shows "\<exists>s'. file_holds dp (at_custody t') s' \<and> keeps_secrets s s'"
proof -
  let ?c = "bind_res (ev_keygen env) (\<lambda>key_pem. bind_res (ev_csr_params env) (\<lambda>_. bind_res (ev_csr env) (\<lambda>_.
           bind_res (ev_finalize env) (\<lambda>_. bind_res (ev_certificate env) (\<lambda>chain. Inr (chain, key_pem))))))"
  show ?thesis
  proof (cases ?c)
    case (Inl e)
    then show ?thesis using assms(1,4) by (auto simp: finalize_and_cache_def intro!: exI [of _ s])
  next
    case (Inr c)
    let ?s = "s\<lparr>as_cert_chain_pem := Some (fst c), as_key_pem := Some (snd c)\<rparr>"
    obtain t1 q where p: "persist_state dp (ev_persist_cert env) ?s t = (t1, q)" by fastforce
    have "t' = t1" using assms(1) Inr p by (cases c) (auto simp: finalize_and_cache_def)
    moreover have "keeps_secrets s ?s" by (simp add: keeps_secrets_def)
    ultimately show ?thesis using persist_file [OF p assms(2,3)] assms(4) by (cases "isl q") (auto intro: exI [of _ s])
  qed
qed

lemma provision_file:
  assumes "provision_cert dp env t = (t', r)" "at_store t = FileStore d" "json_doc dp" "file_holds dp (at_custody t) s"
  shows "\<exists>s'. file_holds dp (at_custody t') s' \<and> keeps_secrets s s'"
proof -
  have loaded: "loaded = Some s" if "store_load dp (at_store t) (ev_read_error env) (at_custody t) = Inr loaded" for loaded
    using that assms(2,4) by (auto simp: store_load_def load_from_file_def split: option.splits)
  show ?thesis using assms(1)
  proof (cases rule: provision_cases)
    case (unread e)
    then show ?thesis using assms(4) by (auto intro: exI [of _ s])
  next
    case (no_account l t1 e)
    then show ?thesis using account_file [OF no_account(2) assms(2,3)] loaded [OF no_account(1)] assms(4) by auto
  next
    case (no_order l t1 s1)
    then show ?thesis using account_file [OF no_order(2) assms(2,3)] loaded [OF no_order(1)] assms(4) by auto
  next
    case (finalized l t1 t2 s1)
    have k: "file_holds dp (at_custody t2) s1" "keeps_secrets s s1"
      using account_file [OF finalized(2) assms(2,3)] loaded [OF finalized(1)] assms(4) finalized(3) by auto
    have "at_store t2 = FileStore d" using finalized(4) account_keeps [OF finalized(2)] assms(2) by simp
    from finalize_file [OF finalized(6) this assms(3) k(1)] k(2) show ?thesis using keeps_trans by blast
  qed
qed

subsection \<open>Pacing\<close>

lemma unat_min: "unat (min a b :: 'a::len word) = min (unat a) (unat b)"
  by (simp add: min_def word_le_nat_alt)

lemma failure_backoff_secs:
  assumes "n \<noteq> 0"
  shows "failure_backoff n = from_secs (min (300 * 2 ^ min (unat n - 1) 16) 21600)"
proof -
  have d: "unat (min (n - 1) 16) = min (unat n - 1) 16" using assms by (simp add: min_def word_le_nat_alt unat_sub_one)
  have "unat (push_bit k 1 :: u64) = 2 ^ k" if "k \<le> 16" for k
    using that power_strict_increasing [of k 64 "2 :: nat"] 
    by (subst unsigned_push_bit_eq) (simp add: take_bit_eq_mod push_bit_eq_mult)
  then have p: "unat (push_bit (min (unat n - 1) 16) 1 :: u64) = 2 ^ min (unat n - 1) 16" by simp
  have "(300 :: nat) * 2 ^ min (unat n - 1) 16 \<le> 300 * 2 ^ 16" by (intro mult_le_mono power_increasing) simp_all
  then have "unat (saturating_mul 300 (push_bit (min (unat n - 1) 16) 1 :: u64)) = 300 * 2 ^ min (unat n - 1) 16"
    unfolding unat_saturating_mul p by simp
  then have "unat (min (saturating_mul 300 (push_bit (min (unat n - 1) 16) 1)) 21600 :: u64) = min (300 * 2 ^ min (unat n - 1) 16) 21600"
    unfolding unat_min by simp
  then show ?thesis using assms unfolding failure_backoff_def Let_def ACME_FAILURE_BACKOFF_BASE_SECS_def ACME_FAILURE_BACKOFF_MAX_SECS_def
    ACME_FAILURE_BACKOFF_MAX_DOUBLINGS_def d by (simp only: if_False)
qed

lemma failure_backoff_mono: "a \<le> b \<Longrightarrow> failure_backoff a \<le> failure_backoff b"
proof (cases "a = 0")
  case False
  assume ab: "a \<le> b"
  then have "b \<noteq> 0" using False by (auto simp: word_le_nat_alt unat_eq_zero)
  moreover have "min (unat a - 1) 16 \<le> min (unat b - 1) 16" using ab by (auto simp: word_le_nat_alt)
  then have "(2 :: nat) ^ min (unat a - 1) 16 \<le> 2 ^ min (unat b - 1) 16" by (rule power_increasing) simp
  then have "min (300 * 2 ^ min (unat a - 1) 16) 21600 \<le> min (300 * 2 ^ min (unat b - 1) 16) (21600 :: nat)" by (intro min.mono) simp_all
  ultimately show ?thesis using False unfolding failure_backoff_secs [OF False] failure_backoff_secs [OF \<open>b \<noteq> 0\<close>] from_secs_def by (rule_tac mult_le_mono1)
qed (simp add: failure_backoff_def)

lemma backoff_values:
  "failure_backoff 1 = from_secs 300" "failure_backoff 2 = from_secs 600" "failure_backoff 3 = from_secs 1200" "failure_backoff 4 = from_secs 2400"
  by (simp_all add: failure_backoff_secs)

lemma run_after_failures:
  "acme_run dp turns c t = (t', l) \<Longrightarrow> k < length l \<Longrightarrow> \<forall>j < k. \<not> snd (l ! j) \<Longrightarrow> m \<le> unat c \<Longrightarrow> m + k < 2 ^ 32 \<Longrightarrow>
   failure_backoff (of_nat (m + k)) \<le> fst (l ! k)"
proof (induction turns arbitrary: c t l k m)
  case (Cons turn turns)
  then obtain env where o: "tn_order turn = Some env" by (cases "tn_order turn") (auto simp: Let_def)
  obtain t1 r where p: "provision_cert dp env t = (t1, r)" by fastforce
  show ?case
  proof (cases k)
    case 0
    then have "fst (l ! k) = next_renewal_sleep dp (tn_now turn) c t" using Cons.prems(1) o p by (cases r) (auto simp: Let_def split: prod.splits)
    moreover have "(of_nat m :: u32) \<le> c" using Cons.prems(4,5) 0 by (simp add: word_le_nat_alt unat_of_nat)
    ultimately show ?thesis using 0 failure_backoff_mono [of "of_nat m" c] by (simp add: next_renewal_sleep_def)
  next
    case (Suc k')
    then have "\<not> snd (l ! 0)" using Cons.prems(3) by auto
    then obtain e l' where r: "r = Inl e" and l': "acme_run dp turns (saturating_add c 1) (t1\<lparr>at_failures := at_failures t1 + 1\<rparr>) = (t', l')" "l = (next_renewal_sleep dp (tn_now turn) c t, False) # l'"
      using Cons.prems(1) o p by (cases r) (auto simp: Let_def split: prod.splits)
    have "m + 1 \<le> unat (saturating_add c 1)" using Cons.prems(4,5) Suc by (simp add: unat_saturating_add)
    then have "failure_backoff (of_nat (m + 1 + k')) \<le> fst (l' ! k')"
      using Cons.IH [OF l'(1), of k' "m + 1"] Cons.prems(2,3,5) Suc l'(2) by fastforce
    then show ?thesis using Suc l'(2) by (simp add: add.commute add.left_commute)
  qed
qed simp

lemma run_suffix:
  "acme_run dp turns c t = (t', l) \<Longrightarrow> i \<le> length l \<Longrightarrow> \<exists>turns' c' t''. acme_run dp turns' c' t'' = (t', drop i l)"
proof (induction turns arbitrary: c t l i)
  case (Cons turn turns)
  show ?case
  proof (cases i)
    case 0
    then show ?thesis using Cons.prems(1) by (metis drop0)
  next
    case (Suc j)
    then obtain env where o: "tn_order turn = Some env" using Cons.prems by (cases "tn_order turn") (auto simp: Let_def)
    obtain t1 r where p: "provision_cert dp env t = (t1, r)" by fastforce
    have "\<exists>c1 t2 x l'. acme_run dp turns c1 t2 = (t', l') \<and> l = x # l'"
      using Cons.prems(1) o p by (cases r) (auto simp: Let_def split: prod.splits, blast+)
    then obtain c1 t2 x l' where "acme_run dp turns c1 t2 = (t', l')" "l = x # l'" by blast
    then show ?thesis using Cons.IH [of c1 t2 l' j] Cons.prems(2) Suc by auto
  qed
qed (auto intro: exI [of _ "[]"])

subsection \<open>The guarantees\<close>

lemma built_consistent:
  assumes "build_certified_key_from_pem dp c k = Inr key"
  shows "ad_keys_match dp key \<noteq> KeysInconsistent e"
proof -
  obtain x where "(case ad_keys_match dp x of KeysConsistent \<Rightarrow> Inr x | KeysUnknown \<Rightarrow> Inr x | KeysInconsistent e \<Rightarrow> Inl (Acme e)) = Inr key"
    using assms by (auto simp: build_certified_key_from_pem_def bind_res_Inr Let_def split: if_splits)
  then show ?thesis by (cases "ad_keys_match dp x") auto
qed

lemma cached_consistent: "load_cached_cert dp re t = Some key \<Longrightarrow> ad_keys_match dp key \<noteq> KeysInconsistent e"
  by (auto simp: load_cached_cert_def built_consistent split: sum.splits option.splits)

lemma provisioned_consistent:
  assumes "provision_cert dp env t = (t', Inr key)"
  shows "ad_keys_match dp key \<noteq> KeysInconsistent e"
  using assms
proof (cases rule: provision_cases)
  case (finalized loaded t1 t2 s)
  then show ?thesis by (auto simp: finalize_and_cache_def bind_res_Inr built_consistent split: sum.splits prod.splits)
qed simp_all

text \<open>
  Claim C22. The start serves a usable certificate or fails. When \<open>provision_initial_cert\<close> succeeds, the resolver serves either the certificate just issued or the
  cached one, the latter only while it is not expired, and the served certificate and key are not known to
  mismatch. When it fails, the order failed with that error, what is served is unchanged, and no cached certificate was
  still valid: a restart during an outage of the authority never takes down a proxy that holds a valid certificate.
\<close>
theorem acme_start:
  "case provision_initial_cert dp re env now later t of
     (t', Inr _) \<Rightarrow>
       (\<exists>k. ar_cert (at_resolver t') = Some k \<and> (\<forall>e. ad_keys_match dp k \<noteq> KeysInconsistent e)
         \<and> (snd (provision_cert dp env t) = Inr k
            \<or> load_cached_cert dp re t = Some k
              \<and> (time_until_expiry_from_certified dp now k > 0 \<or> time_until_expiry_from_certified dp later k > 0)))
   | (t', Inl e) \<Rightarrow>
       ar_cert (at_resolver t') = ar_cert (at_resolver t) \<and> snd (provision_cert dp env t) = Inl e
         \<and> (case load_cached_cert dp re t of None \<Rightarrow> True | Some k \<Rightarrow> time_until_expiry_from_certified dp later k = 0)"
proof -
  obtain t1 r where p: "provision_cert dp env t = (t1, r)" by fastforce
  note keep = provision_keeps [OF p]
  have fresh: "time_until_renewal_from_certified dp now k > 0 \<Longrightarrow> time_until_expiry_from_certified dp now k > 0" for k
    by (simp add: time_until_renewal_from_certified_def)
  show ?thesis
  proof (cases r)
    case (Inl e)
    then show ?thesis using p keep fresh cached_consistent [of dp re t]
      by (auto simp: provision_initial_cert_def order_initial_cert_def serve_stale_or_fail_def split: option.splits)
  next
    case (Inr k)
    then show ?thesis using p fresh cached_consistent [of dp re t] provisioned_consistent [of dp env t t1 k]
      by (auto simp: provision_initial_cert_def order_initial_cert_def split: option.splits)
  qed
qed

text \<open>
  Claim C23. Failing renewals are paced. In any run of the renewal loop, the wait before an order that follows \<open>j\<close> failures in a row is at least
  \<open>failure_backoff j\<close>, whatever the state of the certificate; so between an order that fails and the fourth
  retry after it, all failing, at least 4500 seconds are slept: at most four orders of a failing streak start within an hour.
\<close>
theorem acme_failures_paced:
  assumes "acme_run dp turns c t = (t', l)" "i + j < length l" "j < 2 ^ 32" "\<forall>m < j. \<not> snd (l ! (i + m))"
  shows "failure_backoff (of_nat j) \<le> fst (l ! (i + j)) \<and> (4 \<le> j \<longrightarrow> from_secs 4500 \<le> sum_list (map fst (take 4 (drop (i + 1) l))))"
proof -
  obtain turns' c' s where r: "acme_run dp turns' c' s = (t', drop i l)" using run_suffix [OF assms(1), of i] assms(2) by auto
  have b: "failure_backoff (of_nat k) \<le> fst (l ! (i + k))" if "k \<le> j" for k
  proof -
    have "k < length (drop i l)" "\<forall>m < k. \<not> snd (drop i l ! m)" "0 + k < 2 ^ 32" using that assms by auto
    from run_after_failures [OF r this(1,2) _ this(3)] show ?thesis using that assms(2) by simp
  qed
  have "from_secs 4500 \<le> sum_list (map fst (take 4 (drop (i + 1) l)))" if "4 \<le> j"
  proof -
    have n: "length l > i + 4" using that assms(2) by simp
    then have "take 4 (drop (i + 1) l) = [l ! (i + 1), l ! (i + 2), l ! (i + 3), l ! (i + 4)]"
      by (intro nth_equalityI) (auto simp: nth_Cons' numeral_eq_Suc less_Suc_eq add.commute)
    then show ?thesis using b [of 1] b [of 2] b [of 3] b [of 4] that by (simp add: backoff_values from_secs_def)
  qed
  then show ?thesis using b [of j] by simp
qed

lemma run_file:
  "acme_run dp turns c t = (t', l) \<Longrightarrow> at_store t = FileStore d \<Longrightarrow> json_doc dp \<Longrightarrow> file_holds dp (at_custody t) s \<Longrightarrow>
   \<exists>s'. file_holds dp (at_custody t') s' \<and> keeps_secrets s s' \<and> (ar_cert (at_resolver t) \<noteq> None \<longrightarrow> ar_cert (at_resolver t') \<noteq> None)"
proof (induction turns arbitrary: c t l s)
  case (Cons turn turns)
  show ?case
  proof (cases "tn_order turn")
    case None
    then show ?thesis using Cons.prems(1,4) by (auto intro!: exI [of _ s])
  next
    case (Some env)
    obtain t1 r where p: "provision_cert dp env t = (t1, r)" by fastforce
    obtain s1 where s1: "file_holds dp (at_custody t1) s1" "keeps_secrets s s1" using provision_file [OF p Cons.prems(2-4)] by blast
    define t2 where "t2 = (case r of Inr k \<Rightarrow> set_cert k (t1\<lparr>at_renewals := at_renewals t1 + 1\<rparr>) | Inl e \<Rightarrow> t1\<lparr>at_failures := at_failures t1 + 1\<rparr>)"
    have k: "at_store t2 = FileStore d" "file_holds dp (at_custody t2) s1" "ar_cert (at_resolver t) \<noteq> None \<longrightarrow> ar_cert (at_resolver t2) \<noteq> None"
      using provision_keeps [OF p] Cons.prems(2) s1 by (auto simp: t2_def split: sum.split)
    obtain c2 l2 where "acme_run dp turns c2 t2 = (t', l2)"
      using Cons.prems(1) Some p by (cases r) (auto simp: Let_def t2_def split: prod.splits)
    from Cons.IH [OF this k(1) Cons.prems(3) k(2)] k(3) s1(2) show ?thesis using keeps_trans by blast
  qed
qed (auto intro!: exI)

text \<open>
  Claim C24. With the file store no renewal, however it ends, loses a secret: after any run of the loop the file still reads back to a state with the same account
  and with a certificate and a key if it had them, and a resolver that served a certificate still serves one.
\<close>
theorem acme_file_store_durable:
  assumes "acme_run dp turns c t = (t', l)" "at_store t = FileStore d" "json_doc dp" "file_holds dp (at_custody t) s"
  shows "\<exists>s'. file_holds dp (at_custody t') s' \<and> keeps_secrets s s' \<and> (ar_cert (at_resolver t) \<noteq> None \<longrightarrow> ar_cert (at_resolver t') \<noteq> None)"
  using assms by (rule run_file)

subsection \<open>Where the guarantees end\<close>

text \<open>
  Under the store command the variable keeps its value from the launch. On a first launch it is empty, so every order of that process
  starts from the empty state: it creates one more account and hands the command a blob without a certificate, also
  when an earlier order of the process has stored one; when the order then fails, that is the last blob accepted.
\<close>

lemma barrel_overwrites_certificate:
  assumes "at_store t = Barrel v command" "command \<noteq> []" "cu_env (at_custody t) v = None"
    and "ev_builder env = Inr ()" "ev_create env = Inr ()" "ev_serialize env = Inr acct"
    and "ad_to_json dp (secret_default\<lparr>as_account_credentials := Some acct\<rparr>) = Inr blob"
    and "pv_spawn (ev_persist_account env) = Inr ()" "pv_stdin (ev_persist_account env)" "pv_stdin_write (ev_persist_account env) = Inr ()"
      "pv_stdin_close (ev_persist_account env) = Inr ()" "pv_wait (ev_persist_account env) = Inr True"
    and "ev_new_order env = Inl e" "provision_cert dp env t = (t', r)"
  shows "cu_accepted (at_custody t') = cu_accepted (at_custody t) @ [blob] \<and> r = Inl (Acme e)"
proof -
  let ?s = "secret_default\<lparr>as_account_credentials := Some acct\<rparr>"
  have l: "store_load dp (at_store t) (ev_read_error env) (at_custody t) = Inr None"
    using assms(1,3) by (simp add: store_load_def load_from_env_def)
  have p: "persist_state dp (ev_persist_account env) ?s t = (t\<lparr>at_custody := (at_custody t)\<lparr>cu_accepted := cu_accepted (at_custody t) @ [blob]\<rparr>\<rparr>, Inr ())"
    using assms(1,2,7-12) by (simp add: persist_state_def store_persist_def persist_via_command_def secret_to_json_def map_err_def)
  have "get_or_create_account dp env secret_default t
      = (t\<lparr>at_custody := (at_custody t)\<lparr>cu_accepted := cu_accepted (at_custody t) @ [blob]\<rparr>\<rparr>, Inr ?s)"
    using assms(4-6) p by (simp add: get_or_create_account_def secret_default_def)
  then show ?thesis using assms(13,14) l by (auto simp: provision_cert_def)
qed

text \<open>A certificate that lives no longer than the renewal buffer is due at once: after a success the loop orders again without waiting.\<close>

lemma short_lived_no_wait:
  assumes "time_until_expiry_from_certified dp now k \<le> from_secs ACME_RENEWAL_BUFFER_SECS" "ar_cert (at_resolver t) = Some k"
  shows "next_renewal_sleep dp now 0 t = 0"
  using assms by (simp add: next_renewal_sleep_def time_until_renewal_from_certified_def failure_backoff_def)

text \<open>A store that cannot be read fails the start: the certificate is not ordered anew.\<close>

lemma unreadable_store_fails_start:
  assumes "store_load dp (at_store t) re (at_custody t) = Inl e" "ev_read_error env = re"
  shows "provision_initial_cert dp re env now later t = (t\<lparr>at_failures := at_failures t + 1\<rparr>, Inl e)"
  using assms by (simp add: provision_initial_cert_def load_cached_cert_def order_initial_cert_def provision_cert_def serve_stale_or_fail_def)

text \<open>When the authority cannot be told that a challenge is ready, its certificate stays installed.\<close>

lemma challenge_cert_left:
  assumes "build_tls_alpn_challenge_cert dp domain (az_build a) = Inr cert" "az_status a = AuthzPending" "az_challenge a = Some (Dns domain)"
    and "az_set_ready a = Inl e"
  shows "fst (authorization_loop dp (Inr a # rest) t) = set_challenge_cert domain cert t"
  using assms by (simp add: Let_def)

subsection \<open>A failing authority\<close>

text \<open>The file holds an account and a certificate; every new order is refused.\<close>

definition demo_secret :: acme_secret_state where
  "demo_secret = \<lparr>as_account_credentials = Some ''acct'', as_cert_chain_pem = Some ''chain'', as_key_pem = Some ''key''\<rparr>"

definition demo_acme_deps :: acme_deps where
  "demo_acme_deps = \<lparr>ad_to_json = (\<lambda>s. if s = demo_secret then Inr ''S'' else Inl ''unsupported''),
     ad_from_json = (\<lambda>b. if b = ''S'' then Inr demo_secret else Inl ''bad''), ad_credentials = (\<lambda>_. Inr ()),
     ad_pem_certs = (\<lambda>_. Inr [[1]]), ad_pem_key = (\<lambda>_. Inr [2]), ad_ecdsa = (\<lambda>_. Inr [3]), ad_keys_match = (\<lambda>_. KeysConsistent),
     ad_not_after = (\<lambda>_. Inr 100), ad_self_signed = (\<lambda>_ _. Inr [4])\<rparr>"

definition demo_persist :: persist_env where
  "demo_persist = \<lparr>pv_mkdir = Inr (), pv_temp = Inr (), pv_write = Inr (), pv_flush = Inr (), pv_rename = Inr (), pv_spawn = Inr (),
     pv_stdin = True, pv_stdin_write = Inr (), pv_stdin_close = Inr (), pv_wait = Inr True\<rparr>"

definition demo_refused :: acme_env where
  "demo_refused = \<lparr>ev_read_error = None, ev_builder = Inr (), ev_restore = Inr (), ev_create = Inr (), ev_serialize = Inr ''acct'',
     ev_persist_account = demo_persist, ev_new_order = Inl ''rate limited'', ev_authorizations = [], ev_ready = Inl ''none'',
     ev_keygen = Inl ''none'', ev_csr_params = Inr (), ev_csr = Inr (), ev_finalize = Inr (), ev_certificate = Inl ''none'', ev_persist_cert = demo_persist\<rparr>"

definition demo_acme_task :: acme_task where
  "demo_acme_task = \<lparr>at_config = \<lparr>atc_domains = [''h''], atc_acme_email = ''m'', atc_ca_cert_path = None, atc_cache_dir = ''d'', atc_staging = False,
       atc_directory_url = None, atc_directory_ca_cert = None, atc_barrel_state = None\<rparr>,
     at_resolver = \<lparr>ar_cert = Some \<lparr>ck_cert = [[1]], ck_key = [3]\<rparr>, ar_challenge_certs = Map.empty\<rparr>,
     at_custody = \<lparr>cu_file = Some ''S'', cu_env = Map.empty, cu_accepted = []\<rparr>, at_renewals = 0, at_failures = 0\<rparr>"

abbreviation "demo_turns \<equiv> replicate 5 \<lparr>tn_now = 0, tn_order = Some demo_refused\<rparr>"

lemma demo_holds: "json_doc demo_acme_deps" "at_store demo_acme_task = FileStore ''d''" "file_holds demo_acme_deps (at_custody demo_acme_task) demo_secret"
  by (auto simp: json_doc_def demo_acme_deps_def from_acme_config_def demo_acme_task_def load_from_file_def secret_from_json_def map_err_def split: if_splits)

lemma demo_provision: "provision_cert demo_acme_deps demo_refused (demo_acme_task\<lparr>at_failures := n\<rparr>) = (demo_acme_task\<lparr>at_failures := n\<rparr>, Inl (Acme ''rate limited''))"
  by (simp add: provision_cert_def store_load_def load_from_file_def secret_from_json_def map_err_def demo_acme_deps_def demo_refused_def demo_acme_task_def
      from_acme_config_def get_or_create_account_def demo_secret_def)

lemma demo_acme_run:
  "snd (acme_run demo_acme_deps (replicate m \<lparr>tn_now = 0, tn_order = Some demo_refused\<rparr>) c (demo_acme_task\<lparr>at_failures := n\<rparr>)) = l \<Longrightarrow>
   length l = m \<and> (\<forall>x \<in> set l. \<not> snd x)"
proof (induction m arbitrary: c n l)
  case (Suc m)
  then show ?case using demo_provision [of n] by (auto simp: Let_def split: prod.splits) (metis snd_conv)+
qed simp

theorem acme_failures_paced_witness:
  "\<exists>t' l. acme_run demo_acme_deps demo_turns 0 demo_acme_task = (t', l) \<and> length l = 5 \<and> from_secs 4500 \<le> sum_list (map fst (take 4 (drop 1 l)))"
proof -
  obtain t' l where r: "acme_run demo_acme_deps demo_turns 0 demo_acme_task = (t', l)" by fastforce
  have "demo_acme_task\<lparr>at_failures := 0\<rparr> = demo_acme_task" by (simp add: demo_acme_task_def)
  then have l: "length l = 5" "\<forall>x \<in> set l. \<not> snd x" using demo_acme_run [of 5 0 0 l] r by auto
  have "\<forall>m < 4. \<not> snd (l ! (0 + m))" using l by simp
  from acme_failures_paced [OF r _ _ this] l show ?thesis using r by auto
qed

theorem acme_file_store_durable_witness:
  "\<exists>t' l s'. acme_run demo_acme_deps demo_turns 0 demo_acme_task = (t', l) \<and> file_holds demo_acme_deps (at_custody t') s'
     \<and> as_account_credentials s' = Some ''acct'' \<and> as_key_pem s' \<noteq> None"
proof -
  obtain t' l where r: "acme_run demo_acme_deps demo_turns 0 demo_acme_task = (t', l)" by fastforce
  from acme_file_store_durable [OF r demo_holds(2,1,3)] show ?thesis using r by (auto simp: keeps_secrets_def demo_secret_def)
qed

end
