(* ===== verification/Bodies.thy ===== *)
theory Bodies
  imports Compress Cache Balancer
begin

section \<open>Request and response bodies (\<open>proxy/handler/body.rs\<close>, \<open>proxy/guarded_body.rs\<close>)\<close>

text \<open>
  Preparing a request body for replay, compressing a response, and the guarded body that holds a request's resources
  until its stream ends or stalls. Bodies of the HTTP library are an abstract type; \<open>collect n b\<close> is the outcome
  of reading a body through the library's length limit of \<open>n\<close> bytes. The lemmas: a body is buffered only
  within its cap, a request that must not be retried is never buffered and gets a single attempt, a compressed response
  never announces an encoding it does not have, and a stalled response is cut off at the idle timeout
  and not before.
\<close>

datatype 'b body = Raw 'b | Full bytes | LimitedBody nat "'b body" | ZstdBody int "'b body"

record 'b request =
  hr_method :: string
  hr_path :: string
  hr_path_and_query :: "string option"
  hr_headers :: header_map
  hr_body :: "'b body"

record 'b reply =
  re_status :: nat
  re_headers :: header_map
  re_body :: "'b body"

datatype collect_error = LengthLimitError | ReadFailed string

definition error_response :: "nat \<Rightarrow> string \<Rightarrow> 'b reply" where
  "error_response status message = \<lparr>re_status = status, re_headers = [], re_body = Full (as_bytes message)\<rparr>"

subsection \<open>Request bodies\<close>

definition declared_length_exceeds :: "header_map \<Rightarrow> u32 \<Rightarrow> bool" where
  "declared_length_exceeds h cap =
     (case Option.bind (Option.bind (hget h ''content-length'') to_str) (parse_unsigned 64) of
        Some len \<Rightarrow> unat cap < len
      | None \<Rightarrow> False)"

definition buffer_request_body :: "(nat \<Rightarrow> 'b body \<Rightarrow> collect_error + bytes) \<Rightarrow> 'b body \<Rightarrow> u32 \<Rightarrow> nat + bytes" where
  "buffer_request_body collect body cap =
     (case collect (unat cap) body of
        Inr bytes \<Rightarrow> Inr bytes
      | Inl LengthLimitError \<Rightarrow> Inl 413
      | Inl (ReadFailed _) \<Rightarrow> Inl 400)"

text \<open>\<open>task_ok\<close>: the blocking task that decompresses a large body did not panic.\<close>

definition decompress_request :: "(nat \<Rightarrow> 'b body \<Rightarrow> collect_error + bytes) \<Rightarrow> (bytes \<Rightarrow> string + bytes \<times> string option) \<Rightarrow> bool
    \<Rightarrow> 'b request \<Rightarrow> u32 \<Rightarrow> u32 \<Rightarrow> 'b reply + 'b request" where
  "decompress_request collect decoder_new task_ok req max_body inline_threshold =
     (case collect (unat max_body) (hr_body req) of
        Inl LengthLimitError \<Rightarrow> Inl (error_response 413 ''request body too large'')
      | Inl (ReadFailed _) \<Rightarrow> Inl (error_response 400 ''failed to read request body'')
      | Inr body_bytes \<Rightarrow>
          if unat inline_threshold < length body_bytes \<and> \<not> task_ok then Inl (error_response 500 ''decompression failed'')
          else (case decompress_bounded decoder_new body_bytes (unat max_body) of
                  Inl _ \<Rightarrow> Inl (error_response 400 ''invalid zstd body'')
                | Inr decompressed \<Rightarrow>
                    Inr (req\<lparr>hr_headers := hinsert ''content-length'' (show_nat (length decompressed)) (hremove ''content-encoding'' (hr_headers req)),
                             hr_body := Full decompressed\<rparr>)))"

record 'b replay_body =
  rb_body_bytes :: "bytes option"
  rb_streaming_body :: "'b body option"
  rb_method :: string
  rb_path :: string
  rb_path_and_query :: "string option"
  rb_headers :: header_map

datatype 'b prepared_body = PreparedReady "'b replay_body" u32 | PreparedRespond "'b reply"

text \<open>The second component is the status recorded as the request's completion, if it ends here.\<close>

definition prepare_replay_body :: "(nat \<Rightarrow> 'b body \<Rightarrow> collect_error + bytes) \<Rightarrow> (bytes \<Rightarrow> string + bytes \<times> string option) \<Rightarrow> bool
    \<Rightarrow> proxy_config \<Rightarrow> retry_config \<Rightarrow> bool \<Rightarrow> 'b request \<Rightarrow> 'b prepared_body \<times> nat option" where
  "prepare_replay_body collect decoder_new task_ok pc rc request_is_zstd req0 =
     (case (if request_is_zstd
            then decompress_request collect decoder_new task_ok req0 (pxc_max_request_body_bytes pc) (pxc_inline_compress_threshold pc)
            else Inr req0) of
        Inl response \<Rightarrow> (PreparedRespond response, Some (re_status response))
      | Inr req \<Rightarrow>
          let retries_allowed = retries_permitted (hr_method req) (hr_headers req);
              max_attempts = (if retries_allowed then rtc_max_retries rc + 1 else 1);
              cap = pxc_max_request_body_bytes pc;
              can_buffer = (1 < max_attempts \<and> \<not> declared_length_exceeds (hr_headers req) cap);
              mk = (\<lambda>bs sb. \<lparr>rb_body_bytes = bs, rb_streaming_body = sb, rb_method = hr_method req, rb_path = hr_path req,
                     rb_path_and_query = hr_path_and_query req, rb_headers = hr_headers req\<rparr>)
          in if can_buffer
             then (case buffer_request_body collect (hr_body req) cap of
                     Inr bytes \<Rightarrow> (PreparedReady (mk (Some bytes) None) max_attempts, None)
                   | Inl status \<Rightarrow>
                       (PreparedRespond (error_response status
                          (if status = 413 then ''request body too large'' else ''failed to read request body'')), Some status))
             else (PreparedReady (mk None (Some (hr_body req))) max_attempts, None))"

subsection \<open>Response compression\<close>

definition compress_now :: "(int \<Rightarrow> string + unit) \<Rightarrow> 'b reply \<Rightarrow> int \<Rightarrow> 'b reply" where
  "compress_now encoder_new response level =
     (case encoder_new level of
        Inl e \<Rightarrow> error_response 500 ''response compression failed''
      | Inr _ \<Rightarrow> response\<lparr>re_headers := hremove ''content-length'' (hinsert ''content-encoding'' ''zstd'' (re_headers response)),
                         re_body := ZstdBody level (re_body response)\<rparr>)"

definition compress_response :: "(int \<Rightarrow> string + unit) \<Rightarrow> 'b reply \<Rightarrow> u32 \<Rightarrow> int \<Rightarrow> 'b reply" where
  "compress_response encoder_new response min_bytes level =
     (case Option.bind (Option.bind (hget (re_headers response) ''content-length'') to_str) (parse_unsigned 32) of
        Some len \<Rightarrow> if len < unat min_bytes then response else compress_now encoder_new response level
      | None \<Rightarrow> compress_now encoder_new response level)"

definition reply_is_encoded :: "'b reply \<Rightarrow> bool" where
  "reply_is_encoded r = hcontains (re_headers r) ''content-encoding''"

definition maybe_compress :: "(int \<Rightarrow> string + unit) \<Rightarrow> 'b reply \<Rightarrow> bool \<Rightarrow> cache_directives \<Rightarrow> compression_config \<Rightarrow> 'b reply" where
  "maybe_compress encoder_new response accepts_zstd directives config =
     (if cpc_enabled config \<and> accepts_zstd \<and> \<not> reply_is_encoded response \<and> re_status response \<noteq> 206 \<and> \<not> cd_no_transform directives
      then compress_response encoder_new response (cpc_min_bytes config) (cpc_level config)
      else response)"

subsection \<open>The guarded body\<close>

datatype 'x guarded_error = GuardInner 'x | IdleTimeout duration

datatype 'x guarded_poll = GuardPending | GuardEnd | GuardFrame body_frame | GuardError "'x guarded_error"

text \<open>\<open>gb_idle\<close> is the instant the idle timer fires; \<open>gb_inner\<close> what polling the inner body yields (exhausted: its end).\<close>

record ('x, 'g) guarded_body =
  gb_inner :: "'x inner_poll list"
  gb_idle :: instant
  gb_idle_timeout :: duration
  gb_guards :: 'g
  gb_done :: bool

definition guarded_new :: "instant \<Rightarrow> 'x inner_poll list \<Rightarrow> 'g \<Rightarrow> duration \<Rightarrow> ('x, 'g) guarded_body" where
  "guarded_new now inner guards idle_timeout =
     \<lparr>gb_inner = inner, gb_idle = now + idle_timeout, gb_idle_timeout = idle_timeout, gb_guards = guards, gb_done = False\<rparr>"

definition guarded_poll_frame :: "instant \<Rightarrow> ('x, 'g) guarded_body \<Rightarrow> ('x, 'g) guarded_body \<times> 'x guarded_poll" where
  "guarded_poll_frame now b =
     (if gb_done b then (b, GuardEnd)
      else case gb_inner b of
             InnerFrame f # rest \<Rightarrow> (b\<lparr>gb_inner := rest, gb_idle := now + gb_idle_timeout b\<rparr>, GuardFrame f)
           | InnerError e # rest \<Rightarrow> (b\<lparr>gb_inner := rest, gb_done := True\<rparr>, GuardError (GuardInner e))
           | [] \<Rightarrow> (b\<lparr>gb_done := True\<rparr>, GuardEnd)
           | InnerPending # rest \<Rightarrow>
               let b = b\<lparr>gb_inner := rest\<rparr> in
               if gb_idle b \<le> now then (b\<lparr>gb_done := True\<rparr>, GuardError (IdleTimeout (gb_idle_timeout b)))
               else (b, GuardPending))"

definition guarded_is_end_stream :: "('x, 'g) guarded_body \<Rightarrow> bool" where
  "guarded_is_end_stream b = gb_done b"

fun guarded_run :: "instant list \<Rightarrow> ('x, 'g) guarded_body \<Rightarrow> ('x, 'g) guarded_body \<times> 'x guarded_poll list" where
  "guarded_run [] b = (b, [])"
| "guarded_run (now # ts) b =
     (case guarded_poll_frame now b of (b', p) \<Rightarrow> (case guarded_run ts b' of (b'', ps) \<Rightarrow> (b'', p # ps)))"

subsection \<open>Bodies respect their limits\<close>

text \<open>What the HTTP library documents of its length limit: what is read through it is never longer.\<close>

definition collect_doc :: "(nat \<Rightarrow> 'b body \<Rightarrow> collect_error + bytes) \<Rightarrow> bool" where
  "collect_doc collect \<longleftrightarrow> (\<forall>n b bs. collect n b = Inr bs \<longrightarrow> length bs \<le> n)"

lemma hget_hinsert [simp]: "hget (hinsert n v h) n = Some v"
  by (simp add: hget_def)

lemma decompress_request_bounded:
  assumes "decompress_request collect decoder_new task_ok req max_body inline_threshold = Inr req'"
  shows "\<exists>bs. hr_body req' = Full bs \<and> length bs \<le> unat max_body
    \<and> hget (hr_headers req') ''content-length'' = Some (show_nat (length bs)) \<and> \<not> hcontains (hr_headers req') ''content-encoding''"
  using assms
  by (auto simp: decompress_request_def decompress_bounded_exact split: sum.splits collect_error.splits if_splits)

lemma prepared_bounded:
  assumes "collect_doc collect" and "prepare_replay_body collect decoder_new task_ok pc rc z req = (PreparedReady rb n, c)"
  shows "(\<forall>bs. rb_body_bytes rb = Some bs \<longrightarrow> length bs \<le> unat (pxc_max_request_body_bytes pc))
    \<and> (rb_body_bytes rb = None \<longleftrightarrow> rb_streaming_body rb \<noteq> None)
    \<and> (\<not> retries_permitted (rb_method rb) (rb_headers rb) \<longrightarrow> n = 1 \<and> rb_body_bytes rb = None)"
  using assms
  by (auto simp: prepare_replay_body_def buffer_request_body_def collect_doc_def Let_def split: sum.splits collect_error.splits if_splits)

lemma maybe_compress_honest:
  assumes "\<not> reply_is_encoded r" and "r' = maybe_compress encoder_new r accepts d cfg"
  shows "r' = r \<or> r' = error_response 500 ''response compression failed''
    \<or> (accepts \<and> hget (re_headers r') ''content-encoding'' = Some ''zstd'' \<and> \<not> hcontains (re_headers r') ''content-length''
       \<and> re_status r' = re_status r \<and> re_body r' = ZstdBody (cpc_level cfg) (re_body r))"
  using assms by (auto simp: maybe_compress_def compress_response_def compress_now_def split: sum.splits option.splits if_splits)

lemma guarded_done_stays: "gb_done b \<Longrightarrow> guarded_run ts b = (b, map (\<lambda>_. GuardEnd) ts)"
  by (induction ts) (simp_all add: guarded_poll_frame_def)

lemma guarded_stall_cut:
  assumes "\<not> gb_done b" and "gb_inner b = InnerPending # rest"
  shows "snd (guarded_poll_frame now b) = (if gb_idle b \<le> now then GuardError (IdleTimeout (gb_idle_timeout b)) else GuardPending)"
  using assms by (simp add: guarded_poll_frame_def Let_def)

lemma guarded_frame_rearms:
  assumes "guarded_poll_frame now b = (b', GuardFrame f)"
  shows "gb_idle b' = now + gb_idle_timeout b \<and> \<not> gb_done b' \<and> gb_guards b' = gb_guards b"
  using assms by (auto simp: guarded_poll_frame_def Let_def split: list.splits inner_poll.splits if_splits)

end
