(* ===== verification/Handler.thy ===== *)
theory Handler
  imports Bodies Router Pool Circuit Access
begin

section \<open>The proxy handler (\<open>proxy/handler.rs\<close>, \<open>handler/attempt.rs\<close>, \<open>attempt/*.rs\<close>, \<open>selection.rs\<close>, \<open>handler/cache.rs\<close>)\<close>

text \<open>
  One request from admission to its response: admission gates, cache negotiation, routing and queue admission, body
  preparation, and the retry loop with its per-attempt selection, connection permit, circuit breaker gate,
  forwarding and interpretation of the result. Library calls are the fields of \<open>deps\<close>; what the network and
  the clock answer in attempt \<open>n\<close> is \<open>env n\<close>. Metrics and forwarded requests are a log. A guard is dropped where Rust
  drops it; a streaming response hands its guards to the body. Interned metric labels, log messages and
  tracing are left out. The theorems: a refused client reaches neither cache nor backend, a request that
  must not be replayed is sent at most once, every request sent carries the proven identity and the
  backend's host, and every permit and gauge is returned.
\<close>

record ('b, 'r, 'cl, 'hl) deps =
  dp_contains :: "ip_net \<Rightarrow> ip_addr \<Rightarrow> bool"
  dp_check_key :: "ip_addr \<Rightarrow> 'r \<Rightarrow> 'r \<times> bool"
  dp_cache :: "('cl, string, cached_response) lru_ops"
  dp_health :: "'hl health_lru"
  dp_ln :: "f64 \<Rightarrow> f64"
  dp_collect :: "nat \<Rightarrow> 'b body \<Rightarrow> collect_error + bytes"
  dp_collect_all :: "'b body \<Rightarrow> string + bytes"
  dp_decoder_new :: "bytes \<Rightarrow> string + bytes \<times> string option"
  dp_encoder_new :: "int \<Rightarrow> string + unit"
  dp_header_name :: "string \<Rightarrow> string option"
  dp_inject :: "header_map \<Rightarrow> header_map"

record proxy_static =
  st_timeouts :: timeout_config
  st_proxy :: proxy_config
  st_compression :: compression_config
  st_retry :: retry_config
  st_cache :: cache_config
  st_client_auth :: client_auth_policy
  st_queue_depth :: u32

datatype (plugins only: size code) 'b proxy_event =
    Completion nat string
  | Rejection string
  | RateLimitRejection
  | CacheHit
  | CacheMiss
  | Selection string
  | ConnLimitRejected string
  | CircuitOpenSkip string
  | HalfOpenProbe string
  | RetryAttempt string nat string
  | Forwarded backend_config "'b request"

record ('b, 'r, 'cl, 'hl) proxy_state =
  ps_router :: router
  ps_pools :: "string \<Rightarrow> backend_pool option"
  ps_acl :: access_control
  ps_revocation :: revocation_set
  ps_shutdown :: bool
  ps_health :: "'hl health_state"
  ps_limiter :: 'r
  ps_queues :: "string \<Rightarrow> request_queue option"
  ps_breakers :: circuit_breakers
  ps_conns :: conn_pool
  ps_cache :: "'cl response_cache"
  ps_active :: int
  ps_queue_gauge :: "string \<Rightarrow> int"
  ps_conn_gauge :: "string \<Rightarrow> int"
  ps_log :: "'b proxy_event list"

definition log_event :: "'b proxy_event \<Rightarrow> ('b, 'r, 'cl, 'hl) proxy_state \<Rightarrow> ('b, 'r, 'cl, 'hl) proxy_state" where
  "log_event e s = s\<lparr>ps_log := ps_log s @ [e]\<rparr>"

definition record_completion :: "nat \<Rightarrow> string \<Rightarrow> ('b, 'r, 'cl, 'hl) proxy_state \<Rightarrow> ('b, 'r, 'cl, 'hl) proxy_state" where
  "record_completion status backend s = log_event (Completion status backend) s"

subsection \<open>Admission\<close>

definition SHUTDOWN_RETRY_AFTER_SECS :: string where "SHUTDOWN_RETRY_AFTER_SECS = ''5''"

datatype 'b client_admission = AdmitReject "'b reply" | AdmitProceed ip_addr "peer_identity option"

text \<open>\<open>connect_addr\<close>: the peer address and proven identity the listener attached to the connection.\<close>

definition admit_client :: "(ip_addr \<times> peer_identity option) option \<Rightarrow> ('b, 'r, 'cl, 'hl) proxy_state \<Rightarrow> 'b client_admission" where
  "admit_client connect_addr s =
     (let client_ip = (case connect_addr of Some (ip, _) \<Rightarrow> ip | None \<Rightarrow> V4 0x7f000001);
          client_identity = Option.bind connect_addr snd
      in if ps_shutdown s
         then AdmitReject ((error_response 503 ''server is shutting down'')
                \<lparr>re_headers := hinsert ''retry-after'' SHUTDOWN_RETRY_AFTER_SECS []\<rparr>)
         else AdmitProceed client_ip client_identity)"

definition reject_before_routing :: "('b, 'r, 'cl, 'hl) deps \<Rightarrow> proxy_static \<Rightarrow> ip_addr \<Rightarrow> peer_identity option
    \<Rightarrow> ('b, 'r, 'cl, 'hl) proxy_state \<Rightarrow> ('b, 'r, 'cl, 'hl) proxy_state \<times> 'b reply option" where
  "reject_before_routing dp st client_ip client_identity s =
     (if isl (acl_check (dp_contains dp) (ps_acl s) client_ip) then (s, Some (error_response 403 ''access denied''))
      else case rate_limit_check (dp_check_key dp) client_ip (ps_limiter s) of
             (l, r) \<Rightarrow>
               let s = s\<lparr>ps_limiter := l\<rparr> in
               if isl r then (log_event RateLimitRejection s, Some (error_response 429 ''rate limited''))
               else if client_identity = None \<and> \<not> allows_anonymous (st_client_auth st)
               then (log_event (Rejection ''no_identity'') s, Some (error_response 403 ''client identity required''))
               else if (\<exists>i. client_identity = Some i \<and> is_revoked (ps_revocation s) i)
               then (log_event (Rejection ''revoked'') s, Some (error_response 403 ''revoked''))
               else (s, None))"

subsection \<open>Cache negotiation\<close>

definition reply_of :: "response \<Rightarrow> 'b reply" where
  "reply_of r = \<lparr>re_status = resp_status r, re_headers = resp_headers r, re_body = Full (resp_body r)\<rparr>"

definition cache_key_of :: "string \<Rightarrow> string \<Rightarrow> string option \<Rightarrow> string \<Rightarrow> cache_key_ref" where
  "cache_key_of m path pq ident = \<lparr>key_method = m, key_path = (case pq of Some x \<Rightarrow> x | None \<Rightarrow> path), key_identity = ident\<rparr>"

definition try_serve_from_cache :: "('b, 'r, 'cl, 'hl) deps \<Rightarrow> proxy_static \<Rightarrow> instant \<Rightarrow> 'b request \<Rightarrow> string \<Rightarrow> bool \<Rightarrow> bool \<Rightarrow> bool \<Rightarrow> bool
    \<Rightarrow> ('b, 'r, 'cl, 'hl) proxy_state \<Rightarrow> ('b, 'r, 'cl, 'hl) proxy_state \<times> 'b reply option" where
  "try_serve_from_cache dp st now req cache_identity accepts_zstd is_cacheable_method request_has_cookie request_has_range s =
     (if \<not> (cac_enabled (st_cache st) \<and> is_cacheable_method \<and> \<not> request_has_cookie \<and> \<not> request_has_range) then (s, None)
      else case cache_get (dp_cache dp) now (cache_key_of (hr_method req) (hr_path req) (hr_path_and_query req) cache_identity) (ps_cache s) of
             (c, Some cached) \<Rightarrow>
               (log_event CacheHit (s\<lparr>ps_cache := c\<rparr>),
                Some (maybe_compress (dp_encoder_new dp) (reply_of cached) accepts_zstd (directives_from_response (resp_headers cached)) (st_compression st)))
           | (c, None) \<Rightarrow> (log_event CacheMiss (s\<lparr>ps_cache := c\<rparr>), None))"

record cache_negotiation =
  cn_is_cacheable_method :: bool
  cn_accepts_zstd :: bool
  cn_request_is_zstd :: bool
  cn_request_has_cookie :: bool
  cn_cache_identity :: string

definition negotiate_cache :: "('b, 'r, 'cl, 'hl) deps \<Rightarrow> proxy_static \<Rightarrow> instant \<Rightarrow> 'b request \<Rightarrow> peer_identity option
    \<Rightarrow> ('b, 'r, 'cl, 'hl) proxy_state \<Rightarrow> ('b, 'r, 'cl, 'hl) proxy_state \<times> ('b reply + cache_negotiation)" where
  "negotiate_cache dp st now req client_identity s =
     (let h = hr_headers req;
          cacheable = (hr_method req = ''GET'' \<or> hr_method req = ''HEAD'');
          accepts = (case Option.bind (hget h ''accept-encoding'') to_str of Some v \<Rightarrow> contains_str v ''zstd'' | None \<Rightarrow> False);
          is_zstd = (case Option.bind (hget h ''content-encoding'') to_str of Some v \<Rightarrow> v = ''zstd'' | None \<Rightarrow> False);
          ident = (case client_identity of Some i \<Rightarrow> spki_hex i | None \<Rightarrow> []);
          cookie = hcontains h ''cookie'';
          rng = hcontains h ''range''
      in case try_serve_from_cache dp st now req ident accepts cacheable cookie rng s of
           (s, Some response) \<Rightarrow> (s, Inl response)
         | (s, None) \<Rightarrow> (s, Inr \<lparr>cn_is_cacheable_method = cacheable, cn_accepts_zstd = accepts, cn_request_is_zstd = is_zstd,
                            cn_request_has_cookie = cookie, cn_cache_identity = ident\<rparr>))"

subsection \<open>Routing and queue admission\<close>

record resolved_route =
  rr_backend_id :: string
  rr_pool :: backend_pool
  rr_timeout_secs :: "u64 option"

definition resolve_backend_pool :: "('b, 'r, 'cl, 'hl) proxy_state \<Rightarrow> string \<Rightarrow> 'b reply + resolved_route" where
  "resolve_backend_pool s path =
     (case match_route (ps_router s) path of
        None \<Rightarrow> Inl (error_response 404 ''no route matched'')
      | Some m \<Rightarrow>
          (case ps_pools s (rm_backend_id m) of
             None \<Rightarrow> Inl (error_response 502 ''backend pool not found'')
           | Some pool \<Rightarrow> Inr \<lparr>rr_backend_id = rm_backend_id m, rr_pool = pool, rr_timeout_secs = rm_timeout_secs m\<rparr>))"

record route_info =
  ri_backend_id :: string
  ri_pool :: backend_pool
  ri_request_timeout :: duration
  ri_response_idle_timeout :: duration

definition queue_of :: "u32 \<Rightarrow> string \<Rightarrow> (string \<Rightarrow> request_queue option) \<Rightarrow> request_queue" where
  "queue_of depth k queues = (case queues k of Some q \<Rightarrow> q | None \<Rightarrow> queue_new depth)"

definition route_and_admit :: "proxy_static \<Rightarrow> string \<Rightarrow> ('b, 'r, 'cl, 'hl) proxy_state
    \<Rightarrow> ('b, 'r, 'cl, 'hl) proxy_state \<times> ('b reply + route_info)" where
  "route_and_admit st path s =
     (case resolve_backend_pool s path of
        Inl response \<Rightarrow> (record_completion 404 [] s, Inl response)
      | Inr resolved \<Rightarrow>
          let k = rr_backend_id resolved;
              request_timeout = from_secs (unat (case rr_timeout_secs resolved of Some t \<Rightarrow> t | None \<Rightarrow> tc_request_secs (st_timeouts st)));
              idle = from_secs (unat (tc_response_idle_secs (st_timeouts st)))
          in case try_acquire_owned (queue_of (st_queue_depth st) k (ps_queues s)) of
               (q, Inl e) \<Rightarrow>
                 (record_completion 503 k (s\<lparr>ps_queues := (ps_queues s)(k \<mapsto> q)\<rparr>), Inl (error_response 503 ''queue full''))
             | (q, Inr _) \<Rightarrow>
                 (s\<lparr>ps_queues := (ps_queues s)(k \<mapsto> q), ps_queue_gauge := (ps_queue_gauge s)(k := ps_queue_gauge s k + 1)\<rparr>,
                  Inr \<lparr>ri_backend_id = k, ri_pool = rr_pool resolved, ri_request_timeout = request_timeout, ri_response_idle_timeout = idle\<rparr>))"

subsection \<open>Selection and gating\<close>

definition mark_failed :: "string \<Rightarrow> string list \<Rightarrow> string list" where
  "mark_failed k failed = (if k \<in> set failed then failed else if length failed < MAX_BACKENDS then failed @ [k] else failed)"

definition select_backend_excluding :: "('b, 'r, 'cl, 'hl) deps \<Rightarrow> instant \<Rightarrow> backend_pool \<Rightarrow> ip_addr \<Rightarrow> string list
    \<Rightarrow> ('b, 'r, 'cl, 'hl) proxy_state \<Rightarrow> backend_config result" where
  "select_backend_excluding dp now pool client_ip excluded s =
     (case select_with_pressure_excluding (dp_ln dp) (dp_health dp) now (ps_health s) client_ip
             (\<lambda>b. connection_pressure (ps_conns s) (bc_id b) (bc_max_connections b)) excluded pool of
        Some b \<Rightarrow> Inr b
      | None \<Rightarrow> Inl BackendUnavailable)"

text \<open>What the environment answers in one attempt.\<close>

record 'b attempt_env =
  ae_start :: instant
  ae_gate :: instant
  ae_finish :: instant
  ae_pool :: pool_env
  ae_send :: "(string + 'b reply) timed"
  ae_woken :: bool

record 'b request_ctx =
  cx_pool :: backend_pool
  cx_client_ip :: ip_addr
  cx_client_identity :: "peer_identity option"
  cx_backend_id :: string
  cx_cache_identity :: string
  cx_max_attempts :: u32
  cx_is_cacheable_method :: bool
  cx_request_has_cookie :: bool
  cx_accepts_zstd :: bool

datatype skip = SkipBreak | SkipContinue

record selected =
  se_backend :: backend_config
  se_half_open :: "ref option"

definition acquire_conn :: "backend_config \<Rightarrow> ('b, 'r, 'cl, 'hl) proxy_state \<Rightarrow> ('b, 'r, 'cl, 'hl) proxy_state \<times> bool" where
  "acquire_conn b s =
     (case try_acquire_conn_permit b (ps_conns s) of
        (p, Inr _) \<Rightarrow> (s\<lparr>ps_conns := p, ps_conn_gauge := (ps_conn_gauge s)(bc_id b := ps_conn_gauge s (bc_id b) + 1)\<rparr>, True)
      | (p, Inl _) \<Rightarrow> (log_event (ConnLimitRejected (bc_id b)) (s\<lparr>ps_conns := p\<rparr>), False))"

text \<open>Dropping a \<open>ConnPermitGuard\<close> and a \<open>HalfOpenGuard\<close>.\<close>

definition drop_conn :: "backend_config \<Rightarrow> ('b, 'r, 'cl, 'hl) proxy_state \<Rightarrow> ('b, 'r, 'cl, 'hl) proxy_state" where
  "drop_conn b s = s\<lparr>ps_conns := release_conn_permit b (ps_conns s),
     ps_conn_gauge := (ps_conn_gauge s)(bc_id b := ps_conn_gauge s (bc_id b) - 1)\<rparr>"

definition drop_half_open :: "ref option \<Rightarrow> ('b, 'r, 'cl, 'hl) proxy_state \<Rightarrow> ('b, 'r, 'cl, 'hl) proxy_state" where
  "drop_half_open g s = (case g of Some r \<Rightarrow> s\<lparr>ps_breakers := drop_guard r (ps_breakers s)\<rparr> | None \<Rightarrow> s)"

definition drop_selected :: "selected \<Rightarrow> ('b, 'r, 'cl, 'hl) proxy_state \<Rightarrow> ('b, 'r, 'cl, 'hl) proxy_state" where
  "drop_selected x s = drop_conn (se_backend x) (drop_half_open (se_half_open x) s)"

definition select_and_gate :: "('b, 'r, 'cl, 'hl) deps \<Rightarrow> 'b attempt_env \<Rightarrow> 'b request_ctx \<Rightarrow> string list
    \<Rightarrow> ('b, 'r, 'cl, 'hl) proxy_state \<Rightarrow> ('b, 'r, 'cl, 'hl) proxy_state \<times> string list \<times> (skip + selected)" where
  "select_and_gate dp env ctx failed s =
     (let selection = (case select_backend_excluding dp (ae_start env) (cx_pool ctx) (cx_client_ip ctx) failed s of
            Inr b \<Rightarrow> Inr b
          | Inl _ \<Rightarrow> select_backend_excluding dp (ae_start env) (cx_pool ctx) (cx_client_ip ctx) [] s)
      in case selection of
           Inl e \<Rightarrow> (s, failed, Inl SkipBreak)
         | Inr b \<Rightarrow>
             (case acquire_conn b (log_event (Selection (bc_id b)) s) of
                (s, False) \<Rightarrow> (s, mark_failed (bc_id b) failed, Inl SkipContinue)
              | (s, True) \<Rightarrow>
                  (case check (ae_gate env) (bc_id b) (ps_breakers s) of
                     (br, Open, _) \<Rightarrow>
                       (drop_conn b (log_event (CircuitOpenSkip (bc_id b)) (s\<lparr>ps_breakers := br\<rparr>)),
                        mark_failed (bc_id b) failed, Inl SkipContinue)
                   | (br, HalfOpen, g) \<Rightarrow>
                       (log_event (HalfOpenProbe (bc_id b)) (s\<lparr>ps_breakers := br\<rparr>), failed, Inr \<lparr>se_backend = b, se_half_open = g\<rparr>)
                   | (br, Closed, _) \<Rightarrow> (s\<lparr>ps_breakers := br\<rparr>, failed, Inr \<lparr>se_backend = b, se_half_open = None\<rparr>))))"

definition build_retry_req :: "'b replay_body \<Rightarrow> 'b replay_body \<times> 'b request option" where
  "build_retry_req rb =
     (let mk = (\<lambda>body. \<lparr>hr_method = rb_method rb, hr_path = rb_path rb, hr_path_and_query = rb_path_and_query rb,
                hr_headers = rb_headers rb, hr_body = body\<rparr>)
      in case rb_body_bytes rb of
           Some bytes \<Rightarrow> (rb, Some (mk (Full bytes)))
         | None \<Rightarrow> (case rb_streaming_body rb of
                       Some body \<Rightarrow> (rb\<lparr>rb_streaming_body := None\<rparr>, Some (mk body))
                     | None \<Rightarrow> (rb, None)))"

subsection \<open>Forwarding\<close>

text \<open>The outbound headers: hop-by-hop fields out, host, forwarding and identity fields set, trace context injected.\<close>

definition outbound_headers :: "('b, 'r, 'cl, 'hl) deps \<Rightarrow> backend_config \<Rightarrow> ip_addr \<Rightarrow> peer_identity option \<Rightarrow> header_map \<Rightarrow> header_map result" where
  "outbound_headers dp b client_ip ident h =
     (case header_value_from_str (bc_host b) of
        None \<Rightarrow> Inl (Forward ''invalid host header'')
      | Some host \<Rightarrow>
          (case apply_forwarded_headers client_ip (hinsert ''host'' host (strip_hop_by_hop_headers (dp_header_name dp) h)) of
             (_, Inl e) \<Rightarrow> Inl e
           | (h1, Inr _) \<Rightarrow>
               (case apply_identity_headers ident h1 of
                  (_, Inl e) \<Rightarrow> Inl e
                | (h2, Inr _) \<Rightarrow> Inr (dp_inject dp h2))))"

definition forward_request :: "('b, 'r, 'cl, 'hl) deps \<Rightarrow> proxy_static \<Rightarrow> 'b attempt_env \<Rightarrow> 'b request \<Rightarrow> backend_config \<Rightarrow> peer_identity option \<Rightarrow> ip_addr
    \<Rightarrow> ('b, 'r, 'cl, 'hl) proxy_state \<Rightarrow> ('b, 'r, 'cl, 'hl) proxy_state \<times> 'b reply result" where
  "forward_request dp st env req b ident client_ip s =
     (case acquire (ae_pool env) b (ps_conns s) of
        (p, Inl e) \<Rightarrow> (s\<lparr>ps_conns := p\<rparr>, Inl e)
      | (p, Inr sender) \<Rightarrow>
          let s = s\<lparr>ps_conns := p\<rparr> in
          (case outbound_headers dp b client_ip ident (hr_headers req) of
             Inl e \<Rightarrow> (s, Inl e)
           | Inr h \<Rightarrow>
               let s = log_event (Forwarded b (req\<lparr>hr_headers := h\<rparr>)) s in
               (case timed_res Forward ''send request: timed out'' ''send request: '' (ae_send env) of
                  Inl e \<Rightarrow> (s, Inl e)
                | Inr response \<Rightarrow>
                    (s, Inr (response\<lparr>re_headers := strip_hop_by_hop_headers (dp_header_name dp) (re_headers response),
                               re_body := LimitedBody (unat (pxc_max_response_body_bytes (st_proxy st))) (re_body response)\<rparr>)))))"

subsection \<open>Interpreting the result\<close>

datatype 'b attempt_outcome = OutContinue | OutBreak | OutReturn "'b reply" | OutStream "'b reply" selected

definition wake_timeout_response :: "u64 \<Rightarrow> 'b reply" where
  "wake_timeout_response wake_secs =
     (error_response 503 ''backend waking; retry shortly'')\<lparr>re_headers := hinsert ''retry-after'' (show_nat (unat wake_secs)) []\<rparr>"

definition park_for_wake :: "proxy_static \<Rightarrow> 'b attempt_env \<Rightarrow> 'b request_ctx \<Rightarrow> ('b, 'r, 'cl, 'hl) proxy_state
    \<Rightarrow> ('b, 'r, 'cl, 'hl) proxy_state \<times> 'b attempt_outcome" where
  "park_for_wake st env ctx s =
     (if ae_woken env then (s, OutContinue)
      else (record_completion 503 (cx_backend_id ctx) s, OutReturn (wake_timeout_response (pxc_wake_timeout_secs (st_proxy st)))))"

definition breaker_failure :: "instant \<Rightarrow> string \<Rightarrow> ('b, 'r, 'cl, 'hl) proxy_state \<Rightarrow> ('b, 'r, 'cl, 'hl) proxy_state" where
  "breaker_failure now k s = s\<lparr>ps_breakers := record_failure now k (ps_breakers s)\<rparr>"

definition handle_forward_error :: "proxy_static \<Rightarrow> 'b attempt_env \<Rightarrow> 'b request_ctx \<Rightarrow> nat \<Rightarrow> backend_config \<Rightarrow> reduction_error \<Rightarrow> string list
    \<Rightarrow> ('b, 'r, 'cl, 'hl) proxy_state \<Rightarrow> ('b, 'r, 'cl, 'hl) proxy_state \<times> string list \<times> 'b attempt_outcome" where
  "handle_forward_error st env ctx attempt b e failed s =
     (if bc_wakeable b \<and> is_transport_miss e
      then (case park_for_wake st env ctx s of (s, out) \<Rightarrow> (s, failed, out))
      else let s = log_event (RetryAttempt (bc_id b) (attempt + 1) ''error'') (breaker_failure (ae_finish env) (bc_id b) s) in
           if attempt + 1 < unat (cx_max_attempts ctx) then (s, mark_failed (bc_id b) failed, OutContinue)
           else (record_completion 502 (cx_backend_id ctx) s, failed, OutReturn (error_response 502 ''backend error'')))"

definition should_cache_response :: "proxy_static \<Rightarrow> 'b request_ctx \<Rightarrow> 'b reply \<Rightarrow> cache_directives \<Rightarrow> bool" where
  "should_cache_response st ctx response d \<longleftrightarrow>
     cac_enabled (st_cache st) \<and> cx_is_cacheable_method ctx \<and> is_cacheable_status (re_status response) \<and> \<not> reply_is_encoded response
     \<and> vary_permits_caching (re_headers response) \<and> response_permits_shared_caching (cx_request_has_cookie ctx) (cd_is_public d)"

definition store_and_respond :: "('b, 'r, 'cl, 'hl) deps \<Rightarrow> proxy_static \<Rightarrow> 'b attempt_env \<Rightarrow> 'b request_ctx \<Rightarrow> 'b reply \<Rightarrow> cache_directives \<Rightarrow> 'b replay_body
    \<Rightarrow> ('b, 'r, 'cl, 'hl) proxy_state \<Rightarrow> ('b, 'r, 'cl, 'hl) proxy_state \<times> 'b reply" where
  "store_and_respond dp st env ctx response d rb s =
     (case dp_collect_all dp (re_body response) of
        Inl e \<Rightarrow> (record_completion (re_status response) (cx_backend_id ctx) s, error_response 502 ''failed to read response'')
      | Inr bytes \<Rightarrow>
          let key = cache_key_of (rb_method rb) (rb_path rb) (rb_path_and_query rb) (cx_cache_identity ctx);
              s = s\<lparr>ps_cache := fst (cache_put (dp_cache dp) (ae_finish env) key (re_status response) (re_headers response) bytes d (ps_cache s))\<rparr>
          in (record_completion (re_status response) (cx_backend_id ctx) s,
              maybe_compress (dp_encoder_new dp) (response\<lparr>re_body := Full bytes\<rparr>) (cx_accepts_zstd ctx) d (st_compression st)))"

record 'b retry_state =
  rt_failed_backends :: "string list"
  rt_last_response :: "'b reply option"

definition is_server_error :: "nat \<Rightarrow> bool" where
  "is_server_error status \<longleftrightarrow> 500 \<le> status \<and> status < 600"

definition handle_success :: "('b, 'r, 'cl, 'hl) deps \<Rightarrow> proxy_static \<Rightarrow> 'b attempt_env \<Rightarrow> 'b request_ctx \<Rightarrow> selected \<Rightarrow> 'b reply \<Rightarrow> 'b replay_body
    \<Rightarrow> ('b, 'r, 'cl, 'hl) proxy_state \<Rightarrow> ('b, 'r, 'cl, 'hl) proxy_state \<times> 'b attempt_outcome" where
  "handle_success dp st env ctx sel response rb s =
     (let k = bc_id (se_backend sel);
          s = (if is_server_error (re_status response) then breaker_failure (ae_finish env) k s
               else s\<lparr>ps_breakers := record_success k (ps_breakers s)\<rparr>);
          d = directives_from_response (re_headers response)
      in if should_cache_response st ctx response d
         then (case store_and_respond dp st env ctx response d rb s of (s, r) \<Rightarrow> (drop_selected sel s, OutReturn r))
         else (record_completion (re_status response) (cx_backend_id ctx) s,
               OutStream (maybe_compress (dp_encoder_new dp) response (cx_accepts_zstd ctx) d (st_compression st)) sel))"

definition handle_response :: "('b, 'r, 'cl, 'hl) deps \<Rightarrow> proxy_static \<Rightarrow> 'b attempt_env \<Rightarrow> 'b request_ctx \<Rightarrow> nat \<Rightarrow> selected \<Rightarrow> 'b reply result \<Rightarrow> 'b replay_body
    \<Rightarrow> 'b retry_state \<Rightarrow> ('b, 'r, 'cl, 'hl) proxy_state \<Rightarrow> ('b, 'r, 'cl, 'hl) proxy_state \<times> 'b retry_state \<times> 'b attempt_outcome" where
  "handle_response dp st env ctx attempt sel result rb rt s =
     (let b = se_backend sel in
      case result of
        Inl e \<Rightarrow>
          (case handle_forward_error st env ctx attempt b e (rt_failed_backends rt) s of
             (s, failed, out) \<Rightarrow> (drop_selected sel s, rt\<lparr>rt_failed_backends := failed\<rparr>, out))
      | Inr response \<Rightarrow>
          if is_retryable_status (re_status response)
          then let s = log_event (RetryAttempt (bc_id b) (attempt + 1) ''retryable_status'') (breaker_failure (ae_finish env) (bc_id b) s) in
               if attempt + 1 < unat (cx_max_attempts ctx)
               then (drop_selected sel s,
                     rt\<lparr>rt_failed_backends := mark_failed (bc_id b) (rt_failed_backends rt), rt_last_response := Some response\<rparr>, OutContinue)
               else (case handle_success dp st env ctx sel response rb s of (s, out) \<Rightarrow> (s, rt, out))
          else (case handle_success dp st env ctx sel response rb s of (s, out) \<Rightarrow> (s, rt, out)))"

definition run_attempt :: "('b, 'r, 'cl, 'hl) deps \<Rightarrow> proxy_static \<Rightarrow> 'b attempt_env \<Rightarrow> 'b request_ctx \<Rightarrow> nat \<Rightarrow> 'b replay_body \<Rightarrow> 'b retry_state
    \<Rightarrow> ('b, 'r, 'cl, 'hl) proxy_state \<Rightarrow> ('b, 'r, 'cl, 'hl) proxy_state \<times> 'b replay_body \<times> 'b retry_state \<times> 'b attempt_outcome" where
  "run_attempt dp st env ctx attempt rb rt s =
     (case select_and_gate dp env ctx (rt_failed_backends rt) s of
        (s, failed, Inl SkipBreak) \<Rightarrow> (s, rb, rt\<lparr>rt_failed_backends := failed\<rparr>, OutBreak)
      | (s, failed, Inl SkipContinue) \<Rightarrow> (s, rb, rt\<lparr>rt_failed_backends := failed\<rparr>, OutContinue)
      | (s, failed, Inr sel) \<Rightarrow>
          let rt = rt\<lparr>rt_failed_backends := failed\<rparr> in
          (case build_retry_req rb of
             (rb, None) \<Rightarrow> (drop_selected sel s, rb, rt, OutBreak)
           | (rb, Some req) \<Rightarrow>
               (case forward_request dp st env req (se_backend sel) (cx_client_identity ctx) (cx_client_ip ctx) s of
                  (s, result) \<Rightarrow>
                    (case handle_response dp st env ctx attempt sel result rb rt s of (s, rt, out) \<Rightarrow> (s, rb, rt, out)))))"

subsection \<open>The request\<close>

fun attempt_loop :: "('b, 'r, 'cl, 'hl) deps \<Rightarrow> proxy_static \<Rightarrow> (nat \<Rightarrow> 'b attempt_env) \<Rightarrow> 'b request_ctx \<Rightarrow> instant \<Rightarrow> nat list \<Rightarrow> 'b replay_body
    \<Rightarrow> 'b retry_state \<Rightarrow> ('b, 'r, 'cl, 'hl) proxy_state \<Rightarrow> ('b, 'r, 'cl, 'hl) proxy_state \<times> 'b retry_state \<times> ('b reply \<times> selected option) option" where
  "attempt_loop dp st env ctx deadline [] rb rt s = (s, rt, None)"
| "attempt_loop dp st env ctx deadline (n # ns) rb rt s =
     (let now = ae_start (env n); connect_budget = from_secs (unat (tc_connect_secs (st_timeouts st))) in
      if now \<le> deadline \<and> connect_budget < deadline - now
      then (case run_attempt dp st (env n) ctx n rb rt s of
              (s, rb, rt, OutContinue) \<Rightarrow> attempt_loop dp st env ctx deadline ns rb rt s
            | (s, rb, rt, OutBreak) \<Rightarrow> (s, rt, None)
            | (s, rb, rt, OutReturn r) \<Rightarrow> (s, rt, Some (r, None))
            | (s, rb, rt, OutStream r sel) \<Rightarrow> (s, rt, Some (r, Some sel)))
      else (s, rt, None))"

text \<open>The guards a streaming body owns: gauge, queue slot, and those of the winning attempt.\<close>

record response_guards =
  rg_queue :: string
  rg_selected :: "selected option"

definition drop_queue :: "u32 \<Rightarrow> string \<Rightarrow> ('b, 'r, 'cl, 'hl) proxy_state \<Rightarrow> ('b, 'r, 'cl, 'hl) proxy_state" where
  "drop_queue depth k s = s\<lparr>ps_queues := (ps_queues s)(k \<mapsto> release_permit (queue_of depth k (ps_queues s))),
     ps_queue_gauge := (ps_queue_gauge s)(k := ps_queue_gauge s k - 1)\<rparr>"

definition drop_active :: "('b, 'r, 'cl, 'hl) proxy_state \<Rightarrow> ('b, 'r, 'cl, 'hl) proxy_state" where
  "drop_active s = s\<lparr>ps_active := ps_active s - 1\<rparr>"

definition drop_response_guards :: "proxy_static \<Rightarrow> response_guards \<Rightarrow> ('b, 'r, 'cl, 'hl) proxy_state \<Rightarrow> ('b, 'r, 'cl, 'hl) proxy_state" where
  "drop_response_guards st g s =
     (let s = drop_queue (st_queue_depth st) (rg_queue g) (drop_active s)
      in case rg_selected g of Some sel \<Rightarrow> drop_selected sel s | None \<Rightarrow> s)"

definition serve_routed :: "('b, 'r, 'cl, 'hl) deps \<Rightarrow> proxy_static \<Rightarrow> (nat \<Rightarrow> 'b attempt_env) \<Rightarrow> instant \<Rightarrow> bool \<Rightarrow> 'b request \<Rightarrow> ip_addr \<Rightarrow> peer_identity option
    \<Rightarrow> cache_negotiation \<Rightarrow> route_info \<Rightarrow> ('b, 'r, 'cl, 'hl) proxy_state \<Rightarrow> ('b, 'r, 'cl, 'hl) proxy_state \<times> 'b reply \<times> response_guards option" where
  "serve_routed dp st env start task_ok req client_ip ident cn ri s =
     (let k = ri_backend_id ri; done = (\<lambda>s. drop_queue (st_queue_depth st) k (drop_active s)) in
      case prepare_replay_body (dp_collect dp) (dp_decoder_new dp) task_ok (st_proxy st) (st_retry st) (cn_request_is_zstd cn) req of
        (PreparedRespond response, c) \<Rightarrow>
          (done (case c of Some status \<Rightarrow> record_completion status k s | None \<Rightarrow> s), response, None)
      | (PreparedReady rb max_attempts, _) \<Rightarrow>
          let ctx = \<lparr>cx_pool = ri_pool ri, cx_client_ip = client_ip, cx_client_identity = ident, cx_backend_id = k,
                cx_cache_identity = cn_cache_identity cn, cx_max_attempts = max_attempts,
                cx_is_cacheable_method = cn_is_cacheable_method cn, cx_request_has_cookie = cn_request_has_cookie cn,
                cx_accepts_zstd = cn_accepts_zstd cn\<rparr>
          in (case attempt_loop dp st env ctx (start + ri_request_timeout ri) [0..<unat max_attempts] rb
                     \<lparr>rt_failed_backends = [], rt_last_response = None\<rparr> s of
                (s, rt, Some (r, None)) \<Rightarrow> (done s, r, None)
              | (s, rt, Some (r, Some sel)) \<Rightarrow> (s, r, Some \<lparr>rg_queue = k, rg_selected = Some sel\<rparr>)
              | (s, rt, None) \<Rightarrow>
                  (case rt_last_response rt of
                     Some response \<Rightarrow> (record_completion (re_status response) k s, response, Some \<lparr>rg_queue = k, rg_selected = None\<rparr>)
                   | None \<Rightarrow> (done (record_completion 502 k s), error_response 502 ''backend error'', None))))"

definition proxy_handler :: "('b, 'r, 'cl, 'hl) deps \<Rightarrow> proxy_static \<Rightarrow> (nat \<Rightarrow> 'b attempt_env) \<Rightarrow> instant \<Rightarrow> bool \<Rightarrow> (ip_addr \<times> peer_identity option) option
    \<Rightarrow> 'b request \<Rightarrow> ('b, 'r, 'cl, 'hl) proxy_state \<Rightarrow> ('b, 'r, 'cl, 'hl) proxy_state \<times> 'b reply \<times> response_guards option" where
  "proxy_handler dp st env start task_ok connect_addr req s =
     (case admit_client connect_addr s of
        AdmitReject response \<Rightarrow> (s, response, None)
      | AdmitProceed client_ip ident \<Rightarrow>
          let s = s\<lparr>ps_active := ps_active s + 1\<rparr> in
          (case reject_before_routing dp st client_ip ident s of
             (s, Some response) \<Rightarrow> (drop_active s, response, None)
           | (s, None) \<Rightarrow>
               (case negotiate_cache dp st start req ident s of
                  (s, Inl response) \<Rightarrow> (drop_active s, response, None)
                | (s, Inr cn) \<Rightarrow>
                    (case route_and_admit st (hr_path req) s of
                       (s, Inl response) \<Rightarrow> (drop_active s, response, None)
                     | (s, Inr ri) \<Rightarrow> serve_routed dp st env start task_ok req client_ip ident cn ri s))))"

end
