(* ===== verification/Handler_Props.thy ===== *)
theory Handler_Props
  imports Handler
begin

section \<open>Properties of the proxy handler\<close>

text \<open>
  What the whole request path guarantees: refused clients reach nothing, requests are sent within the retry budget
  and never twice when they must not be, what is sent carries the proven identity, and every resource
  taken for a request is given back.
\<close>

subsection \<open>What is sent\<close>

definition sent_of :: "'b proxy_event list \<Rightarrow> (backend_config \<times> 'b request) list" where
  "sent_of es = List.map_filter (\<lambda>e. case e of Forwarded b r \<Rightarrow> Some (b, r) | _ \<Rightarrow> None) es"

abbreviation sent :: "('b, 'r, 'cl, 'hl) proxy_state \<Rightarrow> (backend_config \<times> 'b request) list" where
  "sent s \<equiv> sent_of (ps_log s)"

lemma sent_of_append [simp]: "sent_of (es @ es') = sent_of es @ sent_of es'"
  by (simp add: sent_of_def List.map_filter_def)

lemma sent_of_simps [simp]:
  "sent_of [] = []" "sent_of (Completion n k # es) = sent_of es" "sent_of (Rejection x # es) = sent_of es"
  "sent_of (RateLimitRejection # es) = sent_of es" "sent_of (CacheHit # es) = sent_of es" "sent_of (CacheMiss # es) = sent_of es"
  "sent_of (Selection k # es) = sent_of es" "sent_of (ConnLimitRejected k # es) = sent_of es"
  "sent_of (CircuitOpenSkip k # es) = sent_of es" "sent_of (HalfOpenProbe k # es) = sent_of es"
  "sent_of (RetryAttempt k n x # es) = sent_of es" "sent_of (Forwarded b r # es) = (b, r) # sent_of es"
  by (simp_all add: sent_of_def List.map_filter_def)

lemma log_event_log [simp]: "ps_log (log_event e s) = ps_log s @ [e]"
  by (simp add: log_event_def)

lemma drop_log [simp]:
  "ps_log (drop_conn b s) = ps_log s" "ps_log (drop_half_open g s) = ps_log s" "ps_log (drop_selected x s) = ps_log s"
  "ps_log (drop_queue n k s) = ps_log s" "ps_log (drop_active s) = ps_log s" "ps_log (breaker_failure now k s) = ps_log s"
  by (simp_all add: drop_conn_def drop_half_open_def drop_selected_def drop_queue_def drop_active_def breaker_failure_def split: option.split)

lemma acquire_conn_sent [simp]: "sent (fst (acquire_conn b s)) = sent s"
  by (simp add: acquire_conn_def split: prod.split sum.split)

lemma select_and_gate_sent [simp]: "sent (fst (select_and_gate dp env ctx failed s)) = sent s"
proof -
  have "sent s1 = sent s" if "acquire_conn b (log_event (Selection k) s) = (s1, ok)" for b k s1 ok
    using acquire_conn_sent [of b "log_event (Selection k) s"] that by simp
  then show ?thesis
    by (auto simp: select_and_gate_def Let_def split: sum.split prod.split bool.split circuit_state.split)
qed

lemma handle_forward_error_sent [simp]: "sent (fst (handle_forward_error st env ctx n b e failed s)) = sent s"
  by (simp add: handle_forward_error_def park_for_wake_def record_completion_def Let_def)

lemma handle_success_sent [simp]: "sent (fst (handle_success dp st env ctx sel r rb s)) = sent s"
  by (simp add: handle_success_def store_and_respond_def record_completion_def Let_def split: sum.split)

lemma handle_response_sent [simp]: "sent (fst (handle_response dp st env ctx n sel res rb rt s)) = sent s"
proof -
  have 1: "sent s1 = sent s" if "handle_forward_error st env ctx n b e failed s = (s1, f, out)" for b e failed s1 f out
    using handle_forward_error_sent [of st env ctx n b e failed s] that by simp
  have 2: "sent s1 = sent s'" if "handle_success dp st env ctx sel r rb s' = (s1, out)" for r s' s1 out
    using handle_success_sent [of dp st env ctx sel r rb s'] that by simp
  show ?thesis by (auto simp: handle_response_def Let_def dest: 1 2 split: sum.split prod.split)
qed

lemma select_backend_member:
  "select_backend_excluding dp now pool ip excluded s = Inr b \<Longrightarrow> b \<in> set (bp_backends pool)"
  by (auto simp: select_backend_excluding_def select_best_of dest!: best_of_mem split: option.splits)

lemma select_and_gate_member:
  assumes "select_and_gate dp env ctx failed s = (s', failed', Inr sel)"
  shows "se_backend sel \<in> set (bp_backends (cx_pool ctx))"
proof -
  obtain b where b: "se_backend sel = b" "select_backend_excluding dp (ae_start env) (cx_pool ctx) (cx_client_ip ctx) failed s = Inr b
      \<or> select_backend_excluding dp (ae_start env) (cx_pool ctx) (cx_client_ip ctx) [] s = Inr b"
    using assms by (fastforce simp: select_and_gate_def Let_def split: sum.splits prod.splits bool.splits circuit_state.splits)
  then show ?thesis using select_backend_member by metis
qed

text \<open>What is sent: to a backend of the pool, with the headers \<open>outbound_headers\<close> makes for this client.\<close>

definition authentic :: "('b, 'r, 'cl, 'hl) deps \<Rightarrow> 'b request_ctx \<Rightarrow> header_map \<Rightarrow> backend_config \<times> 'b request \<Rightarrow> bool" where
  "authentic dp ctx h x \<longleftrightarrow> outbound_headers dp (fst x) (cx_client_ip ctx) (cx_client_identity ctx) h = Inr (hr_headers (snd x))
     \<and> fst x \<in> set (bp_backends (cx_pool ctx))"

lemma forward_request_sent:
  assumes "forward_request dp st env req b ident ip s = (s', res)"
  shows "sent s' = sent s \<or> (\<exists>h. outbound_headers dp b ip ident (hr_headers req) = Inr h \<and> sent s' = sent s @ [(b, req\<lparr>hr_headers := h\<rparr>)])"
  using assms by (auto simp: forward_request_def Let_def split: prod.splits sum.splits)

lemma build_retry_req_ok:
  assumes "build_retry_req rb = (rb', q)"
  shows "rb_headers rb' = rb_headers rb \<and> rb_body_bytes rb' = rb_body_bytes rb
    \<and> (\<forall>r. q = Some r \<longrightarrow> hr_headers r = rb_headers rb \<and> hr_method r = rb_method rb
          \<and> (rb_body_bytes rb = None \<longrightarrow> rb_streaming_body rb \<noteq> None \<and> rb_streaming_body rb' = None))
    \<and> (rb_streaming_body rb = None \<longrightarrow> rb_streaming_body rb' = None)"
  using assms by (auto simp: build_retry_req_def Let_def split: option.splits)

text \<open>How many more times a replay body may be sent.\<close>

definition sends_left :: "'b replay_body \<Rightarrow> nat \<Rightarrow> nat" where
  "sends_left rb n = (if rb_body_bytes rb = None then (if rb_streaming_body rb = None then 0 else min 1 n) else n)"

lemma run_attempt_sent:
  assumes "run_attempt dp st env ctx n rb rt s = (s', rb', rt', out)"
  shows "\<exists>l. sent s' = sent s @ l \<and> length l + sends_left rb' m \<le> sends_left rb (Suc m) \<and> rb_headers rb' = rb_headers rb
    \<and> (\<forall>x\<in>set l. authentic dp ctx (rb_headers rb) x)"
proof -
  obtain s1 failed g where g: "select_and_gate dp env ctx (rt_failed_backends rt) s = (s1, failed, g)" by (metis prod_cases3)
  have s1: "sent s1 = sent s" using select_and_gate_sent [of dp env ctx "rt_failed_backends rt" s] g by simp
  show ?thesis
  proof (cases g)
    case (Inl sk)
    then show ?thesis using assms g s1 by (cases sk) (auto simp: run_attempt_def sends_left_def intro!: exI [of _ "[]"])
  next
    case (Inr sel)
    obtain rb1 q where q: "build_retry_req rb = (rb1, q)" by fastforce
    note ok = build_retry_req_ok [OF q]
    show ?thesis
    proof (cases q)
      case None
      then show ?thesis using assms g s1 Inr q ok
        by (auto simp: run_attempt_def sends_left_def Let_def intro!: exI [of _ "[]"])
    next
      case (Some req)
      obtain s2 res where f: "forward_request dp st env req (se_backend sel) (cx_client_identity ctx) (cx_client_ip ctx) s1 = (s2, res)"
        by fastforce
      have h: "handle_response dp st env ctx n sel res rb1 (rt\<lparr>rt_failed_backends := failed\<rparr>) s2 = (s', rt', out)" "rb' = rb1"
        using assms g Inr q Some f by (auto simp: run_attempt_def Let_def split: prod.splits)
      have e: "sent s' = sent s2" "rb' = rb1"
        using handle_response_sent [of dp st env ctx n sel res rb1 "rt\<lparr>rt_failed_backends := failed\<rparr>" s2] h
        by (simp_all del: handle_response_sent)
      have left: "1 + sends_left rb1 m \<le> sends_left rb (Suc m)" using ok Some by (auto simp: sends_left_def)
      from forward_request_sent [OF f] show ?thesis
      proof
        assume "sent s2 = sent s1"
        then show ?thesis using e s1 left ok by (intro exI [of _ "[]"]) auto
      next
        assume "\<exists>h. outbound_headers dp (se_backend sel) (cx_client_ip ctx) (cx_client_identity ctx) (hr_headers req) = Inr h
            \<and> sent s2 = sent s1 @ [(se_backend sel, req\<lparr>hr_headers := h\<rparr>)]"
        then show ?thesis using e s1 left ok Some select_and_gate_member [OF g [unfolded Inr]] by (auto simp: authentic_def)
      qed
    qed
  qed
qed

lemma attempt_loop_sent:
  "attempt_loop dp st env ctx dl ns rb rt s = (s', rt', out) \<Longrightarrow>
   \<exists>l. sent s' = sent s @ l \<and> length l \<le> sends_left rb (length ns)
     \<and> (\<forall>x\<in>set l. authentic dp ctx (rb_headers rb) x)"
proof (induction ns arbitrary: rb rt s)
  case Nil
  then show ?case by (auto intro!: exI [of _ "[]"])
next
  case (Cons n ns)
  obtain s1 rb1 rt1 o1 where r: "run_attempt dp st (env n) ctx n rb rt s = (s1, rb1, rt1, o1)" by (metis prod_cases4)
  obtain l1 where l1: "sent s1 = sent s @ l1" "length l1 + sends_left rb1 (length ns) \<le> sends_left rb (Suc (length ns))"
      "rb_headers rb1 = rb_headers rb" "\<forall>x\<in>set l1. authentic dp ctx (rb_headers rb) x"
    using run_attempt_sent [OF r, of "length ns"] by blast
  show ?case
  proof (cases "ae_start (env n) \<le> dl \<and> from_secs (unat (tc_connect_secs (st_timeouts st))) < dl - ae_start (env n)")
    case False
    then show ?thesis using Cons.prems by (auto simp: Let_def intro!: exI [of _ "[]"])
  next
    case True
    show ?thesis
    proof (cases o1)
      case OutContinue
      then have "attempt_loop dp st env ctx dl ns rb1 rt1 s1 = (s', rt', out)" using Cons.prems True r by (simp add: Let_def)
      from Cons.IH [OF this] obtain l2 where "sent s' = sent s1 @ l2" "length l2 \<le> sends_left rb1 (length ns)"
          "\<forall>x\<in>set l2. authentic dp ctx (rb_headers rb1) x" by blast
      then show ?thesis using l1 by (intro exI [of _ "l1 @ l2"]) auto
    qed (use Cons.prems True r l1 in \<open>auto simp: Let_def intro!: exI [of _ l1]\<close>)
  qed
qed

lemma reject_sent [simp]: "sent (fst (reject_before_routing dp st ip ident s)) = sent s"
  by (auto simp: reject_before_routing_def Let_def split: prod.split)

lemma negotiate_sent [simp]: "sent (fst (negotiate_cache dp st now req ident s)) = sent s"
  by (auto simp: negotiate_cache_def try_serve_from_cache_def Let_def split: prod.split option.split)

lemma route_sent [simp]: "sent (fst (route_and_admit st path s)) = sent s"
  by (auto simp: route_and_admit_def record_completion_def Let_def split: sum.split prod.split)

lemma hget_insert_other [simp]: "n \<noteq> m \<Longrightarrow> hget (hinsert m v h) n = hget h n"
  by (simp add: hget_def)

lemma decompress_keeps:
  assumes "decompress_request collect decoder_new task_ok req mb th = Inr req'"
  shows "retries_permitted (hr_method req') (hr_headers req') = retries_permitted (hr_method req) (hr_headers req)"
  using assms
  by (auto simp: decompress_request_def retries_permitted_def HEADER_IDEMPOTENCY_KEY_def
      split: sum.splits collect_error.splits if_splits)

text \<open>The headers of the replay body: the request's, unless the body was decompressed.\<close>

lemma prepared_ready:
  assumes "prepare_replay_body collect decoder_new task_ok pc rc z req = (PreparedReady rb n, c)"
  shows "n = (if retries_permitted (hr_method req) (hr_headers req) then rtc_max_retries rc + 1 else 1)"
proof -
  let ?d = "if z then decompress_request collect decoder_new task_ok req (pxc_max_request_body_bytes pc) (pxc_inline_compress_threshold pc) else Inr req"
  obtain req' where d: "?d = Inr req'"
    using assms by (cases ?d) (auto simp: prepare_replay_body_def)
  have k: "retries_permitted (hr_method req') (hr_headers req') = retries_permitted (hr_method req) (hr_headers req)"
    using d decompress_keeps [of collect decoder_new task_ok req "pxc_max_request_body_bytes pc" "pxc_inline_compress_threshold pc" req']
    by (cases z) auto
  have "n = (if retries_permitted (hr_method req') (hr_headers req') then rtc_max_retries rc + 1 else 1)"
    using assms unfolding prepare_replay_body_def d by (auto simp: Let_def split: sum.splits if_splits)
  then show ?thesis unfolding k .
qed

lemma unat_inc_le: "unat (x + 1 :: u32) \<le> unat x + 1"
  by (simp add: unat_word_ariths)

lemma sends_left_le: "sends_left rb n \<le> n"
  by (simp add: sends_left_def)

lemma serve_routed_sent:
  assumes "serve_routed dp st env start task_ok req ip ident cn ri s = (s', r, g)"
  shows "\<exists>l h ctx. sent s' = sent s @ l \<and> cx_client_ip ctx = ip \<and> cx_client_identity ctx = ident \<and> cx_pool ctx = ri_pool ri
    \<and> length l \<le> (if retries_permitted (hr_method req) (hr_headers req) then unat (rtc_max_retries (st_retry st)) + 1 else 1)
    \<and> (\<forall>x\<in>set l. authentic dp ctx h x)"
proof -
  obtain pb c where pb: "prepare_replay_body (dp_collect dp) (dp_decoder_new dp) task_ok (st_proxy st) (st_retry st) (cn_request_is_zstd cn) req = (pb, c)"
    by fastforce
  define ctx where "ctx n = \<lparr>cx_pool = ri_pool ri, cx_client_ip = ip, cx_client_identity = ident, cx_backend_id = ri_backend_id ri,
      cx_cache_identity = cn_cache_identity cn, cx_max_attempts = n, cx_is_cacheable_method = cn_is_cacheable_method cn,
      cx_request_has_cookie = cn_request_has_cookie cn, cx_accepts_zstd = cn_accepts_zstd cn\<rparr>" for n
  have cx: "cx_client_ip (ctx n) = ip" "cx_client_identity (ctx n) = ident" "cx_pool (ctx n) = ri_pool ri" for n
    by (simp_all add: ctx_def)
  show ?thesis
  proof (cases pb)
    case (PreparedRespond resp)
    then have "sent s' = sent s" using assms pb by (auto simp: serve_routed_def record_completion_def Let_def split: option.splits)
    then show ?thesis using cx by (intro exI [of _ "[]"] exI [of _ "[]"] exI [of _ "ctx 0"]) simp
  next
    case (PreparedReady rb n)
    obtain s1 rt out where l: "attempt_loop dp st env (ctx n) (start + ri_request_timeout ri) [0..<unat n] rb
        \<lparr>rt_failed_backends = [], rt_last_response = None\<rparr> s = (s1, rt, out)" by (metis prod_cases3)
    obtain ls where ls: "sent s1 = sent s @ ls" "length ls \<le> sends_left rb (unat n)" "\<forall>x\<in>set ls. authentic dp (ctx n) (rb_headers rb) x"
      using attempt_loop_sent [OF l] by auto
    have "unat n \<le> (if retries_permitted (hr_method req) (hr_headers req) then unat (rtc_max_retries (st_retry st)) + 1 else 1)"
      using prepared_ready [OF pb [unfolded PreparedReady]] unat_inc_le by auto
    then have b: "length ls \<le> (if retries_permitted (hr_method req) (hr_headers req) then unat (rtc_max_retries (st_retry st)) + 1 else 1)"
      using ls(2) sends_left_le [of rb "unat n"] by linarith
    have "sent s' = sent s1"
      using assms pb PreparedReady l [unfolded ctx_def]
      by (auto simp: serve_routed_def record_completion_def Let_def split: option.splits)
    then show ?thesis using ls b cx by (intro exI [of _ ls] exI [of _ "rb_headers rb"] exI [of _ "ctx n"]) simp
  qed
qed

lemma reject_keeps [simp]:
  "ps_router (fst (reject_before_routing dp st ip ident s)) = ps_router s" "ps_pools (fst (reject_before_routing dp st ip ident s)) = ps_pools s"
  by (simp_all add: reject_before_routing_def log_event_def Let_def split: prod.split)

lemma negotiate_keeps [simp]:
  "ps_router (fst (negotiate_cache dp st now req ident s)) = ps_router s" "ps_pools (fst (negotiate_cache dp st now req ident s)) = ps_pools s"
  by (simp_all add: negotiate_cache_def try_serve_from_cache_def log_event_def Let_def split: prod.split option.split)

text \<open>The ways through the handler: refused on the way, or served.\<close>

lemma proxy_handler_cases:
  assumes "proxy_handler dp st env start task_ok (Some (ip, ident)) req s = (s', r, g)"
  obtains (shutdown) "ps_shutdown s" "s' = s" "g = None"
  | (refused) s1 where "\<not> ps_shutdown s" "reject_before_routing dp st ip ident (s\<lparr>ps_active := ps_active s + 1\<rparr>) = (s1, Some r)" "s' = drop_active s1" "g = None"
  | (hit) s1 s2 where "\<not> ps_shutdown s" "reject_before_routing dp st ip ident (s\<lparr>ps_active := ps_active s + 1\<rparr>) = (s1, None)"
      "negotiate_cache dp st start req ident s1 = (s2, Inl r)" "s' = drop_active s2" "g = None"
  | (unrouted) s1 s2 s3 cn where "\<not> ps_shutdown s" "reject_before_routing dp st ip ident (s\<lparr>ps_active := ps_active s + 1\<rparr>) = (s1, None)"
      "negotiate_cache dp st start req ident s1 = (s2, Inr cn)" "route_and_admit st (hr_path req) s2 = (s3, Inl r)" "s' = drop_active s3" "g = None"
  | (served) s1 s2 s3 cn ri where "\<not> ps_shutdown s" "reject_before_routing dp st ip ident (s\<lparr>ps_active := ps_active s + 1\<rparr>) = (s1, None)"
      "negotiate_cache dp st start req ident s1 = (s2, Inr cn)" "route_and_admit st (hr_path req) s2 = (s3, Inr ri)"
      "serve_routed dp st env start task_ok req ip ident cn ri s3 = (s', r, g)"
proof (cases "ps_shutdown s")
  case True
  then have "s' = s" "g = None" using assms by (simp_all add: proxy_handler_def admit_client_def)
  with True show thesis by (rule shutdown)
next
  case False
  obtain s1 a where a: "reject_before_routing dp st ip ident (s\<lparr>ps_active := ps_active s + 1\<rparr>) = (s1, a)" by fastforce
  note eval = assms [unfolded proxy_handler_def admit_client_def Let_def]
  show thesis
  proof (cases a)
    case (Some x)
    have "r = x" "s' = drop_active s1" "g = None" using eval False a Some by simp_all
    then show thesis using refused [OF False] a Some by blast
  next
    case None
    obtain s2 n where n: "negotiate_cache dp st start req ident s1 = (s2, n)" by fastforce
    note a' = a [unfolded None]
    show thesis
    proof (cases n)
      case (Inl x)
      have "r = x" "s' = drop_active s2" "g = None" using eval False a' n Inl by simp_all
      then show thesis using hit [OF False a'] n Inl by blast
    next
      case (Inr cn)
      obtain s3 ro where ro: "route_and_admit st (hr_path req) s2 = (s3, ro)" by fastforce
      note n' = n [unfolded Inr]
      show thesis
      proof (cases ro)
        case (Inl x)
        have "r = x" "s' = drop_active s3" "g = None" using eval False a' n' ro Inl by simp_all
        then show thesis using unrouted [OF False a' n'] ro Inl by blast
      next
        case ri: (Inr ri)
        have "serve_routed dp st env start task_ok req ip ident cn ri s3 = (s', r, g)" using eval False a' n' ro ri by simp
        then show thesis by (rule served [OF False a' n' ro [unfolded ri]])
      qed
    qed
  qed
qed

lemma route_resolved:
  assumes "route_and_admit st path s = (s', Inr ri)"
  shows "\<exists>m. match_route (ps_router s) path = Some m \<and> ps_pools s (rm_backend_id m) = Some (ri_pool ri) \<and> ri_backend_id ri = rm_backend_id m"
  using assms by (auto simp: route_and_admit_def resolve_backend_pool_def Let_def split: sum.splits option.splits prod.splits)

lemma prologue_pairs:
  "reject_before_routing dp st ip ident s = (s1, a) \<Longrightarrow> sent s1 = sent s \<and> ps_router s1 = ps_router s \<and> ps_pools s1 = ps_pools s"
  "negotiate_cache dp st now req ident s = (s1, n) \<Longrightarrow> sent s1 = sent s \<and> ps_router s1 = ps_router s \<and> ps_pools s1 = ps_pools s"
  "route_and_admit st path s = (s1, ro) \<Longrightarrow> sent s1 = sent s"
  by (metis fst_conv reject_sent reject_keeps) (metis fst_conv negotiate_sent negotiate_keeps, metis fst_conv route_sent)

lemma proxy_handler_sent:
  assumes "proxy_handler dp st env start task_ok (Some (ip, ident)) req s = (s', r, g)"
  shows "sent s' = sent s \<or> (\<exists>l h ctx m. sent s' = sent s @ l \<and> cx_client_ip ctx = ip \<and> cx_client_identity ctx = ident
    \<and> length l \<le> (if retries_permitted (hr_method req) (hr_headers req) then unat (rtc_max_retries (st_retry st)) + 1 else 1)
    \<and> (\<forall>x\<in>set l. authentic dp ctx h x)
    \<and> match_route (ps_router s) (hr_path req) = Some m \<and> ps_pools s (rm_backend_id m) = Some (cx_pool ctx))"
  using assms
proof (cases rule: proxy_handler_cases)
  case shutdown
  then show ?thesis by simp
next
  case (refused s1)
  then show ?thesis using prologue_pairs(1) [OF refused(2)] by simp
next
  case (hit s1 s2)
  then show ?thesis using prologue_pairs(1) [OF hit(2)] prologue_pairs(2) [OF hit(3)] by simp
next
  case (unrouted s1 s2 s3 cn)
  then show ?thesis using prologue_pairs(1) [OF unrouted(2)] prologue_pairs(2) [OF unrouted(3)] prologue_pairs(3) [OF unrouted(4)] by simp
next
  case (served s1 s2 s3 cn ri)
  have st: "sent s3 = sent s" "ps_router s2 = ps_router s" "ps_pools s2 = ps_pools s"
    using prologue_pairs(1) [OF served(2)] prologue_pairs(2) [OF served(3)] prologue_pairs(3) [OF served(4)] by simp_all
  obtain m where m: "match_route (ps_router s) (hr_path req) = Some m" "ps_pools s (rm_backend_id m) = Some (ri_pool ri)"
    using route_resolved [OF served(4)] unfolding st by blast
  obtain l h ctx where l: "sent s' = sent s @ l" "cx_client_ip ctx = ip" "cx_client_identity ctx = ident" "cx_pool ctx = ri_pool ri"
      "length l \<le> (if retries_permitted (hr_method req) (hr_headers req) then unat (rtc_max_retries (st_retry st)) + 1 else 1)"
      "\<forall>x\<in>set l. authentic dp ctx h x"
    using serve_routed_sent [OF served(5)] unfolding st by blast
  have "ps_pools s (rm_backend_id m) = Some (cx_pool ctx)" using m(2) l(4) by simp
  with l(1,2,3,5,6) m(1) show ?thesis by (intro disjI2 exI conjI)
qed

subsection \<open>What is held\<close>

text \<open>
  The counters a request moves: the active-request gauge, each pool's queue with its gauge, and each backend's
  connection permits with their gauge. \<open>mx\<close> gives the configured limit of a backend id.
\<close>

type_synonym held = "int \<times> (string \<Rightarrow> int \<times> request_queue) \<times> (string \<Rightarrow> int \<times> nat)"

definition held :: "(string \<Rightarrow> u32) \<Rightarrow> u32 \<Rightarrow> ('b, 'r, 'cl, 'hl) proxy_state \<Rightarrow> held" where
  "held mx depth s = (ps_active s, \<lambda>k. (ps_queue_gauge s k, queue_of depth k (ps_queues s)),
     \<lambda>k. (ps_conn_gauge s k, case cp_conn_limits (ps_conns s) k of Some n \<Rightarrow> n | None \<Rightarrow> unat (mx k)))"

text \<open>The backend's limit is the one \<open>mx\<close> gives its id.\<close>

definition limited :: "(string \<Rightarrow> u32) \<Rightarrow> backend_config \<Rightarrow> bool" where
  "limited mx b \<longleftrightarrow> bc_max_connections b = mx (bc_id b)"

definition give_conn :: "string \<Rightarrow> held \<Rightarrow> held" where
  "give_conn k h = (case h of (a, q, c) \<Rightarrow> (a, q, c(k := (fst (c k) - 1, snd (c k) + 1))))"

definition give_queue :: "string \<Rightarrow> held \<Rightarrow> held" where
  "give_queue k h = (case h of (a, q, c) \<Rightarrow> (a, q(k := (fst (q k) - 1, release_permit (snd (q k)))), c))"

definition give_active :: "held \<Rightarrow> held" where
  "give_active h = (case h of (a, q, c) \<Rightarrow> (a - 1, q, c))"

lemma held_log [simp]: "held mx d (log_event e s) = held mx d s"
  by (simp add: held_def log_event_def)

lemma held_breakers [simp]:
  "held mx d (breaker_failure now k s) = held mx d s" "held mx d (s\<lparr>ps_breakers := br\<rparr>) = held mx d s"
  "held mx d (drop_half_open g s) = held mx d s" "held mx d (s\<lparr>ps_cache := c\<rparr>) = held mx d s"
  "held mx d (s\<lparr>ps_limiter := l\<rparr>) = held mx d s" "held mx d (record_completion n k s) = held mx d s"
  by (simp_all add: held_def breaker_failure_def drop_half_open_def record_completion_def log_event_def split: option.split)

lemma held_drop_conn [simp]:
  assumes "limited mx b"
  shows "held mx d (drop_conn b s) = give_conn (bc_id b) (held mx d s)"
proof -
  have "conn_permits (ps_conns s) b = (case cp_conn_limits (ps_conns s) (bc_id b) of Some n \<Rightarrow> n | None \<Rightarrow> unat (mx (bc_id b)))"
    using assms by (simp add: limited_def conn_permits_def split: option.split)
  then show ?thesis by (auto simp: held_def give_conn_def drop_conn_def release_conn_permit_def fun_eq_iff)
qed

lemma held_drop_selected [simp]:
  "limited mx (se_backend x) \<Longrightarrow>
   held mx d (drop_selected x s) = give_conn (bc_id (se_backend x)) (held mx d s)"
  by (simp add: drop_selected_def)

lemma held_drop_queue [simp]: "held mx d (drop_queue d k s) = give_queue k (held mx d s)"
  by (auto simp: held_def give_queue_def drop_queue_def queue_of_def fun_eq_iff split: option.split)

lemma held_drop_active [simp]: "held mx d (drop_active s) = give_active (held mx d s)"
  by (simp add: held_def give_active_def drop_active_def)

lemma held_acquire_conn:
  assumes "acquire_conn b s = (s', ok)" "limited mx b"
  shows "(if ok then give_conn (bc_id b) (held mx d s') else held mx d s') = held mx d s"
  using assms by (auto simp: limited_def acquire_conn_def try_acquire_conn_permit_def conn_permits_def held_def give_conn_def log_event_def Let_def fun_eq_iff
      split: prod.splits sum.splits if_splits option.splits)

text \<open>Obtaining a sender leaves the permits alone.\<close>

lemma pool_limits [simp]:
  "cp_conn_limits (fst (reuse_pooled_h2 v addr host p)) = cp_conn_limits p"
  "cp_conn_limits (pool_h2 v c p) = cp_conn_limits p"
  "cp_conn_limits (fst (connect_tcp_h2 v d b p)) = cp_conn_limits p"
  "cp_conn_limits (fst (take_quic v addr host p)) = cp_conn_limits p"
  "cp_conn_limits (put_quic v c addr host p) = cp_conn_limits p"
  "cp_conn_limits (fst (get_or_init_quic_endpoint qd p)) = cp_conn_limits p"
  "cp_conn_limits (fst (registry_stream cl op k r p)) = cp_conn_limits p"
  by (simp_all add: reuse_pooled_h2_def pool_h2_def connect_tcp_h2_def take_quic_def put_quic_def get_or_init_quic_endpoint_def
      registry_stream_def Let_def split: option.split prod.split sum.split)

lemma pool_bind_limits:
  assumes "cp_conn_limits (fst m) = l" "\<And>x p. cp_conn_limits p = l \<Longrightarrow> cp_conn_limits (fst (k x p)) = l"
  shows "cp_conn_limits (fst (pool_bind m k)) = l"
  using assms by (auto simp: pool_bind_def split: prod.split sum.split)

lemma take_or_connect_limits [simp]: "cp_conn_limits (fst (take_or_connect v d b p)) = cp_conn_limits p"
proof -
  have c: "cp_conn_limits (fst (connect_quic d b q)) = cp_conn_limits q" for q
    unfolding connect_quic_def by (rule pool_bind_limits) simp_all
  obtain q o1 where q: "take_quic v (bc_address b) (bc_host b) p = (q, o1)" by fastforce
  then have "cp_conn_limits q = cp_conn_limits p" using pool_limits(4) [of v "bc_address b" "bc_host b" p] by simp
  then show ?thesis using q c by (simp add: take_or_connect_def split: option.split)
qed

lemma acquire_limits [simp]: "cp_conn_limits (fst (acquire env b p)) = cp_conn_limits p"
proof -
  have t: "cp_conn_limits (fst (acquire_tcp v d b p)) = cp_conn_limits p" for v d
  proof -
    obtain q o1 where q: "reuse_pooled_h2 v (bc_address b) (bc_host b) p = (q, o1)" by fastforce
    then have "cp_conn_limits q = cp_conn_limits p" using pool_limits(1) [of v "bc_address b" "bc_host b" p] by simp
    then show ?thesis using q by (simp add: acquire_tcp_def split: option.split)
  qed
  have u: "cp_conn_limits (fst (acquire_quic v d b p)) = cp_conn_limits p" for v d
    unfolding acquire_quic_def by (rule pool_bind_limits, simp, rule pool_bind_limits) simp_all
  have w: "cp_conn_limits (fst (acquire_tunnel tv r b p)) = cp_conn_limits p" for tv r
    unfolding acquire_tunnel_def by (rule pool_bind_limits) simp_all
  show ?thesis using t u w by (simp add: acquire_def acquire_direct_def split: option.split transport_kind.split)
qed

lemma forward_request_held:
  assumes "forward_request dp st env req b ident ip s = (s', res)"
  shows "held mx d s' = held mx d s"
proof -
  obtain p r where a: "acquire (ae_pool env) b (ps_conns s) = (p, r)" by fastforce
  then have "cp_conn_limits p = cp_conn_limits (ps_conns s)" using acquire_limits [of "ae_pool env" b "ps_conns s"] by simp
  then have "held mx d (s\<lparr>ps_conns := p\<rparr>) = held mx d s" by (simp add: held_def)
  then show ?thesis using assms a by (auto simp: forward_request_def Let_def split: sum.splits)
qed

lemma select_and_gate_held:
  assumes "select_and_gate dp env ctx failed s = (s', failed', g)" "\<forall>b \<in> set (bp_backends (cx_pool ctx)). limited mx b"
  shows "(case g of Inl _ \<Rightarrow> held mx d s' | Inr sel \<Rightarrow> give_conn (bc_id (se_backend sel)) (held mx d s')) = held mx d s"
proof -
  define sb where "sb = (case select_backend_excluding dp (ae_start env) (cx_pool ctx) (cx_client_ip ctx) failed s of
            Inr b \<Rightarrow> Inr b
          | Inl _ \<Rightarrow> select_backend_excluding dp (ae_start env) (cx_pool ctx) (cx_client_ip ctx) [] s)"
  show ?thesis
  proof (cases sb)
    case (Inl e)
    then show ?thesis using assms(1) by (auto simp: select_and_gate_def Let_def sb_def [symmetric])
  next
    case (Inr b)
    then have "b \<in> set (bp_backends (cx_pool ctx))"
      using select_backend_member by (fastforce simp: sb_def split: sum.splits)
    then have m: "limited mx b" using assms(2) by blast
    obtain s1 ok where a: "acquire_conn b (log_event (Selection (bc_id b)) s) = (s1, ok)" by fastforce
    have h: "(if ok then give_conn (bc_id b) (held mx d s1) else held mx d s1) = held mx d s"
      using held_acquire_conn [OF a m] by simp
    show ?thesis using assms(1) Inr a h m
      by (cases ok) (auto simp: select_and_gate_def Let_def sb_def [symmetric] split: prod.splits circuit_state.splits)
  qed
qed

lemma handle_success_held:
  assumes "handle_success dp st env ctx sel r rb s = (s', out)" "limited mx (se_backend sel)"
  shows "(case out of OutStream _ sel' \<Rightarrow> sel' = sel \<and> held mx d s' = held mx d s
    | _ \<Rightarrow> held mx d s' = give_conn (bc_id (se_backend sel)) (held mx d s))"
  using assms by (auto simp: handle_success_def store_and_respond_def Let_def split: sum.splits prod.splits if_splits)

lemma handle_forward_error_held:
  "handle_forward_error st env ctx n b e failed s = (s', f, out) \<Longrightarrow> held mx d s' = held mx d s \<and> (\<forall>r sel. out \<noteq> OutStream r sel)"
  by (auto simp: handle_forward_error_def park_for_wake_def Let_def split: if_splits)

lemma handle_response_held:
  assumes "handle_response dp st env ctx n sel res rb rt s = (s', rt', out)"
    and m: "limited mx (se_backend sel)"
  shows "(case out of OutStream _ sel' \<Rightarrow> sel' = sel \<and> held mx d s' = held mx d s
    | _ \<Rightarrow> held mx d s' = give_conn (bc_id (se_backend sel)) (held mx d s))"
proof (cases res)
  case (Inl e)
  obtain s1 f o1 where h: "handle_forward_error st env ctx n (se_backend sel) e (rt_failed_backends rt) s = (s1, f, o1)" by (metis prod_cases3)
  then have "s' = drop_selected sel s1" "out = o1" using assms(1) Inl by (simp_all add: handle_response_def)
  then show ?thesis using handle_forward_error_held [OF h, of mx d] m by (cases o1) auto
next
  case (Inr r)
  let ?s = "log_event (RetryAttempt (bc_id (se_backend sel)) (n + 1) ''retryable_status'') (breaker_failure (ae_finish env) (bc_id (se_backend sel)) s)"
  consider (again) "s' = drop_selected sel ?s" "out = OutContinue" | (final) "handle_success dp st env ctx sel r rb ?s = (s', out)"
    | (ok) "handle_success dp st env ctx sel r rb s = (s', out)"
    using assms(1) Inr by (auto simp: handle_response_def Let_def split: if_splits prod.splits)
  then show ?thesis
  proof cases
    case again
    then show ?thesis using m by simp
  next
    case final
    then show ?thesis using handle_success_held [OF final m, of d, unfolded held_log held_breakers] by simp
  next
    case ok
    then show ?thesis using handle_success_held [OF ok m, of d] by simp
  qed
qed

lemma run_attempt_held:
  assumes "run_attempt dp st env ctx n rb rt s = (s', rb', rt', out)" "\<forall>b \<in> set (bp_backends (cx_pool ctx)). limited mx b"
  shows "(case out of OutStream _ sel \<Rightarrow> limited mx (se_backend sel)
        \<and> give_conn (bc_id (se_backend sel)) (held mx d s') = held mx d s
    | _ \<Rightarrow> held mx d s' = held mx d s)"
proof -
  obtain s1 failed g where g: "select_and_gate dp env ctx (rt_failed_backends rt) s = (s1, failed, g)" by (metis prod_cases3)
  note h1 = select_and_gate_held [OF g assms(2), of d]
  show ?thesis
  proof (cases g)
    case (Inl sk)
    then show ?thesis using assms(1) g h1 by (cases sk) (auto simp: run_attempt_def)
  next
    case (Inr sel)
    have m: "limited mx (se_backend sel)"
      using select_and_gate_member [OF g [unfolded Inr]] assms(2) by blast
    obtain rb1 q where q: "build_retry_req rb = (rb1, q)" by fastforce
    show ?thesis
    proof (cases q)
      case None
      then show ?thesis using assms(1) g h1 Inr q m by (auto simp: run_attempt_def Let_def)
    next
      case (Some req)
      obtain s2 res where f: "forward_request dp st env req (se_backend sel) (cx_client_identity ctx) (cx_client_ip ctx) s1 = (s2, res)"
        by fastforce
      have r: "handle_response dp st env ctx n sel res rb1 (rt\<lparr>rt_failed_backends := failed\<rparr>) s2 = (s', rt', out)"
        using assms(1) g Inr q Some f by (auto simp: run_attempt_def Let_def split: prod.splits)
      show ?thesis using handle_response_held [OF r m, of d] forward_request_held [OF f, of mx d] h1 Inr m
        by (cases out) auto
    qed
  qed
qed

lemma attempt_loop_held:
  "attempt_loop dp st env ctx dl ns rb rt s = (s', rt', out) \<Longrightarrow> \<forall>b \<in> set (bp_backends (cx_pool ctx)). limited mx b \<Longrightarrow>
   (case out of Some (_, Some sel) \<Rightarrow> limited mx (se_backend sel)
        \<and> give_conn (bc_id (se_backend sel)) (held mx d s') = held mx d s
    | _ \<Rightarrow> held mx d s' = held mx d s)"
proof (induction ns arbitrary: rb rt s)
  case Nil
  then show ?case by auto
next
  case (Cons n ns)
  obtain s1 rb1 rt1 o1 where r: "run_attempt dp st (env n) ctx n rb rt s = (s1, rb1, rt1, o1)" by (metis prod_cases4)
  note h = run_attempt_held [OF r Cons.prems(2), of d]
  show ?case
  proof (cases "ae_start (env n) \<le> dl \<and> from_secs (unat (tc_connect_secs (st_timeouts st))) < dl - ae_start (env n)")
    case False
    then show ?thesis using Cons.prems by (auto simp: Let_def)
  next
    case True
    show ?thesis
    proof (cases o1)
      case OutContinue
      then have "attempt_loop dp st env ctx dl ns rb1 rt1 s1 = (s', rt', out)" using Cons.prems True r by (simp add: Let_def)
      from Cons.IH [OF this Cons.prems(2)] show ?thesis using h OutContinue by (auto split: option.splits)
    qed (use Cons.prems True r h in \<open>auto simp: Let_def\<close>)
  qed
qed

text \<open>Taking the queue slot.\<close>

lemma route_and_admit_held:
  assumes "route_and_admit st path s = (s', ro)"
  shows "(case ro of Inl _ \<Rightarrow> held mx (st_queue_depth st) s' | Inr ri \<Rightarrow> give_queue (ri_backend_id ri) (held mx (st_queue_depth st) s'))
    = held mx (st_queue_depth st) s"
  using assms
  by (auto simp: route_and_admit_def try_acquire_owned_def release_permit_def held_def give_queue_def queue_of_def record_completion_def log_event_def
      Let_def fun_eq_iff split: sum.splits prod.splits if_splits option.splits)

lemma serve_routed_held:
  assumes "serve_routed dp st env start task_ok req ip ident cn ri s = (s', r, g)"
    and m: "\<forall>b \<in> set (bp_backends (ri_pool ri)). limited mx b"
  shows "held mx (st_queue_depth st) (case g of None \<Rightarrow> s' | Some g \<Rightarrow> drop_response_guards st g s')
    = give_queue (ri_backend_id ri) (give_active (held mx (st_queue_depth st) s))"
proof -
  let ?d = "st_queue_depth st"
  obtain pb c where pb: "prepare_replay_body (dp_collect dp) (dp_decoder_new dp) task_ok (st_proxy st) (st_retry st) (cn_request_is_zstd cn) req = (pb, c)"
    by fastforce
  show ?thesis
  proof (cases pb)
    case (PreparedRespond resp)
    then show ?thesis using assms(1) pb by (auto simp: serve_routed_def Let_def split: option.splits)
  next
    case (PreparedReady rb n)
    define ctx where "ctx = \<lparr>cx_pool = ri_pool ri, cx_client_ip = ip, cx_client_identity = ident, cx_backend_id = ri_backend_id ri,
      cx_cache_identity = cn_cache_identity cn, cx_max_attempts = n, cx_is_cacheable_method = cn_is_cacheable_method cn,
      cx_request_has_cookie = cn_request_has_cookie cn, cx_accepts_zstd = cn_accepts_zstd cn\<rparr>"
    obtain s1 rt out where l: "attempt_loop dp st env ctx (start + ri_request_timeout ri) [0..<unat n] rb
        \<lparr>rt_failed_backends = [], rt_last_response = None\<rparr> s = (s1, rt, out)" by (metis prod_cases3)
    have "\<forall>b \<in> set (bp_backends (cx_pool ctx)). limited mx b" using m by (simp add: ctx_def)
    note h = attempt_loop_held [OF l this, of ?d]
    have swap: "give_conn k (give_queue k' (give_active x)) = give_queue k' (give_active (give_conn k x))" for k k' x
      by (auto simp: give_conn_def give_queue_def give_active_def split: prod.split)
    show ?thesis
    proof (cases out)
      case None
      then show ?thesis using assms(1) pb PreparedReady l [unfolded ctx_def] h
        by (auto simp: serve_routed_def Let_def drop_response_guards_def split: option.splits)
    next
      case (Some x)
      obtain y sel where x: "x = (y, sel)" by fastforce
      show ?thesis
      proof (cases sel)
        case None
        then show ?thesis using assms(1) pb PreparedReady l [unfolded ctx_def] h Some x by (auto simp: serve_routed_def Let_def)
      next
        case sl: (Some w)
        then have "s' = s1" "g = Some \<lparr>rg_queue = ri_backend_id ri, rg_selected = Some w\<rparr>"
          using assms(1) pb PreparedReady l [unfolded ctx_def] Some x by (auto simp: serve_routed_def Let_def)
        then show ?thesis using h Some x sl by (simp add: drop_response_guards_def swap)
      qed
    qed
  qed
qed

lemma reject_held: "reject_before_routing dp st ip ident s = (s1, a) \<Longrightarrow> held mx d s1 = held mx d s"
  by (auto simp: reject_before_routing_def Let_def split: prod.splits if_splits)

lemma negotiate_held: "negotiate_cache dp st now req ident s = (s1, n) \<Longrightarrow> held mx d s1 = held mx d s"
  by (auto simp: negotiate_cache_def try_serve_from_cache_def Let_def split: prod.splits if_splits option.splits)

lemma give_active_inc: "give_active (held mx d (s\<lparr>ps_active := ps_active s + 1\<rparr>)) = held mx d s"
  by (simp add: give_active_def held_def)

lemma give_swap: "give_queue k (give_active h) = give_active (give_queue k h)"
  by (auto simp: give_queue_def give_active_def split: prod.split)

subsection \<open>The headers that leave\<close>

text \<open>Documented behaviour of the W3C trace-context propagator: it writes only its own two fields.\<close>

definition inject_doc :: "(header_map \<Rightarrow> header_map) \<Rightarrow> bool" where
  "inject_doc inject \<longleftrightarrow> (\<forall>h n. n \<notin> {''traceparent'', ''tracestate''} \<longrightarrow> hget_all (inject h) n = hget_all h n)"

lemmas header_names = HEADER_CLIENT_ID_def HEADER_CLIENT_SPKI_def HEADER_X_FORWARDED_FOR_def HEADER_X_REAL_IP_def HOP_BY_HOP_HEADERS_def

lemma identity_fields:
  assumes "apply_identity_headers ident h = (h', Inr ())"
  shows "hget_all h' n = (if n = HEADER_CLIENT_ID then (case ident of Some p \<Rightarrow> [common_name p] | None \<Rightarrow> [])
    else if n = HEADER_CLIENT_SPKI then (case ident of Some p \<Rightarrow> [spki_hex p] | None \<Rightarrow> []) else hget_all h n)"
  using assms by (auto simp: apply_identity_headers_def header_value_from_str_def Let_def split: option.splits if_splits)

lemma forwarded_fields:
  assumes "apply_forwarded_headers ip h = (h', Inr ())"
  shows "hget_all h' n = (if n = HEADER_X_REAL_IP \<or> n = HEADER_X_FORWARDED_FOR then [show_ip ip]
    else if n \<in> {''x-forwarded-proto'', ''x-forwarded-host'', ''forwarded''} then [] else hget_all h n)"
  using assms by (auto simp: apply_forwarded_headers_def header_value_from_str_def Let_def split: option.splits if_splits)

text \<open>What a backend may rely on in the headers it receives.\<close>

definition trusted_headers :: "backend_config \<Rightarrow> ip_addr \<Rightarrow> peer_identity option \<Rightarrow> header_map \<Rightarrow> bool" where
  "trusted_headers b ip ident h \<longleftrightarrow>
     hget_all h HEADER_CLIENT_ID = (case ident of Some p \<Rightarrow> [common_name p] | None \<Rightarrow> [])
   \<and> hget_all h HEADER_CLIENT_SPKI = (case ident of Some p \<Rightarrow> [spki_hex p] | None \<Rightarrow> [])
   \<and> hget_all h HEADER_X_FORWARDED_FOR = [show_ip ip] \<and> hget_all h HEADER_X_REAL_IP = [show_ip ip]
   \<and> hget_all h ''x-forwarded-proto'' = [] \<and> hget_all h ''x-forwarded-host'' = [] \<and> hget_all h ''forwarded'' = []
   \<and> hget_all h ''host'' = [bc_host b]
   \<and> list_all (\<lambda>n. hget_all h n = []) HOP_BY_HOP_HEADERS"

lemma outbound_trusted:
  assumes "outbound_headers dp b ip ident h = Inr h'" and d: "inject_doc (dp_inject dp)"
  shows "trusted_headers b ip ident h'"
proof -
  obtain h1 h2 where h: "apply_forwarded_headers ip (hinsert ''host'' (bc_host b) (strip_hop_by_hop_headers (dp_header_name dp) h)) = (h1, Inr ())"
      "apply_identity_headers ident h1 = (h2, Inr ())" "h' = dp_inject dp h2"
    using assms(1) by (auto simp: outbound_headers_def header_value_from_str_def split: option.splits if_splits prod.splits sum.splits)
  have i: "hget_all h' n = hget_all h2 n" if "n \<noteq> ''traceparent''" "n \<noteq> ''tracestate''" for n
    using d that unfolding inject_doc_def h(3) by blast
  show ?thesis
    by (simp add: trusted_headers_def i identity_fields [OF h(2)] forwarded_fields [OF h(1)] hop_by_hop_stripped header_names
        split: option.split)
qed

subsection \<open>The guarantees\<close>

text \<open>
  Claim C3. A refused client reaches nothing: during shutdown, or when the address is denied, the rate limit is exceeded, a required
  identity is missing or the identity is revoked, the handler answers 503, 403 or 429 in that order of checks,
  holds no guard afterwards, and leaves the whole proxy state as it was except for the limiter and the log,
  in which no request is sent.
\<close>
theorem handler_refuses:
  assumes "ps_shutdown s \<or> isl (acl_check (dp_contains dp) (ps_acl s) ip) \<or> isl (snd (rate_limit_check (dp_check_key dp) ip (ps_limiter s)))
    \<or> ident = None \<and> \<not> allows_anonymous (st_client_auth st) \<or> (\<exists>i. ident = Some i \<and> is_revoked (ps_revocation s) i)"
  shows "case proxy_handler dp st env start task_ok (Some (ip, ident)) req s of (s', r, g) \<Rightarrow>
     g = None \<and> s'\<lparr>ps_limiter := ps_limiter s, ps_log := ps_log s\<rparr> = s \<and> sent s' = sent s
     \<and> re_status r = (if ps_shutdown s then 503 else if isl (acl_check (dp_contains dp) (ps_acl s) ip) then 403
          else if isl (snd (rate_limit_check (dp_check_key dp) ip (ps_limiter s))) then 429 else 403)
     \<and> (isl (acl_check (dp_contains dp) (ps_acl s) ip) \<longrightarrow> s' = s)"
  using assms
  by (cases "rate_limit_check (dp_check_key dp) ip (ps_limiter s)")
    (auto simp: proxy_handler_def admit_client_def reject_before_routing_def drop_active_def log_event_def error_response_def Let_def)

text \<open>
  Claim C4. Requests are sent within the retry budget: one incoming request reaches backends at most \<open>max_retries + 1\<close> times, and
  at most once when its method is not idempotent and it carries no idempotency key.
\<close>
theorem handler_send_budget:
  "\<exists>l. sent (fst (proxy_handler dp st env start task_ok (Some (ip, ident)) req s)) = sent s @ l
    \<and> length l \<le> (if retries_permitted (hr_method req) (hr_headers req) then unat (rtc_max_retries (st_retry st)) + 1 else 1)"
proof -
  obtain s' r g where h: "proxy_handler dp st env start task_ok (Some (ip, ident)) req s = (s', r, g)" by (metis prod_cases3)
  from proxy_handler_sent [OF h] show ?thesis
  proof
    assume "sent s' = sent s"
    then show ?thesis using h by (intro exI [of _ "[]"]) simp
  next
    assume "\<exists>l h ctx m. sent s' = sent s @ l \<and> cx_client_ip ctx = ip \<and> cx_client_identity ctx = ident
      \<and> length l \<le> (if retries_permitted (hr_method req) (hr_headers req) then unat (rtc_max_retries (st_retry st)) + 1 else 1)
      \<and> (\<forall>x\<in>set l. authentic dp ctx h x)
      \<and> match_route (ps_router s) (hr_path req) = Some m \<and> ps_pools s (rm_backend_id m) = Some (cx_pool ctx)"
    then show ?thesis unfolding h fst_conv by blast
  qed
qed

text \<open>
  Claim C1. Every request that leaves is authentic: it goes to a backend of the pool its path is routed to, and whatever the client sent,
  the identity fields are exactly the handshake-proven ones, the forwarding fields name the peer address alone, the
  host is the backend's, and no hop-by-hop field remains.
\<close>
theorem sent_requests_authentic:
  assumes "inject_doc (dp_inject dp)"
    and "proxy_handler dp st env start task_ok (Some (ip, ident)) req s = (s', r, g)"
    and "sent s' = sent s @ l" and "(b, q) \<in> set l"
  shows "trusted_headers b ip ident (hr_headers q)
    \<and> (\<exists>m pool. match_route (ps_router s) (hr_path req) = Some m \<and> ps_pools s (rm_backend_id m) = Some pool \<and> b \<in> set (bp_backends pool))"
proof -
  obtain l' h ctx m where l: "sent s' = sent s @ l'" "cx_client_ip ctx = ip" "cx_client_identity ctx = ident"
      "\<forall>x\<in>set l'. authentic dp ctx h x" "match_route (ps_router s) (hr_path req) = Some m" "ps_pools s (rm_backend_id m) = Some (cx_pool ctx)"
    using proxy_handler_sent [OF assms(2)] assms(3,4) by fastforce
  then have a: "authentic dp ctx h (b, q)" using assms(3,4) by simp
  then have "outbound_headers dp b ip ident h = Inr (hr_headers q)" using l(2,3) by (simp add: authentic_def)
  then show ?thesis using outbound_trusted assms(1) a l(5,6) by (fastforce simp: authentic_def)
qed

text \<open>
  Claim C2. Nothing leaks: when the handler has returned and the guards it handed to a streaming body are dropped, the active
  gauge, every queue with its gauge and every backend's connection permits with their gauge are what they were before the
  request, on every path through the handler.
\<close>
theorem handler_returns_resources:
  assumes "proxy_handler dp st env start task_ok (Some (ip, ident)) req s = (s', r, g)"
    and "\<And>k pool. ps_pools s k = Some pool \<Longrightarrow> \<forall>b \<in> set (bp_backends pool). limited mx b"
  shows "held mx (st_queue_depth st) (case g of None \<Rightarrow> s' | Some g \<Rightarrow> drop_response_guards st g s') = held mx (st_queue_depth st) s"
  using assms(1)
proof (cases rule: proxy_handler_cases)
  case shutdown
  then show ?thesis by simp
next
  case (refused s1)
  then show ?thesis using reject_held [OF refused(2), of mx "st_queue_depth st"] give_active_inc by simp
next
  case (hit s1 s2)
  then show ?thesis using reject_held [OF hit(2), of mx "st_queue_depth st"] negotiate_held [OF hit(3), of mx "st_queue_depth st"] give_active_inc by simp
next
  case (unrouted s1 s2 s3 cn)
  then show ?thesis using reject_held [OF unrouted(2), of mx "st_queue_depth st"] negotiate_held [OF unrouted(3), of mx "st_queue_depth st"]
      route_and_admit_held [OF unrouted(4), of mx] give_active_inc by simp
next
  case (served s1 s2 s3 cn ri)
  have "ps_pools s2 = ps_pools s" using prologue_pairs(1) [OF served(2)] prologue_pairs(2) [OF served(3)] by simp
  then have "\<forall>b \<in> set (bp_backends (ri_pool ri)). limited mx b"
    using route_resolved [OF served(4)] assms(2) by metis
  from serve_routed_held [OF served(5) this] show ?thesis
    using reject_held [OF served(2), of mx "st_queue_depth st"] negotiate_held [OF served(3), of mx "st_queue_depth st"]
      route_and_admit_held [OF served(4), of mx] give_active_inc by (simp add: give_swap)
qed

subsection \<open>A request on a small proxy\<close>

text \<open>One cleartext backend behind \<open>/api\<close>; a client with a proven identity sends a \<open>POST\<close> with forged headers.\<close>

definition demo_upstream :: backend_config where
  "demo_upstream = (sample_backend ''a'')\<lparr>bc_scheme := Http\<rparr>"

definition demo_deps :: "(unit, unit, nat \<times> (string \<times> cached_response) list, nat \<times> (string \<times> backend_health \<times> instant) list) deps" where
  "demo_deps = \<lparr>dp_contains = (\<lambda>_ _. False), dp_check_key = (\<lambda>_ l. (l, True)), dp_cache = alist_lru, dp_health = alist_lru,
     dp_ln = (\<lambda>_. Fin (- 1)), dp_collect = (\<lambda>_ _. Inr []), dp_collect_all = (\<lambda>_. Inr []), dp_decoder_new = (\<lambda>b. Inr (b, None)),
     dp_encoder_new = (\<lambda>_. Inr ()), dp_header_name = Some, dp_inject = id\<rparr>"

definition demo_static :: proxy_static where
  "demo_static = \<lparr>st_timeouts = default_timeout_config, st_proxy = default_proxy_config,
     st_compression = \<lparr>cpc_enabled = False, cpc_level = 3, cpc_min_bytes = 0\<rparr>, st_retry = default_retry_config,
     st_cache = default_cache_config, st_client_auth = Required, st_queue_depth = 2\<rparr>"

definition demo_proxy :: "(unit, unit, nat \<times> (string \<times> cached_response) list, nat \<times> (string \<times> backend_health \<times> instant) list) proxy_state" where
  "demo_proxy = \<lparr>ps_router = [\<lparr>rt_path_prefix = ''/api'', rt_backend_id = ''p'', rt_timeout_secs = None\<rparr>],
     ps_pools = [''p'' \<mapsto> \<lparr>bp_backends = [demo_upstream]\<rparr>], ps_acl = acl_new [] [], ps_revocation = revocation_empty, ps_shutdown = False,
     ps_health = health_new alist_lru, ps_limiter = (), ps_queues = Map.empty, ps_breakers = breakers_new default_circuit_breaker_config,
     ps_conns = pool_default, ps_cache = cache_new alist_lru default_cache_config, ps_active = 0,
     ps_queue_gauge = (\<lambda>_. 0), ps_conn_gauge = (\<lambda>_. 0), ps_log = []\<rparr>"

definition demo_env :: "nat \<Rightarrow> unit attempt_env" where
  "demo_env n = \<lparr>ae_start = 0, ae_gate = 0, ae_finish = 1,
     ae_pool = \<lparr>pe_view = \<lparr>cv_closed = (\<lambda>_. False), cv_ready = (\<lambda>_. True), cv_becomes_ready = (\<lambda>_. True)\<rparr>,
       pe_tunnel = \<lparr>tv_closed = (\<lambda>_. False), tv_open = (\<lambda>_. Inr ()), tv_http = Completed (Inr ())\<rparr>,
       pe_dial = \<lparr>dl_handle = 0, dl_connect = Completed (Inr ()), dl_server_name = Inr (), dl_tls = Completed (Inr ()), dl_http = Completed (Inr ())\<rparr>,
       pe_quic = \<lparr>qd_handle = 0, qd_crypto = Inr (), qd_bind = Inr (), qd_connect = Inr (), qd_handshake = Completed (Inr ()),
         qd_open = Completed (Inr ()), qd_stream_type = Inr (), qd_http = Completed (Inr ())\<rparr>\<rparr>,
     ae_send = Completed (Inr \<lparr>re_status = 200, re_headers = [], re_body = Raw ()\<rparr>), ae_woken = False\<rparr>"

definition demo_client :: peer_identity where
  "demo_client = \<lparr>common_name = ''alice'', spki_sha256 = [0xab]\<rparr>"

definition demo_request :: "unit request" where
  "demo_request = \<lparr>hr_method = ''POST'', hr_path = ''/api/x'', hr_path_and_query = None,
     hr_headers = [(''x-reduction-client-id'', ''root''), (''te'', ''trailers''), (''host'', ''evil'')], hr_body = Raw ()\<rparr>"

definition demo_run where
  "demo_run = proxy_handler demo_deps demo_static demo_env 0 True (Some (V4 0x0a000005, Some demo_client)) demo_request demo_proxy"

lemma demo_pressure: "f64_div (f64_of_nat 0) (f64_of_nat 256) = Fin 0"
  using f64_fin_nat [of 256] by (simp add: f64_of_nat_def)

lemma demo_selected:
  "ps_conns s = pool_default \<Longrightarrow> ps_health s = health_new alist_lru \<Longrightarrow>
   select_backend_excluding demo_deps 0 \<lparr>bp_backends = [demo_upstream]\<rparr> ip [] s = Inr demo_upstream"
  by (simp add: select_backend_excluding_def demo_deps_def select_best_of eligible_backend_def scored_weight_def weight_factor_def
      health_is_valid_def health_new_def alist_lru_def f64_clamp_def f64_sub_def f64_le_def demo_upstream_def sample_backend_def
      connection_pressure_def pool_default_def demo_pressure Let_def)

definition demo_headers_sent :: header_map where
  "demo_headers_sent = (case outbound_headers demo_deps demo_upstream (V4 0x0a000005) (Some demo_client) (hr_headers demo_request) of Inr h \<Rightarrow> h | _ \<Rightarrow> [])"

lemma demo_outbound:
  "outbound_headers demo_deps demo_upstream (V4 0x0a000005) (Some demo_client) (hr_headers demo_request) = Inr demo_headers_sent"
  unfolding demo_headers_sent_def by code_simp

abbreviation "demo_active \<equiv> demo_proxy\<lparr>ps_active := 1\<rparr>"

lemma demo_admitted:
  "reject_before_routing demo_deps demo_static ip (Some demo_client) demo_active = (demo_active, None)"
  by (simp add: reject_before_routing_def demo_deps_def demo_proxy_def demo_static_def acl_check_def acl_new_def acl_is_denied_def
      rate_limit_check_def is_revoked_def revocation_empty_def Let_def)

definition demo_negotiated :: cache_negotiation where
  "demo_negotiated = \<lparr>cn_is_cacheable_method = False, cn_accepts_zstd = False, cn_request_is_zstd = False, cn_request_has_cookie = False,
     cn_cache_identity = ''ab''\<rparr>"

lemma demo_negotiate: "negotiate_cache demo_deps demo_static 0 demo_request (Some demo_client) demo_active = (demo_active, Inr demo_negotiated)"
proof -
  have "spki_hex demo_client = ''ab''" by code_simp
  then show ?thesis
    by (simp add: negotiate_cache_def try_serve_from_cache_def demo_static_def default_cache_config_def demo_request_def hget_def hget_all_def
        hcontains_def demo_negotiated_def)
qed

definition demo_route :: route_info where
  "demo_route = \<lparr>ri_backend_id = ''p'', ri_pool = \<lparr>bp_backends = [demo_upstream]\<rparr>, ri_request_timeout = from_secs 30, ri_response_idle_timeout = from_secs 60\<rparr>"

abbreviation "demo_queued \<equiv> demo_active\<lparr>ps_queues := [''p'' \<mapsto> \<lparr>rq_available = Suc 0, rq_max_depth = 2\<rparr>], ps_queue_gauge := (\<lambda>_. 0)(''p'' := 1)\<rparr>"

lemma demo_routed: "route_and_admit demo_static (hr_path demo_request) demo_active = (demo_queued, Inr demo_route)"
  by (simp add: route_and_admit_def resolve_backend_pool_def demo_proxy_def demo_request_def route_applies_def starts_with_def
      try_acquire_owned_def queue_of_def queue_new_def demo_static_def default_timeout_config_def demo_route_def Let_def)

definition demo_ctx :: "unit request_ctx" where
  "demo_ctx = \<lparr>cx_pool = \<lparr>bp_backends = [demo_upstream]\<rparr>, cx_client_ip = V4 0x0a000005, cx_client_identity = Some demo_client, cx_backend_id = ''p'',
     cx_cache_identity = ''ab'', cx_max_attempts = 1, cx_is_cacheable_method = False, cx_request_has_cookie = False, cx_accepts_zstd = False\<rparr>"

definition demo_replay :: "unit replay_body" where
  "demo_replay = \<lparr>rb_body_bytes = None, rb_streaming_body = Some (Raw ()), rb_method = ''POST'', rb_path = ''/api/x'', rb_path_and_query = None,
     rb_headers = hr_headers demo_request\<rparr>"

lemma demo_prepared:
  "prepare_replay_body (dp_collect demo_deps) (dp_decoder_new demo_deps) True (st_proxy demo_static) (st_retry demo_static) False demo_request
   = (PreparedReady demo_replay 1, None)"
  by (simp add: prepare_replay_body_def demo_request_def demo_replay_def retries_permitted_def is_idempotent_method_def hget_def hget_all_def
      HEADER_IDEMPOTENCY_KEY_def Let_def)

definition demo_breakers :: circuit_breakers where
  "demo_breakers = fst (check 0 ''a'' (ps_breakers demo_proxy))"

abbreviation "demo_gated \<equiv> demo_queued\<lparr>ps_log := [Selection ''a''], ps_conns := fst (try_acquire_conn_permit demo_upstream pool_default),
   ps_conn_gauge := (\<lambda>_. 0)(''a'' := 1), ps_breakers := demo_breakers\<rparr>"

abbreviation "demo_sel \<equiv> \<lparr>se_backend = demo_upstream, se_half_open = None\<rparr>"

lemma demo_gate: "select_and_gate demo_deps (demo_env 0) demo_ctx [] demo_queued = (demo_gated, [], Inr demo_sel)"
proof -
  have "select_backend_excluding demo_deps 0 \<lparr>bp_backends = [demo_upstream]\<rparr> (V4 0x0a000005) [] demo_queued = Inr demo_upstream"
    by (rule demo_selected) (simp_all add: demo_proxy_def)
  moreover have "check 0 ''a'' (ps_breakers demo_proxy) = (demo_breakers, Closed, None)"
    by (simp add: demo_breakers_def check_def demo_proxy_def array_string_from_def entry_or_insert_def breakers_new_def breaker_new_def state_from_def Let_def)
  moreover have "acquire_conn demo_upstream (log_event (Selection ''a'') demo_queued)
      = (demo_queued\<lparr>ps_log := [Selection ''a''], ps_conns := fst (try_acquire_conn_permit demo_upstream pool_default),
           ps_conn_gauge := (\<lambda>_. 0)(''a'' := 1)\<rparr>, True)"
    by (simp add: acquire_conn_def log_event_def try_acquire_conn_permit_def conn_permits_def demo_proxy_def pool_default_def demo_upstream_def
        sample_backend_def Let_def)
  ultimately show ?thesis
    by (simp add: select_and_gate_def demo_env_def demo_ctx_def demo_upstream_def)
qed

abbreviation "demo_reply \<equiv> \<lparr>re_status = 200, re_headers = [], re_body = LimitedBody 10485760 (Raw ())\<rparr>"

abbreviation "demo_outgoing \<equiv> demo_request\<lparr>hr_headers := demo_headers_sent\<rparr>"

abbreviation "demo_forwarded \<equiv> demo_gated\<lparr>ps_log := [Selection ''a'', Forwarded demo_upstream demo_outgoing]\<rparr>"

lemma demo_forward:
  "forward_request demo_deps demo_static (demo_env 0) demo_request demo_upstream (Some demo_client) (V4 0x0a000005) demo_gated = (demo_forwarded, Inr demo_reply)"
proof -
  have "acquire (ae_pool (demo_env 0)) demo_upstream (ps_conns demo_gated) = (ps_conns demo_gated, Inr (H1 (OverTcp (bc_address demo_upstream))))"
    by (simp add: acquire_def acquire_direct_def acquire_tcp_plaintext_def demo_env_def demo_upstream_def sample_backend_def is_plaintext_def
        try_acquire_conn_permit_def pool_default_def Let_def)
  moreover have "ae_send (demo_env 0) = Completed (Inr \<lparr>re_status = 200, re_headers = [], re_body = Raw ()\<rparr>)" by (simp add: demo_env_def)
  moreover have "strip_hop_by_hop_headers (dp_header_name demo_deps) [] = []"
    by (simp add: strip_hop_by_hop_headers_def connection_nominated_def hget_all_def HOP_BY_HOP_HEADERS_def hremove_def Let_def List.map_filter_def)
  moreover have "pxc_max_response_body_bytes (st_proxy demo_static) = 10485760" by (simp add: demo_static_def default_proxy_config_def)
  ultimately show ?thesis by (simp add: forward_request_def demo_outbound log_event_def)
qed

lemma demo_attempt:
  "\<exists>s'. run_attempt demo_deps demo_static (demo_env 0) demo_ctx 0 demo_replay \<lparr>rt_failed_backends = [], rt_last_response = None\<rparr> demo_queued
     = (s', demo_replay\<lparr>rb_streaming_body := None\<rparr>, \<lparr>rt_failed_backends = [], rt_last_response = None\<rparr>, OutStream demo_reply demo_sel)
   \<and> sent s' = [(demo_upstream, demo_outgoing)]"
proof -
  have b: "build_retry_req demo_replay = (demo_replay\<lparr>rb_streaming_body := None\<rparr>, Some demo_request)"
    by (simp add: build_retry_req_def demo_replay_def demo_request_def)
  have r: "\<not> is_retryable_status 200" by (simp add: is_retryable_status_def)
  have c: "\<not> cac_enabled (st_cache demo_static)" "\<not> cpc_enabled (st_compression demo_static)"
    by (simp_all add: demo_static_def default_cache_config_def)
  have f: "forward_request demo_deps demo_static (demo_env 0) demo_request demo_upstream (cx_client_identity demo_ctx) (cx_client_ip demo_ctx) demo_gated
      = (demo_forwarded, Inr demo_reply)" using demo_forward by (simp add: demo_ctx_def)
  show ?thesis
    by (simp add: run_attempt_def demo_gate b f handle_response_def r handle_success_def should_cache_response_def c maybe_compress_def
        is_server_error_def record_completion_def log_event_def Let_def)
qed

lemma demo_run_sent:
  "\<exists>s'. demo_run = (s', demo_reply, Some \<lparr>rg_queue = ''p'', rg_selected = Some demo_sel\<rparr>) \<and> sent s' = sent demo_proxy @ [(demo_upstream, demo_outgoing)]"
proof -
  obtain s' where s': "run_attempt demo_deps demo_static (demo_env 0) demo_ctx 0 demo_replay \<lparr>rt_failed_backends = [], rt_last_response = None\<rparr> demo_queued
     = (s', demo_replay\<lparr>rb_streaming_body := None\<rparr>, \<lparr>rt_failed_backends = [], rt_last_response = None\<rparr>, OutStream demo_reply demo_sel)"
     "sent s' = [(demo_upstream, demo_outgoing)]" using demo_attempt by blast
  have t: "tc_connect_secs (st_timeouts demo_static) = 5" "ae_start (demo_env 0) = 0" "from_secs 5 < from_secs 30"
    by (simp_all add: demo_static_def default_timeout_config_def demo_env_def from_secs_def)
  have l: "attempt_loop demo_deps demo_static demo_env demo_ctx (from_secs 30) [0] demo_replay \<lparr>rt_failed_backends = [], rt_last_response = None\<rparr> demo_queued
      = (s', \<lparr>rt_failed_backends = [], rt_last_response = None\<rparr>, Some (demo_reply, Some demo_sel))"
    by (simp add: s'(1) t)
  have "serve_routed demo_deps demo_static demo_env 0 True demo_request (V4 0x0a000005) (Some demo_client) demo_negotiated demo_route demo_queued
      = (s', demo_reply, Some \<lparr>rg_queue = ''p'', rg_selected = Some demo_sel\<rparr>)"
    using l [unfolded demo_ctx_def] demo_prepared by (simp add: serve_routed_def demo_route_def demo_negotiated_def Let_def)
  moreover have "\<not> ps_shutdown demo_proxy" "ps_active demo_proxy = 0" "sent demo_proxy = []" by (simp_all add: demo_proxy_def)
  ultimately show ?thesis using s'(2)
    by (simp add: demo_run_def proxy_handler_def admit_client_def demo_admitted demo_negotiate demo_routed)
qed

theorem handler_refuses_witness:
  "case proxy_handler demo_deps demo_static demo_env 0 True (Some (V4 0x0a000005, Some demo_client)) demo_request
      (demo_proxy\<lparr>ps_revocation := \<lparr>rs_spki = {}, rs_backend_ids = {''alice''}\<rparr>\<rparr>) of (s', r, g) \<Rightarrow> g = None \<and> sent s' = [] \<and> re_status r = 403"
proof -
  let ?s = "demo_proxy\<lparr>ps_revocation := \<lparr>rs_spki = {}, rs_backend_ids = {''alice''}\<rparr>\<rparr>"
  have r: "\<exists>i. Some demo_client = Some i \<and> is_revoked (ps_revocation ?s) i" by (simp add: is_revoked_def demo_client_def)
  have "\<not> ps_shutdown ?s" "sent ?s = []" "\<not> isl (acl_check (dp_contains demo_deps) (ps_acl ?s) (V4 0x0a000005))"
      "\<not> isl (snd (rate_limit_check (dp_check_key demo_deps) (V4 0x0a000005) (ps_limiter ?s)))"
    by (simp_all add: demo_proxy_def acl_check_def acl_new_def acl_is_denied_def rate_limit_check_def demo_deps_def Let_def)
  then show ?thesis
    using handler_refuses [of ?s demo_deps "V4 0x0a000005" "Some demo_client" demo_static demo_env 0 True demo_request] r by auto
qed

theorem sent_requests_authentic_witness:
  "\<exists>s' r g q. demo_run = (s', r, g) \<and> sent s' = [(demo_upstream, q)] \<and> trusted_headers demo_upstream (V4 0x0a000005) (Some demo_client) (hr_headers q)"
proof -
  obtain s' where s': "demo_run = (s', demo_reply, Some \<lparr>rg_queue = ''p'', rg_selected = Some demo_sel\<rparr>)"
      "sent s' = sent demo_proxy @ [(demo_upstream, demo_outgoing)]" using demo_run_sent by blast
  have "inject_doc (dp_inject demo_deps)" by (simp add: inject_doc_def demo_deps_def)
  from sent_requests_authentic [OF this s'(1) [unfolded demo_run_def] s'(2)] have
    "trusted_headers demo_upstream (V4 0x0a000005) (Some demo_client) (hr_headers demo_outgoing)" by simp
  moreover have "sent demo_proxy = []" by (simp add: demo_proxy_def)
  ultimately show ?thesis using s' by (intro exI [of _ s'] exI [of _ demo_reply] exI [of _ "Some \<lparr>rg_queue = ''p'', rg_selected = Some demo_sel\<rparr>"]
      exI [of _ demo_outgoing]) simp
qed

theorem handler_returns_resources_witness:
  "\<exists>s' r g. demo_run = (s', r, Some g)
     \<and> held (\<lambda>_. 256) (st_queue_depth demo_static) (drop_response_guards demo_static g s') = held (\<lambda>_. 256) (st_queue_depth demo_static) demo_proxy"
proof -
  obtain s' where s': "demo_run = (s', demo_reply, Some \<lparr>rg_queue = ''p'', rg_selected = Some demo_sel\<rparr>)" using demo_run_sent by blast
  have "\<forall>b \<in> set (bp_backends pool). limited (\<lambda>_. 256) b" if "ps_pools demo_proxy k = Some pool" for k pool
    using that by (auto simp: demo_proxy_def limited_def demo_upstream_def sample_backend_def split: if_splits)
  from handler_returns_resources [OF s' [unfolded demo_run_def], of "\<lambda>_. 256", OF this] show ?thesis using s' by fastforce
qed

end
