(* ===== verification/Raw_Relay.thy ===== *)
theory Raw_Relay
  imports Relay Handler_Props
begin

section \<open>Raw relays (\<open>proxy/raw_relay.rs\<close>, \<open>raw_relay/admission.rs\<close>, \<open>raw_relay/lifetime.rs\<close>)\<close>

text \<open>
  A raw QUIC stream is admitted, names a backend pool, is authorised for it, gets a backend under the same gates as an HTTP request,
  and is then relayed byte by byte until it ends or its device is revoked or denied. What the peer sends and the network answers
  is \<open>raw_env\<close>; rejection metrics are a log. The details of formatted library errors are left out. The theorems: no
  stream reaches a backend past any gate, every permit and probe is given back, and the watchers that tie a
  relay to the denylist and the address rules lose no update.
\<close>

definition RAW_MAX_BACKEND_ID_LEN :: nat where "RAW_MAX_BACKEND_ID_LEN = 256"
definition MAX_CONCURRENT_RAW_RELAYS :: nat where "MAX_CONCURRENT_RAW_RELAYS = 128"
definition ROUTING_HEADER_LEN_PREFIX_BYTES :: nat where "ROUTING_HEADER_LEN_PREFIX_BYTES = 2"

definition RAW_REJECT_ACL :: string where "RAW_REJECT_ACL = ''acl''"
definition RAW_REJECT_RATE_LIMIT :: string where "RAW_REJECT_RATE_LIMIT = ''rate_limit''"
definition RAW_REJECT_NO_IDENTITY :: string where "RAW_REJECT_NO_IDENTITY = ''no_identity''"
definition RAW_REJECT_REVOKED :: string where "RAW_REJECT_REVOKED = ''revoked''"
definition RAW_REJECT_UNAUTHORIZED :: string where "RAW_REJECT_UNAUTHORIZED = ''unauthorized''"
definition RAW_REJECT_CAPACITY :: string where "RAW_REJECT_CAPACITY = ''capacity''"
definition RAW_REJECT_NO_BACKEND :: string where "RAW_REJECT_NO_BACKEND = ''no_backend''"
definition RAW_REJECT_CIRCUIT_OPEN :: string where "RAW_REJECT_CIRCUIT_OPEN = ''circuit_open''"

subsection \<open>UTF-8\<close>

text \<open>\<open>String::from_utf8\<close>: the width of the character that starts here, 0 if there is none.\<close>

definition utf8_cont :: "u8 \<Rightarrow> bool" where
  "utf8_cont b \<longleftrightarrow> 0x80 \<le> b \<and> b \<le> 0xBF"

definition utf8_width :: "u8 \<Rightarrow> bytes \<Rightarrow> nat" where
  "utf8_width b bs =
     (if b < 0x80 then 1
      else if 0xC2 \<le> b \<and> b \<le> 0xDF then (case bs of c # _ \<Rightarrow> if utf8_cont c then 2 else 0 | _ \<Rightarrow> 0)
      else if 0xE0 \<le> b \<and> b \<le> 0xEF
      then (case bs of c # d # _ \<Rightarrow>
              if (if b = 0xE0 then 0xA0 \<le> c \<and> c \<le> 0xBF else if b = 0xED then 0x80 \<le> c \<and> c \<le> 0x9F else utf8_cont c) \<and> utf8_cont d then 3 else 0
            | _ \<Rightarrow> 0)
      else if 0xF0 \<le> b \<and> b \<le> 0xF4
      then (case bs of c # d # e # _ \<Rightarrow>
              if (if b = 0xF0 then 0x90 \<le> c \<and> c \<le> 0xBF else if b = 0xF4 then 0x80 \<le> c \<and> c \<le> 0x8F else utf8_cont c)
                 \<and> utf8_cont d \<and> utf8_cont e then 4 else 0
            | _ \<Rightarrow> 0)
      else 0)"

fun utf8_valid :: "bytes \<Rightarrow> bool" where
  "utf8_valid [] = True"
| "utf8_valid (b # bs) = (0 < utf8_width b bs \<and> utf8_valid (drop (utf8_width b bs - 1) bs))"

definition from_utf8 :: "bytes \<Rightarrow> string + string" where
  "from_utf8 bs = (if utf8_valid bs then Inr (map (\<lambda>b. char_of (unat b)) bs) else Inl ''invalid utf-8'')"

subsection \<open>The routing header\<close>

definition read_routing_header_inner :: "reader \<Rightarrow> string result \<times> reader" where
  "read_routing_header_inner r =
     io_bind (io_err (\<lambda>e. Forward (''read routing header length: '' @ e)) (read_exact ROUTING_HEADER_LEN_PREFIX_BYTES r)) (\<lambda>len_buf r.
       let len = unat (from_be_bytes len_buf :: u16) in
       if len = 0 \<or> RAW_MAX_BACKEND_ID_LEN < len then (Inl (Forward (''invalid backend_id length: '' @ show_nat len)), r)
       else io_bind (io_err (\<lambda>e. Forward (''read routing header: '' @ e)) (read_exact len r)) (\<lambda>id_buf r.
         (map_err (\<lambda>e. Forward (''invalid backend_id UTF-8: '' @ e)) (from_utf8 id_buf), r)))"

text \<open>\<open>TimedOut\<close>: the peer did not deliver the header within \<open>ROUTING_HEADER_TIMEOUT\<close>.\<close>

definition read_routing_header :: "reader timed \<Rightarrow> string result" where
  "read_routing_header t =
     (case t of TimedOut \<Rightarrow> Inl (Forward ''routing header timed out'') | Completed r \<Rightarrow> fst (read_routing_header_inner r))"

subsection \<open>Admission\<close>

definition check_admission :: "(ip_net \<Rightarrow> ip_addr \<Rightarrow> bool) \<Rightarrow> (ip_addr \<Rightarrow> 'r \<Rightarrow> 'r \<times> bool) \<Rightarrow> access_control \<Rightarrow> ip_addr \<Rightarrow> peer_identity option
    \<Rightarrow> revocation_set \<Rightarrow> 'r \<Rightarrow> 'r \<times> (string + unit)" where
  "check_admission contains check_key acl client_ip identity revocation limiter =
     (if isl (acl_check contains acl client_ip) then (limiter, Inl RAW_REJECT_ACL)
      else case rate_limit_check check_key client_ip limiter of
             (limiter, Inl _) \<Rightarrow> (limiter, Inl RAW_REJECT_RATE_LIMIT)
           | (limiter, Inr _) \<Rightarrow>
               (limiter, case identity of
                           None \<Rightarrow> Inl RAW_REJECT_NO_IDENTITY
                         | Some i \<Rightarrow> if is_revoked revocation i then Inl RAW_REJECT_REVOKED else Inr ()))"

datatype raw_event =
    RawRejected string
  | RawConnLimit string
  | RawOpened backend_config raw_stream
  | RawBytes u64
  | RawError

record ('b, 'r, 'cl, 'hl) raw_state =
  rw_proxy :: "('b, 'r, 'cl, 'hl) proxy_state"
  rw_active :: int
  rw_events :: "raw_event list"

definition raw_log :: "raw_event \<Rightarrow> ('b, 'r, 'cl, 'hl) raw_state \<Rightarrow> ('b, 'r, 'cl, 'hl) raw_state" where
  "raw_log e s = s\<lparr>rw_events := rw_events s @ [e]\<rparr>"

definition authorize_raw_edge :: "('b, 'r, 'cl, 'hl) deps \<Rightarrow> raw_relay_authz \<Rightarrow> reader timed \<Rightarrow> ip_addr \<Rightarrow> peer_identity option
    \<Rightarrow> ('b, 'r, 'cl, 'hl) raw_state \<Rightarrow> (peer_identity \<times> string) option result \<times> ('b, 'r, 'cl, 'hl) raw_state" where
  "authorize_raw_edge dp authz header client_ip identity s =
     (case check_admission (dp_contains dp) (dp_check_key dp) (ps_acl (rw_proxy s)) client_ip identity (ps_revocation (rw_proxy s)) (ps_limiter (rw_proxy s)) of
        (l, admission) \<Rightarrow>
          let s = s\<lparr>rw_proxy := (rw_proxy s)\<lparr>ps_limiter := l\<rparr>\<rparr> in
          (case admission of
             Inl reason \<Rightarrow> (Inr None, raw_log (RawRejected reason) s)
           | Inr _ \<Rightarrow>
               (case identity of
                  None \<Rightarrow> (Inr None, s)
                | Some i \<Rightarrow>
                    (case read_routing_header header of
                       Inl e \<Rightarrow> (Inl e, s)
                     | Inr backend_id \<Rightarrow>
                         if \<not> is_allowed_raw authz backend_id i then (Inr None, raw_log (RawRejected RAW_REJECT_UNAUTHORIZED) s)
                         else (Inr (Some (i, backend_id)), s)))))"

subsection \<open>One stream\<close>

text \<open>What the peer and the network do: the routing header, the clock, the dial, and how \<open>relay_bidirectional\<close> ended.\<close>

record raw_env =
  rv_header :: "reader timed"
  rv_now :: instant
  rv_finish :: instant
  rv_tunnel :: tunnel_view
  rv_view :: conn_view
  rv_dial :: quic_dial
  rv_open :: "string + unit"
  rv_relay :: "relay_stats result"

definition with_proxy :: "(('b, 'r, 'cl, 'hl) proxy_state \<Rightarrow> ('b, 'r, 'cl, 'hl) proxy_state) \<Rightarrow> ('b, 'r, 'cl, 'hl) raw_state \<Rightarrow> ('b, 'r, 'cl, 'hl) raw_state" where
  "with_proxy f s = s\<lparr>rw_proxy := f (rw_proxy s)\<rparr>"

definition record_relay_outcome :: "instant \<Rightarrow> backend_config \<Rightarrow> relay_stats result \<Rightarrow> ('b, 'r, 'cl, 'hl) raw_state \<Rightarrow> ('b, 'r, 'cl, 'hl) raw_state" where
  "record_relay_outcome now b result s =
     (case result of
        Inr stats \<Rightarrow>
          raw_log (RawBytes (saturating_add (rl_bytes_a_to_b stats) (rl_bytes_b_to_a stats)))
            (with_proxy (\<lambda>p. p\<lparr>ps_breakers := record_success (bc_id b) (ps_breakers p)\<rparr>) s)
      | Inl e \<Rightarrow> raw_log RawError (with_proxy (breaker_failure now (bc_id b)) s))"

text \<open>The permit and the probe guard are dropped when the function returns, the permit first.\<close>

definition drop_raw_guards :: "backend_config \<Rightarrow> ref option \<Rightarrow> ('b, 'r, 'cl, 'hl) raw_state \<Rightarrow> ('b, 'r, 'cl, 'hl) raw_state" where
  "drop_raw_guards b g s = with_proxy (\<lambda>p. drop_half_open g (p\<lparr>ps_conns := release_conn_permit b (ps_conns p)\<rparr>)) s"

definition relay_admitted :: "raw_env \<Rightarrow> backend_config \<Rightarrow> ref option \<Rightarrow> ('b, 'r, 'cl, 'hl) raw_state \<Rightarrow> unit result \<times> ('b, 'r, 'cl, 'hl) raw_state" where
  "relay_admitted env b g s =
     (case acquire_raw_stream (rv_tunnel env) (rv_view env) (rv_dial env) (rv_open env) b (ps_conns (rw_proxy s)) of
        (p, Inl e) \<Rightarrow>
          (Inl e, drop_raw_guards b g (with_proxy (breaker_failure (rv_finish env) (bc_id b)) (with_proxy (\<lambda>x. x\<lparr>ps_conns := p\<rparr>) s)))
      | (p, Inr stream) \<Rightarrow>
          let s = raw_log (RawOpened b stream) (with_proxy (\<lambda>x. x\<lparr>ps_conns := p\<rparr>) s);
              s = s\<lparr>rw_active := rw_active s + 1\<rparr>;
              s = s\<lparr>rw_active := rw_active s - 1\<rparr>
          in (Inr (), drop_raw_guards b g (record_relay_outcome (rv_finish env) b (rv_relay env) s)))"

definition handle_raw_stream :: "('b, 'r, 'cl, 'hl) deps \<Rightarrow> raw_relay_authz \<Rightarrow> raw_env \<Rightarrow> ip_addr \<Rightarrow> peer_identity option
    \<Rightarrow> ('b, 'r, 'cl, 'hl) raw_state \<Rightarrow> unit result \<times> ('b, 'r, 'cl, 'hl) raw_state" where
  "handle_raw_stream dp authz env client_ip identity s =
     (case authorize_raw_edge dp authz (rv_header env) client_ip identity s of
        (Inl e, s) \<Rightarrow> (Inl e, s)
      | (Inr None, s) \<Rightarrow> (Inr (), s)
      | (Inr (Some (i, backend_id)), s) \<Rightarrow>
          (case ps_pools (rw_proxy s) backend_id of
             None \<Rightarrow> (Inl (Forward (''unknown backend pool for raw relay: '' @ backend_id)), s)
           | Some pool \<Rightarrow>
               (case select_with_pressure (dp_ln dp) (dp_health dp) (rv_now env) (ps_health (rw_proxy s)) client_ip
                       (\<lambda>b. connection_pressure (ps_conns (rw_proxy s)) (bc_id b) (bc_max_connections b)) pool of
                  None \<Rightarrow> (Inr (), raw_log (RawRejected RAW_REJECT_NO_BACKEND) s)
                | Some b \<Rightarrow>
                    (case check (rv_now env) (bc_id b) (ps_breakers (rw_proxy s)) of
                       (br, Open, _) \<Rightarrow> (Inr (), raw_log (RawRejected RAW_REJECT_CIRCUIT_OPEN) (with_proxy (\<lambda>p. p\<lparr>ps_breakers := br\<rparr>) s))
                     | (br, _, g) \<Rightarrow>
                         (case try_acquire_conn_permit b (ps_conns (rw_proxy s)) of
                            (p, Inl _) \<Rightarrow>
                              (Inr (), with_proxy (drop_half_open g)
                                 (raw_log (RawConnLimit (bc_id b)) (with_proxy (\<lambda>x. x\<lparr>ps_breakers := br, ps_conns := p\<rparr>) s)))
                          | (p, Inr _) \<Rightarrow> relay_admitted env b g (with_proxy (\<lambda>x. x\<lparr>ps_breakers := br, ps_conns := p\<rparr>) s))))))"

subsection \<open>The accept loop\<close>

record raw_loop =
  lo_available :: nat
  lo_running :: nat
  lo_rejected :: nat
  lo_errors :: nat
  lo_open :: bool

datatype raw_loop_event = RawIncoming | RawTaskEnds "unit result" | RawStop

definition raw_loop_step :: "raw_loop_event \<Rightarrow> raw_loop \<Rightarrow> raw_loop" where
  "raw_loop_step ev l =
     (case ev of
        RawIncoming \<Rightarrow>
          if \<not> lo_open l then l
          else if lo_available l = 0 then l\<lparr>lo_rejected := lo_rejected l + 1\<rparr>
          else l\<lparr>lo_available := lo_available l - 1, lo_running := lo_running l + 1\<rparr>
      | RawTaskEnds r \<Rightarrow>
          if lo_running l = 0 then l
          else l\<lparr>lo_available := lo_available l + 1, lo_running := lo_running l - 1, lo_errors := lo_errors l + (if isl r then 1 else 0)\<rparr>
      | RawStop \<Rightarrow> l\<lparr>lo_open := False\<rparr>)"

definition run_raw_relay_handler :: "raw_loop_event list \<Rightarrow> raw_loop" where
  "run_raw_relay_handler evs =
     fold raw_loop_step evs \<lparr>lo_available = MAX_CONCURRENT_RAW_RELAYS, lo_running = 0, lo_rejected = 0, lo_errors = 0, lo_open = True\<rparr>"

text \<open>However streams arrive and end, at most \<open>MAX_CONCURRENT_RAW_RELAYS\<close> run at once and every permit is accounted for.\<close>

lemma raw_relays_bounded:
  "lo_running (run_raw_relay_handler evs) \<le> MAX_CONCURRENT_RAW_RELAYS
   \<and> lo_available (run_raw_relay_handler evs) + lo_running (run_raw_relay_handler evs) = MAX_CONCURRENT_RAW_RELAYS"
proof -
  have "lo_available l + lo_running l = n \<Longrightarrow> lo_available (fold raw_loop_step evs l) + lo_running (fold raw_loop_step evs l) = n" for l n
    by (induction evs arbitrary: l) (auto simp: raw_loop_step_def split: raw_loop_event.split)
  from this [of "\<lparr>lo_available = MAX_CONCURRENT_RAW_RELAYS, lo_running = 0, lo_rejected = 0, lo_errors = 0, lo_open = True\<rparr>" MAX_CONCURRENT_RAW_RELAYS]
  show ?thesis by (simp add: run_raw_relay_handler_def)
qed

subsection \<open>No gate is passed by\<close>

definition opened_of :: "raw_event list \<Rightarrow> backend_config list" where
  "opened_of es = List.map_filter (\<lambda>e. case e of RawOpened b x \<Rightarrow> Some b | _ \<Rightarrow> None) es"

abbreviation opened :: "('b, 'r, 'cl, 'hl) raw_state \<Rightarrow> backend_config list" where
  "opened s \<equiv> opened_of (rw_events s)"

lemma opened_log [simp]:
  "opened (raw_log e s) = opened s @ (case e of RawOpened b x \<Rightarrow> [b] | _ \<Rightarrow> [])"
  by (auto simp: raw_log_def opened_of_def List.map_filter_def split: raw_event.split)

lemma with_proxy_simps [simp]:
  "rw_proxy (with_proxy f s) = f (rw_proxy s)" "rw_events (with_proxy f s) = rw_events s" "rw_active (with_proxy f s) = rw_active s"
  by (simp_all add: with_proxy_def)

lemma raw_log_simps [simp]: "rw_proxy (raw_log e s) = rw_proxy s" "rw_active (raw_log e s) = rw_active s"
  by (simp_all add: raw_log_def)

lemma relay_outcome_simps [simp]:
  "opened (record_relay_outcome now b r s) = opened s" "rw_active (record_relay_outcome now b r s) = rw_active s"
  "held mx d (rw_proxy (record_relay_outcome now b r s)) = held mx d (rw_proxy s)"
  by (simp_all add: record_relay_outcome_def split: sum.split)

lemma drop_raw_simps [simp]:
  "opened (drop_raw_guards b g s) = opened s" "rw_active (drop_raw_guards b g s) = rw_active s"
  by (simp_all add: drop_raw_guards_def)

lemma check_admission_ok:
  "check_admission contains ck acl ip ident rv l = (l', Inr u) \<longleftrightarrow>
     \<not> isl (acl_check contains acl ip) \<and> rate_limit_check ck ip l = (l', Inr ()) \<and> (\<exists>i. ident = Some i \<and> \<not> is_revoked rv i)"
  by (auto simp: check_admission_def split: prod.splits sum.splits option.splits if_splits)

lemma authorize_opened: "authorize_raw_edge dp authz h ip ident s = (r, s') \<Longrightarrow> opened s' = opened s \<and> rw_active s' = rw_active s
    \<and> rw_proxy s' = (rw_proxy s)\<lparr>ps_limiter := ps_limiter (rw_proxy s')\<rparr>"
  by (auto simp: authorize_raw_edge_def Let_def opened_of_def List.map_filter_def raw_log_def split: prod.splits sum.splits option.splits if_splits)

lemma authorize_ok:
  assumes "authorize_raw_edge dp authz h ip ident s = (Inr (Some (i, k)), s')"
  shows "ident = Some i \<and> \<not> isl (acl_check (dp_contains dp) (ps_acl (rw_proxy s)) ip)
    \<and> \<not> isl (snd (rate_limit_check (dp_check_key dp) ip (ps_limiter (rw_proxy s)))) \<and> \<not> is_revoked (ps_revocation (rw_proxy s)) i
    \<and> read_routing_header h = Inr k \<and> is_allowed_raw authz k i"
  using assms by (auto simp: authorize_raw_edge_def Let_def check_admission_ok split: prod.splits sum.splits option.splits if_splits)

lemma relay_admitted_opened: "relay_admitted env b g s = (r, s') \<Longrightarrow> opened s' = opened s \<or> opened s' = opened s @ [b]"
  by (auto simp: relay_admitted_def Let_def split: prod.splits sum.splits)

text \<open>Every permit is back where it was.\<close>

definition pools_limited :: "(string \<Rightarrow> u32) \<Rightarrow> ('b, 'r, 'cl, 'hl) proxy_state \<Rightarrow> bool" where
  "pools_limited mx p \<longleftrightarrow> (\<forall>k pool. ps_pools p k = Some pool \<longrightarrow> (\<forall>b \<in> set (bp_backends pool). limited mx b))"

definition keeps_held :: "('b, 'r, 'cl, 'hl) proxy_state \<Rightarrow> ('b, 'r, 'cl, 'hl) proxy_state \<Rightarrow> bool" where
  "keeps_held p p' \<longleftrightarrow> (\<forall>mx d. pools_limited mx p \<longrightarrow> held mx d p' = held mx d p)"

lemma keeps_held_breakers [simp]: "keeps_held p p" "keeps_held p (p\<lparr>ps_breakers := br\<rparr>)"
  by (simp_all add: keeps_held_def)

lemma keeps_held_limit:
  assumes "ps_pools p k = Some pool" "b \<in> set (bp_backends pool)" "try_acquire_conn_permit b (ps_conns p) = (c, Inl e)"
  shows "keeps_held p (drop_half_open g (p\<lparr>ps_breakers := br, ps_conns := c\<rparr>))"
  unfolding keeps_held_def
proof (intro allI impI)
  fix mx d
  assume "pools_limited mx p"
  then have "limited mx b" using assms(1,2) by (auto simp: pools_limited_def)
  then show "held mx d (drop_half_open g (p\<lparr>ps_breakers := br, ps_conns := c\<rparr>)) = held mx d p"
    using assms(3) by (auto simp: held_def try_acquire_conn_permit_def conn_permits_def limited_def drop_half_open_def Let_def fun_eq_iff
        split: if_splits option.splits)
qed

text \<open>The ways through one stream: turned away, or relayed past every gate.\<close>

lemma handle_raw_cases:
  assumes "handle_raw_stream dp authz env ip ident s = (r, s')"
  obtains (away) s1 x where "authorize_raw_edge dp authz (rv_header env) ip ident s = (x, s1)" "opened s' = opened s1"
      "rw_active s' = rw_active s1" "keeps_held (rw_proxy s1) (rw_proxy s')"
  | (relayed) s1 i k pool b br st g p where
      "authorize_raw_edge dp authz (rv_header env) ip ident s = (Inr (Some (i, k)), s1)" "ps_pools (rw_proxy s1) k = Some pool"
      "b \<in> set (bp_backends pool)" "check (rv_now env) (bc_id b) (ps_breakers (rw_proxy s1)) = (br, st, g)" "st \<noteq> Open"
      "try_acquire_conn_permit b (ps_conns (rw_proxy s1)) = (p, Inr ())"
      "relay_admitted env b g (with_proxy (\<lambda>x. x\<lparr>ps_breakers := br, ps_conns := p\<rparr>) s1) = (r, s')"
proof -
  obtain x s1 where a: "authorize_raw_edge dp authz (rv_header env) ip ident s = (x, s1)" by fastforce
  show thesis
  proof (cases "\<exists>i k pool. x = Inr (Some (i, k)) \<and> ps_pools (rw_proxy s1) k = Some pool")
    case False
    then have "s' = s1" using assms a by (auto simp: handle_raw_stream_def split: sum.splits option.splits)
    then show thesis by (intro away [OF a]) simp_all
  next
    case True
    then obtain i k pool where x: "x = Inr (Some (i, k))" and pool: "ps_pools (rw_proxy s1) k = Some pool" by blast
    let ?sel = "select_with_pressure (dp_ln dp) (dp_health dp) (rv_now env) (ps_health (rw_proxy s1)) ip
                       (\<lambda>b. connection_pressure (ps_conns (rw_proxy s1)) (bc_id b) (bc_max_connections b)) pool"
    note eval = assms [unfolded handle_raw_stream_def a x]
    show thesis
    proof (cases ?sel)
      case None
      then have "s' = raw_log (RawRejected RAW_REJECT_NO_BACKEND) s1" using eval pool by simp
      then show thesis by (intro away [OF a]) simp_all
    next
      case (Some b)
      then have b: "b \<in> set (bp_backends pool)"
        by (auto simp: select_with_pressure_def select_best_of dest!: best_of_mem)
      obtain br st g where c: "check (rv_now env) (bc_id b) (ps_breakers (rw_proxy s1)) = (br, st, g)" by (metis prod_cases3)
      obtain p q where t: "try_acquire_conn_permit b (ps_conns (rw_proxy s1)) = (p, q)" by fastforce
      consider (circuit) "st = Open" | (limit) e where "st \<noteq> Open" "q = Inl e" | (free) "st \<noteq> Open" "q = Inr ()" by (cases q) auto
      then show thesis
      proof cases
        case circuit
        then have "s' = raw_log (RawRejected RAW_REJECT_CIRCUIT_OPEN) (with_proxy (\<lambda>p. p\<lparr>ps_breakers := br\<rparr>) s1)" using eval pool Some c by simp
        then show thesis by (intro away [OF a]) simp_all
      next
        case limit
        have "s' = with_proxy (drop_half_open g) (raw_log (RawConnLimit (bc_id b)) (with_proxy (\<lambda>x. x\<lparr>ps_breakers := br, ps_conns := p\<rparr>) s1))"
          using eval pool Some c t limit by (cases st) simp_all
        then show thesis using keeps_held_limit [OF pool b t [unfolded limit]] by (intro away [OF a]) simp_all
      next
        case free
        then have "relay_admitted env b g (with_proxy (\<lambda>x. x\<lparr>ps_breakers := br, ps_conns := p\<rparr>) s1) = (r, s')"
          using eval pool Some c t by (cases st) simp_all
        then show thesis by (rule relayed [OF a [unfolded x] pool b c free(1) t [unfolded free]])
      qed
    qed
  qed
qed

lemma authorize_keeps:
  assumes "authorize_raw_edge dp authz h ip ident s = (r, s')"
  shows "ps_pools (rw_proxy s') = ps_pools (rw_proxy s)" "ps_breakers (rw_proxy s') = ps_breakers (rw_proxy s)"
    "ps_conns (rw_proxy s') = ps_conns (rw_proxy s)" "held mx d (rw_proxy s') = held mx d (rw_proxy s)"
proof -
  obtain l where l: "rw_proxy s' = (rw_proxy s)\<lparr>ps_limiter := l\<rparr>" using authorize_opened [OF assms] by blast
  show "ps_pools (rw_proxy s') = ps_pools (rw_proxy s)" "ps_breakers (rw_proxy s') = ps_breakers (rw_proxy s)"
    "ps_conns (rw_proxy s') = ps_conns (rw_proxy s)" "held mx d (rw_proxy s') = held mx d (rw_proxy s)" unfolding l by simp_all
qed

text \<open>
  Claim C17. A raw stream reaches a backend only past every gate: whenever a backend connection is opened for it, the address is allowed and within its
  rate, the device has a proven identity that is not revoked, the routing header was read in time and names a pool this
  identity is authorised for, the backend is a member of that pool, its circuit is not open and it had a free connection
  permit; and at most one backend is opened.
\<close>
theorem raw_relay_gated:
  assumes "handle_raw_stream dp authz env ip ident s = (r, s')" and "opened s' \<noteq> opened s"
  shows "\<exists>i k pool b. opened s' = opened s @ [b] \<and> ident = Some i \<and> \<not> isl (acl_check (dp_contains dp) (ps_acl (rw_proxy s)) ip)
    \<and> \<not> isl (snd (rate_limit_check (dp_check_key dp) ip (ps_limiter (rw_proxy s)))) \<and> \<not> is_revoked (ps_revocation (rw_proxy s)) i
    \<and> read_routing_header (rv_header env) = Inr k \<and> is_allowed_raw authz k i
    \<and> ps_pools (rw_proxy s) k = Some pool \<and> b \<in> set (bp_backends pool)
    \<and> fst (snd (check (rv_now env) (bc_id b) (ps_breakers (rw_proxy s)))) \<noteq> Open \<and> 0 < conn_permits (ps_conns (rw_proxy s)) b"
  using assms(1)
proof (cases rule: handle_raw_cases)
  case (away s1 x)
  then show ?thesis using assms(2) authorize_opened [OF away(1)] by simp
next
  case (relayed s1 i k pool b br st g p)
  note px = authorize_keeps(1,2,3) [OF relayed(1)]
  have "opened s' = opened s @ [b]"
    using relay_admitted_opened [OF relayed(7)] authorize_opened [OF relayed(1)] assms(2) by simp
  moreover have "0 < conn_permits (ps_conns (rw_proxy s)) b"
    using relayed(6) unfolding px by (auto simp: try_acquire_conn_permit_def Let_def split: if_splits)
  moreover have "fst (snd (check (rv_now env) (bc_id b) (ps_breakers (rw_proxy s)))) \<noteq> Open"
    using relayed(4,5) unfolding px by simp
  ultimately show ?thesis using authorize_ok [OF relayed(1)] relayed(2,3) unfolding px by blast
qed

lemma permit_back:
  assumes "limited mx b" "try_acquire_conn_permit b c = (p, Inr ())" "cp_conn_limits p' = cp_conn_limits p"
  shows "(case cp_conn_limits (release_conn_permit b p') k of Some n \<Rightarrow> n | None \<Rightarrow> unat (mx k))
    = (case cp_conn_limits c k of Some n \<Rightarrow> n | None \<Rightarrow> unat (mx k))"
  using assms by (auto simp: limited_def try_acquire_conn_permit_def release_conn_permit_def conn_permits_def Let_def split: if_splits option.splits)

lemma acquire_raw_limits: "cp_conn_limits (fst (acquire_raw_stream tv v d ro b p)) = cp_conn_limits p"
proof -
  have q: "cp_conn_limits (fst (pool_bind (take_or_connect v d b p) (\<lambda>conn p. pool_bind (p, x) (\<lambda>_ p. (put_quic v conn (bc_address b) (bc_host b) p, Inr (RawQuic conn))))))
      = cp_conn_limits p" for x :: "unit result"
    by (rule pool_bind_limits, simp, rule pool_bind_limits) simp_all
  have t: "cp_conn_limits (fst (pool_bind (registry_stream cl op k r p) (\<lambda>c p. (p, Inr (RawTunnel c))))) = cp_conn_limits p" for cl op k r
    by (rule pool_bind_limits) simp_all
  show ?thesis using q t by (simp add: acquire_raw_stream_def Let_def split: option.split)
qed

lemma relay_outcome_limits [simp]:
  "cp_conn_limits (ps_conns (rw_proxy (record_relay_outcome now b r s))) = cp_conn_limits (ps_conns (rw_proxy s))"
  by (simp add: record_relay_outcome_def breaker_failure_def split: sum.split)

lemma relay_admitted_held:
  assumes "relay_admitted env b g (with_proxy (\<lambda>x. x\<lparr>ps_breakers := br, ps_conns := p\<rparr>) s) = (r, s')"
    and "try_acquire_conn_permit b (ps_conns (rw_proxy s)) = (p, Inr ())" "limited mx b"
  shows "held mx d (rw_proxy s') = held mx d (rw_proxy s) \<and> rw_active s' = rw_active s"
proof -
  let ?s = "with_proxy (\<lambda>x. x\<lparr>ps_breakers := br, ps_conns := p\<rparr>) s"
  obtain q a where q: "acquire_raw_stream (rv_tunnel env) (rv_view env) (rv_dial env) (rv_open env) b p = (q, a)" by fastforce
  then have lim: "cp_conn_limits q = cp_conn_limits p"
    using acquire_raw_limits [of "rv_tunnel env" "rv_view env" "rv_dial env" "rv_open env" b p] by simp
  have given: "held mx d (rw_proxy (drop_raw_guards b g x)) = held mx d (rw_proxy s)"
    if "held mx d (rw_proxy x) = held mx d ((rw_proxy s)\<lparr>ps_conns := q\<rparr>)" "cp_conn_limits (ps_conns (rw_proxy x)) = cp_conn_limits q" for x
    using that permit_back [OF assms(3,2), of "ps_conns (rw_proxy x)"] lim
    by (simp add: drop_raw_guards_def) (simp add: held_def fun_eq_iff)
  show ?thesis
  proof (cases a)
    case (Inl e)
    then have "s' = drop_raw_guards b g (with_proxy (breaker_failure (rv_finish env) (bc_id b)) (with_proxy (\<lambda>x. x\<lparr>ps_conns := q\<rparr>) ?s))"
      using assms(1) q by (simp add: relay_admitted_def)
    moreover have "held mx d ((rw_proxy s)\<lparr>ps_breakers := br, ps_conns := q\<rparr>) = held mx d ((rw_proxy s)\<lparr>ps_conns := q\<rparr>)" by (simp add: held_def)
    ultimately show ?thesis by (auto intro!: given) (simp add: breaker_failure_def)
  next
    case (Inr x)
    then have s': "s' = drop_raw_guards b g (record_relay_outcome (rv_finish env) b (rv_relay env)
        (raw_log (RawOpened b x) (with_proxy (\<lambda>x. x\<lparr>ps_conns := q\<rparr>) ?s)))"
      using assms(1) q by (simp add: relay_admitted_def Let_def raw_log_def with_proxy_def)
    have "held mx d ((rw_proxy s)\<lparr>ps_breakers := br, ps_conns := q\<rparr>) = held mx d ((rw_proxy s)\<lparr>ps_conns := q\<rparr>)" by (simp add: held_def)
    then show ?thesis unfolding s' by (auto intro!: given)
  qed
qed

text \<open>However a stream ends, its permit and the active gauge are given back.\<close>

lemma raw_relay_no_leak:
  assumes "handle_raw_stream dp authz env ip ident s = (r, s')" "pools_limited mx (rw_proxy s)"
  shows "held mx d (rw_proxy s') = held mx d (rw_proxy s) \<and> rw_active s' = rw_active s"
  using assms(1)
proof (cases rule: handle_raw_cases)
  case (away s1 x)
  have "pools_limited mx (rw_proxy s1)" using assms(2) authorize_keeps(1) [OF away(1)] by (simp add: pools_limited_def)
  then show ?thesis using away(3,4) authorize_keeps(4) [OF away(1)] authorize_opened [OF away(1)] by (simp add: keeps_held_def)
next
  case (relayed s1 i k pool b br st g p)
  have "limited mx b" using relayed(2,3) assms(2) authorize_keeps(1) [OF relayed(1)] by (auto simp: pools_limited_def)
  then show ?thesis using relay_admitted_held [OF relayed(7,6)] authorize_keeps(4) [OF relayed(1)] authorize_opened [OF relayed(1)] by metis
qed

subsection \<open>The lifetime watchers\<close>

text \<open>
  \<open>tokio::sync::watch\<close>: the published value with its version, and whether the sender is gone. A receiver remembers the version it last
  saw; \<open>borrow\<close> reads the value without marking it seen, \<open>changed\<close> is ready when the version differs, marking it
  seen, and fails only when the sender is gone and nothing is unseen. The watcher's program counter is at the check
  of the loop, at its \<open>select!\<close>, or past the end; other tasks publish, drop the sender and cancel the token at any
  time in between.
\<close>

datatype watcher_pc = AtCheck | AtSelect | Returned

record 'v watcher =
  wa_value :: 'v
  wa_version :: nat
  wa_closed :: bool
  wa_seen :: nat
  wa_pc :: watcher_pc
  wa_cancelled :: bool

inductive watcher_step :: "('v \<Rightarrow> bool) \<Rightarrow> 'v watcher \<Rightarrow> 'v watcher \<Rightarrow> bool" for bad :: "'v \<Rightarrow> bool" where
  publish: "\<not> wa_closed w \<Longrightarrow> watcher_step bad w (w\<lparr>wa_value := v, wa_version := wa_version w + 1\<rparr>)"
| sender_dropped: "watcher_step bad w (w\<lparr>wa_closed := True\<rparr>)"
| token_cancelled: "watcher_step bad w (w\<lparr>wa_cancelled := True\<rparr>)"
| check_bad: "wa_pc w = AtCheck \<Longrightarrow> bad (wa_value w) \<Longrightarrow> watcher_step bad w (w\<lparr>wa_cancelled := True, wa_pc := Returned\<rparr>)"
| check_ok: "wa_pc w = AtCheck \<Longrightarrow> \<not> bad (wa_value w) \<Longrightarrow> watcher_step bad w (w\<lparr>wa_pc := AtSelect\<rparr>)"
| select_cancelled: "wa_pc w = AtSelect \<Longrightarrow> wa_cancelled w \<Longrightarrow> watcher_step bad w (w\<lparr>wa_pc := Returned\<rparr>)"
| select_changed: "wa_pc w = AtSelect \<Longrightarrow> wa_seen w \<noteq> wa_version w \<Longrightarrow> watcher_step bad w (w\<lparr>wa_seen := wa_version w, wa_pc := AtCheck\<rparr>)"
| select_closed: "wa_pc w = AtSelect \<Longrightarrow> wa_seen w = wa_version w \<Longrightarrow> wa_closed w \<Longrightarrow> watcher_step bad w (w\<lparr>wa_pc := Returned\<rparr>)"

inductive watcher_reaches :: "('v \<Rightarrow> bool) \<Rightarrow> 'v watcher \<Rightarrow> bool" for bad :: "'v \<Rightarrow> bool" where
  start: "seen \<le> version \<Longrightarrow> watcher_reaches bad \<lparr>wa_value = v, wa_version = version, wa_closed = False, wa_seen = seen, wa_pc = AtCheck, wa_cancelled = False\<rparr>"
| step: "watcher_reaches bad w \<Longrightarrow> watcher_step bad w w' \<Longrightarrow> watcher_reaches bad w'"


definition cancel_on_acl_denial :: "(ip_net \<Rightarrow> ip_addr \<Rightarrow> bool) \<Rightarrow> ip_addr \<Rightarrow> access_control watcher \<Rightarrow> access_control watcher \<Rightarrow> bool" where
  "cancel_on_acl_denial contains ip = watcher_step (\<lambda>acl. isl (acl_check contains acl ip))"

definition watcher_inv :: "('v \<Rightarrow> bool) \<Rightarrow> 'v watcher \<Rightarrow> bool" where
  "watcher_inv bad w \<longleftrightarrow> wa_seen w \<le> wa_version w
     \<and> (wa_pc w = AtSelect \<longrightarrow> wa_seen w = wa_version w \<longrightarrow> \<not> bad (wa_value w))
     \<and> (wa_pc w = Returned \<longrightarrow> wa_cancelled w \<or> wa_closed w \<and> \<not> bad (wa_value w))"

lemma watcher_inv_step: "watcher_step bad w w' \<Longrightarrow> watcher_inv bad w \<Longrightarrow> watcher_inv bad w'"
  by (cases rule: watcher_step.cases, assumption) (auto simp: watcher_inv_def)

lemma watcher_reaches_inv: "watcher_reaches bad w \<Longrightarrow> watcher_inv bad w"
proof (induction rule: watcher_reaches.induct)
  case (step w w')
  then show ?case by (blast intro: watcher_inv_step)
qed (simp add: watcher_inv_def)

text \<open>From any reachable state, the watcher's own steps alone cancel the token when the published value is bad.\<close>

lemma watcher_cancels:
  assumes "watcher_reaches bad w" "bad (wa_value w)" "\<not> wa_cancelled w"
  shows "(\<exists>w'. watcher_step bad w w' \<and> wa_cancelled w' \<and> wa_value w' = wa_value w)
    \<or> (\<exists>w1 w'. watcher_step bad w w1 \<and> watcher_step bad w1 w' \<and> wa_cancelled w' \<and> wa_value w' = wa_value w \<and> wa_seen w1 = wa_version w)"
proof (cases "wa_pc w")
  case AtCheck
  then have "watcher_step bad w (w\<lparr>wa_cancelled := True, wa_pc := Returned\<rparr>)" using assms(2) by (rule check_bad)
  then show ?thesis by fastforce
next
  case AtSelect
  then have "wa_seen w \<noteq> wa_version w" using watcher_reaches_inv [OF assms(1)] assms(2) by (auto simp: watcher_inv_def)
  with AtSelect have "watcher_step bad w (w\<lparr>wa_seen := wa_version w, wa_pc := AtCheck\<rparr>)" by (rule select_changed)
  moreover have "watcher_step bad (w\<lparr>wa_seen := wa_version w, wa_pc := AtCheck\<rparr>) (w\<lparr>wa_seen := wa_version w, wa_cancelled := True, wa_pc := Returned\<rparr>)"
    using check_bad [of "w\<lparr>wa_seen := wa_version w, wa_pc := AtCheck\<rparr>" bad] assms(2) by simp
  ultimately show ?thesis by fastforce
next
  case Returned
  then show ?thesis using watcher_reaches_inv [OF assms(1)] assms(2,3) by (auto simp: watcher_inv_def)
qed


text \<open>The same holds for the address rules.\<close>

lemma acl_lifetime:
  assumes "watcher_reaches (\<lambda>acl. isl (acl_check contains acl ip)) w" "isl (acl_check contains (wa_value w) ip)" "\<not> wa_cancelled w"
  shows "(\<exists>w'. cancel_on_acl_denial contains ip w w' \<and> wa_cancelled w' \<and> wa_value w' = wa_value w)
    \<or> (\<exists>w1 w'. cancel_on_acl_denial contains ip w w1 \<and> cancel_on_acl_denial contains ip w1 w' \<and> wa_cancelled w' \<and> wa_value w' = wa_value w \<and> wa_seen w1 = wa_version w)"
  using watcher_cancels [OF assms] unfolding cancel_on_acl_denial_def .


subsection \<open>A relayed stream\<close>

definition demo_raw_env :: raw_env where
  "demo_raw_env = \<lparr>rv_header = Completed [0, 1, 0x70], rv_now = 0, rv_finish = 1, rv_tunnel = pe_tunnel (ae_pool (demo_env 0)),
     rv_view = pe_view (ae_pool (demo_env 0)), rv_dial = pe_quic (ae_pool (demo_env 0)), rv_open = Inr (),
     rv_relay = Inr \<lparr>rl_bytes_a_to_b = 7, rl_bytes_b_to_a = 1, rl_duration = 5, rl_end = RelayCompleted\<rparr>\<rparr>"

abbreviation "demo_authz \<equiv> [''p'' \<mapsto> \<lparr>bp_cns = {''alice''}, bp_spkis = {}\<rparr>]"

abbreviation "demo_raw \<equiv> \<lparr>rw_proxy = demo_proxy, rw_active = 0, rw_events = []\<rparr>"

lemma demo_header: "read_routing_header (Completed [0, 1, 0x70]) = Inr ''p''"
  by code_simp

lemma demo_raw_authorized: "authorize_raw_edge demo_deps demo_authz (rv_header demo_raw_env) ip (Some demo_client) demo_raw = (Inr (Some (demo_client, ''p'')), demo_raw)"
  by (simp add: authorize_raw_edge_def check_admission_def demo_deps_def demo_proxy_def acl_check_def acl_new_def acl_is_denied_def rate_limit_check_def
      is_revoked_def revocation_empty_def demo_header demo_raw_env_def is_allowed_raw_def demo_client_def Let_def)

lemma demo_raw_selected:
  "select_with_pressure (dp_ln demo_deps) (dp_health demo_deps) 0 (ps_health demo_proxy) ip
     (\<lambda>b. connection_pressure (ps_conns demo_proxy) (bc_id b) (bc_max_connections b)) \<lparr>bp_backends = [demo_upstream]\<rparr> = Some demo_upstream"
proof -
  have "select_backend_excluding demo_deps 0 \<lparr>bp_backends = [demo_upstream]\<rparr> ip [] demo_proxy = Inr demo_upstream"
    by (rule demo_selected) (simp_all add: demo_proxy_def)
  then show ?thesis by (simp add: select_backend_excluding_def select_with_pressure_def split: option.splits)
qed

lemma demo_raw_opened: "\<exists>s'. handle_raw_stream demo_deps demo_authz demo_raw_env (V4 0x0a000005) (Some demo_client) demo_raw = (Inr (), s') \<and> opened s' = [demo_upstream]"
proof -
  have p: "ps_pools demo_proxy ''p'' = Some \<lparr>bp_backends = [demo_upstream]\<rparr>" by (simp add: demo_proxy_def)
  have c: "check 0 ''a'' (ps_breakers demo_proxy) = (demo_breakers, Closed, None)"
    by (simp add: demo_breakers_def check_def demo_proxy_def array_string_from_def entry_or_insert_def breakers_new_def breaker_new_def state_from_def Let_def)
  obtain q where t: "try_acquire_conn_permit demo_upstream (ps_conns demo_proxy) = (q, Inr ())"
      "cp_tunnel_registry q = None" "cp_quic_idle q = []" "\<not> cp_quic_endpoint q"
    by (simp add: try_acquire_conn_permit_def conn_permits_def demo_proxy_def pool_default_def demo_upstream_def sample_backend_def Let_def)
  have d: "rv_dial demo_raw_env = \<lparr>qd_handle = 0, qd_crypto = Inr (), qd_bind = Inr (), qd_connect = Inr (), qd_handshake = Completed (Inr ()),
         qd_open = Completed (Inr ()), qd_stream_type = Inr (), qd_http = Completed (Inr ())\<rparr>" "rv_open demo_raw_env = Inr ()"
    by (simp_all add: demo_raw_env_def demo_env_def)
  obtain q1 conn where tc: "take_or_connect (rv_view demo_raw_env) (rv_dial demo_raw_env) demo_upstream q = (q1, Inr conn)"
    using t(3,4) by (simp add: take_or_connect_def take_quic_def connect_quic_def get_or_init_quic_endpoint_def d map_err_def pool_bind_def)
  obtain q' st where a: "acquire_raw_stream (rv_tunnel demo_raw_env) (rv_view demo_raw_env) (rv_dial demo_raw_env) (rv_open demo_raw_env) demo_upstream q = (q', Inr st)"
    using t(2) tc by (simp add: acquire_raw_stream_def d map_err_def pool_bind_def Let_def)
  have n: "rv_now demo_raw_env = 0" "bc_id demo_upstream = ''a''" by (simp_all add: demo_raw_env_def demo_upstream_def)
  show ?thesis using a
    by (simp add: handle_raw_stream_def demo_raw_authorized p n demo_raw_selected c t relay_admitted_def opened_of_def [of "[]"] Let_def List.map_filter_def)
qed

theorem raw_relay_gated_witness:
  "\<exists>s' b. handle_raw_stream demo_deps demo_authz demo_raw_env (V4 0x0a000005) (Some demo_client) demo_raw = (Inr (), s') \<and> opened s' = [b]
     \<and> 0 < conn_permits (ps_conns demo_proxy) b"
proof -
  obtain s' where s: "handle_raw_stream demo_deps demo_authz demo_raw_env (V4 0x0a000005) (Some demo_client) demo_raw = (Inr (), s')"
      "opened s' = [demo_upstream]" using demo_raw_opened by blast
  have "opened demo_raw = []" by (simp add: opened_of_def List.map_filter_def)
  then show ?thesis using raw_relay_gated [OF s(1)] s by auto
qed

end
