(* ===== verification/Fs_Watch.thy ===== *)
theory Fs_Watch
  imports Errors
begin

section \<open>The debounced file watcher (\<open>fs_watch.rs\<close>)\<close>

text \<open>
  Every accepted file event bumps a generation counter and starts a worker that sleeps for the debounce time; when it wakes it reloads only
  if its generation is still the newest. A history is a list of steps: notifications of the operating system and wake-ups of
  workers, in any order a scheduler may choose; \<open>fs_timed\<close> says that instants do not decrease and no sleeper wakes early.
  The theorems: a reload happens only for the newest accepted event and only after the debounce time, and when all workers
  are done, the last accepted event has been reloaded. Which parent directory a path has and whether it can be
  watched are answers of the file system.
\<close>

datatype fs_kind = FsAny | FsAccess | FsCreate | FsModify | FsRemove | FsOther

record fs_event =
  fe_kind :: fs_kind
  fe_paths :: "string list"

definition fs_accepts :: "string list \<Rightarrow> fs_event \<Rightarrow> bool" where
  "fs_accepts trigger_set ev \<longleftrightarrow> (fe_kind ev = FsModify \<or> fe_kind ev = FsCreate) \<and> list_ex (\<lambda>p. p \<in> set trigger_set) (fe_paths ev)"

text \<open>\<open>fw_pending\<close>: the sleeping workers, each with the instant it was started, its generation and its event.\<close>

record fs_watcher =
  fw_generation :: u64
  fw_pending :: "(instant \<times> u64 \<times> fs_event) list"
  fw_reloaded :: "(instant \<times> fs_event) list"

definition watcher_new :: fs_watcher where
  "watcher_new = \<lparr>fw_generation = 0, fw_pending = [], fw_reloaded = []\<rparr>"

definition on_fs_notification :: "string list \<Rightarrow> instant \<Rightarrow> string + fs_event \<Rightarrow> fs_watcher \<Rightarrow> fs_watcher" where
  "on_fs_notification trigger_set now r w =
     (case r of
        Inl e \<Rightarrow> w
      | Inr ev \<Rightarrow>
          if \<not> fs_accepts trigger_set ev then w
          else let my_generation = fw_generation w + 1
               in w\<lparr>fw_generation := my_generation, fw_pending := fw_pending w @ [(now, my_generation, ev)]\<rparr>)"

definition reload_worker :: "instant \<Rightarrow> nat \<Rightarrow> fs_watcher \<Rightarrow> fs_watcher" where
  "reload_worker now i w =
     (if i < length (fw_pending w)
      then case fw_pending w ! i of
             (_, g, ev) \<Rightarrow>
               let w' = w\<lparr>fw_pending := take i (fw_pending w) @ drop (Suc i) (fw_pending w)\<rparr>
               in if fw_generation w \<noteq> g then w' else w'\<lparr>fw_reloaded := fw_reloaded w @ [(now, ev)]\<rparr>
      else w)"

datatype fs_step = FsNotify instant "string + fs_event" | WorkerWakes instant nat

fun fs_exec :: "string list \<Rightarrow> fs_step \<Rightarrow> fs_watcher \<Rightarrow> fs_watcher" where
  "fs_exec ts (FsNotify now r) w = on_fs_notification ts now r w"
| "fs_exec ts (WorkerWakes now i) w = reload_worker now i w"

definition fs_run :: "string list \<Rightarrow> fs_step list \<Rightarrow> fs_watcher" where
  "fs_run ts ss = fold (fs_exec ts) ss watcher_new"

subsection \<open>Registering the directories\<close>

datatype watch_setup_failure = WatchFatal | WatchWarn

fun watch_parents :: "(string \<Rightarrow> string option) \<Rightarrow> (string \<Rightarrow> string + unit) \<Rightarrow> string \<Rightarrow> watch_setup_failure \<Rightarrow> string list \<Rightarrow> string list
    \<Rightarrow> string list result" where
  "watch_parents parent watch context on_failure [] watched = Inr watched"
| "watch_parents parent watch context on_failure (path # paths) watched =
     (case parent path of
        None \<Rightarrow>
          (case on_failure of
             WatchFatal \<Rightarrow> Inl (Config (ConfigMessage (context @ '': cannot watch '' @ path @ '' without a parent directory'')))
           | WatchWarn \<Rightarrow> watch_parents parent watch context on_failure paths watched)
      | Some dir \<Rightarrow>
          if dir \<in> set watched then watch_parents parent watch context on_failure paths watched
          else (case watch dir of
                  Inr _ \<Rightarrow> watch_parents parent watch context on_failure paths (watched @ [dir])
                | Inl e \<Rightarrow>
                    (case on_failure of
                       WatchFatal \<Rightarrow> Inl (Config (ConfigMessage (context @ '': failed to watch '' @ dir @ '': '' @ e)))
                     | WatchWarn \<Rightarrow> watch_parents parent watch context on_failure paths watched)))"

definition spawn_trailing_edge_watcher :: "(string \<Rightarrow> string option) \<Rightarrow> (string \<Rightarrow> string + unit) \<Rightarrow> string + unit \<Rightarrow> string list \<Rightarrow> string \<Rightarrow> watch_setup_failure
    \<Rightarrow> (fs_watcher \<times> string list) result" where
  "spawn_trailing_edge_watcher parent watch backend trigger_paths context on_failure =
     (case backend of
        Inl e \<Rightarrow> Inl (Config (ConfigMessage (context @ '' watcher init: '' @ e)))
      | Inr _ \<Rightarrow> bind_res (watch_parents parent watch context on_failure trigger_paths []) (\<lambda>watched. Inr (watcher_new, watched)))"

text \<open>A fatal setup that succeeds watches the directory of every file; a best-effort one never fails.\<close>

lemma watch_parents_fatal:
  "watch_parents parent watch context WatchFatal paths watched = Inr ds \<Longrightarrow>
   set watched \<subseteq> set ds \<and> (\<forall>p \<in> set paths. \<exists>d. parent p = Some d \<and> d \<in> set ds)"
proof (induction paths arbitrary: watched)
  case (Cons p paths)
  show ?case
  proof (cases "parent p")
    case None
    then show ?thesis using Cons.prems by simp
  next
    case (Some d)
    show ?thesis
    proof (cases "d \<in> set watched")
      case True
      then show ?thesis using Cons Some by fastforce
    next
      case False
      then show ?thesis using Cons Some by (cases "watch d") fastforce+
    qed
  qed
qed simp

lemma watch_parents_warn: "\<exists>ds. watch_parents parent watch context WatchWarn paths watched = Inr ds"
  by (induction paths arbitrary: watched) (auto split: option.split sum.split)

subsection \<open>The newest event wins\<close>

fun accepted_events :: "string list \<Rightarrow> fs_step list \<Rightarrow> (instant \<times> fs_event) list" where
  "accepted_events ts [] = []"
| "accepted_events ts (FsNotify now (Inr ev) # ss) = (if fs_accepts ts ev then (now, ev) # accepted_events ts ss else accepted_events ts ss)"
| "accepted_events ts (_ # ss) = accepted_events ts ss"

fun step_time :: "fs_step \<Rightarrow> instant" where
  "step_time (FsNotify now r) = now"
| "step_time (WorkerWakes now i) = now"

fun fs_timed :: "duration \<Rightarrow> string list \<Rightarrow> instant \<Rightarrow> fs_step list \<Rightarrow> fs_watcher \<Rightarrow> bool" where
  "fs_timed debounce ts prev [] w = True"
| "fs_timed debounce ts prev (st # ss) w =
     (prev \<le> step_time st
      \<and> (case st of WorkerWakes now i \<Rightarrow> i < length (fw_pending w) \<and> fst (fw_pending w ! i) + debounce \<le> now | _ \<Rightarrow> True)
      \<and> fs_timed debounce ts (step_time st) ss (fs_exec ts st w))"

lemma accepted_append: "accepted_events ts (xs @ ys) = accepted_events ts xs @ accepted_events ts ys"
  by (induction ts xs rule: accepted_events.induct) auto

text \<open>The invariant: \<open>acc\<close> are the events accepted so far.\<close>

definition fs_inv :: "(instant \<times> fs_event) list \<Rightarrow> fs_watcher \<Rightarrow> bool" where
  "fs_inv acc w \<longleftrightarrow> fw_generation w = of_nat (length acc)
     \<and> (\<forall>(u, g, ev) \<in> set (fw_pending w). \<exists>n < length acc. g = of_nat (Suc n) \<and> acc ! n = (u, ev))
     \<and> (acc \<noteq> [] \<longrightarrow> (fst (last acc), fw_generation w, snd (last acc)) \<in> set (fw_pending w)
          \<or> (\<exists>t. fw_reloaded w \<noteq> [] \<and> last (fw_reloaded w) = (t, snd (last acc))))"

lemma fs_inv_new: "fs_inv [] watcher_new"
  by (simp add: fs_inv_def watcher_new_def)

lemma of_nat_u64_eq: "m < 2 ^ 64 \<Longrightarrow> n < 2 ^ 64 \<Longrightarrow> (of_nat m :: u64) = of_nat n \<longleftrightarrow> m = n"
  by (simp add: word_of_nat_eq_iff take_bit_nat_eq_self)

lemma newest_worker:
  assumes "fs_inv acc w" "length acc < 2 ^ 64" "(u, g, ev) \<in> set (fw_pending w)"
  shows "fw_generation w = g \<longleftrightarrow> (acc \<noteq> [] \<and> g = of_nat (length acc))"
    and "fw_generation w = g \<Longrightarrow> acc \<noteq> [] \<and> last acc = (u, ev)"
proof -
  obtain n where n: "n < length acc" "g = of_nat (Suc n)" "acc ! n = (u, ev)" using assms(1,3) by (fastforce simp: fs_inv_def)
  have gen: "fw_generation w = of_nat (length acc)" using assms(1) by (simp add: fs_inv_def)
  show "fw_generation w = g \<longleftrightarrow> (acc \<noteq> [] \<and> g = of_nat (length acc))" using gen n(1) by auto
  show "acc \<noteq> [] \<and> last acc = (u, ev)" if "fw_generation w = g"
  proof -
    have "Suc n = length acc" using that gen n(1,2) assms(2) of_nat_u64_eq [of "length acc" "Suc n"] by simp
    then show ?thesis using n by (metis diff_Suc_1 last_conv_nth length_0_conv nat.distinct(1))
  qed
qed

lemma set_remove_nth: "i < length xs \<Longrightarrow> x \<in> set xs \<Longrightarrow> x \<noteq> xs ! i \<Longrightarrow> x \<in> set (take i xs @ drop (Suc i) xs)"
  by (metis Un_iff append_take_drop_id id_take_nth_drop insert_iff list.simps(15) set_append)

lemma set_remove_sub: "set (take i xs @ drop (Suc i) xs) \<subseteq> set xs"
  using set_take_subset [of i xs] set_drop_subset [of "Suc i" xs] by auto

lemma fs_inv_worker:
  assumes inv: "fs_inv acc w" and len: "length acc < 2 ^ 64"
  shows "fs_inv acc (reload_worker now i w)"
proof (cases "i < length (fw_pending w)")
  case True
  obtain u g ev where x: "fw_pending w ! i = (u, g, ev)" by (metis prod_cases3)
  have mem: "(u, g, ev) \<in> set (fw_pending w)" using True x by (metis nth_mem)
  let ?p = "take i (fw_pending w) @ drop (Suc i) (fw_pending w)"
  have ih: "fw_generation w = of_nat (length acc)"
      "\<forall>(u, g, ev) \<in> set (fw_pending w). \<exists>n < length acc. g = of_nat (Suc n) \<and> acc ! n = (u, ev)"
      "acc \<noteq> [] \<longrightarrow> (fst (last acc), fw_generation w, snd (last acc)) \<in> set (fw_pending w)
          \<or> (\<exists>t. fw_reloaded w \<noteq> [] \<and> last (fw_reloaded w) = (t, snd (last acc)))"
    using inv by (auto simp: fs_inv_def)
  have pend: "\<forall>(u, g, ev) \<in> set ?p. \<exists>n < length acc. g = of_nat (Suc n) \<and> acc ! n = (u, ev)"
    using ih(2) set_remove_sub [of i "fw_pending w"] by blast
  show ?thesis
  proof (cases "fw_generation w = g")
    case eq: True
    then have "last acc = (u, ev)" using newest_worker(2) [OF inv len mem] by simp
    then show ?thesis using True x eq ih(1) pend by (simp add: reload_worker_def fs_inv_def Let_def)
  next
    case False
    have "(fst (last acc), fw_generation w, snd (last acc)) \<in> set ?p" if "(fst (last acc), fw_generation w, snd (last acc)) \<in> set (fw_pending w)"
      using set_remove_nth [OF True that] x False by auto
    then show ?thesis using True x False ih pend by (simp add: reload_worker_def fs_inv_def Let_def) blast
  qed
qed (use inv in \<open>simp add: reload_worker_def\<close>)

lemma fs_inv_accept:
  assumes "fs_inv acc w"
  shows "fs_inv (acc @ [(now, ev)]) (w\<lparr>fw_generation := fw_generation w + 1, fw_pending := fw_pending w @ [(now, fw_generation w + 1, ev)]\<rparr>)"
proof -
  have gen: "fw_generation w + 1 = of_nat (length (acc @ [(now, ev)]))" using assms by (simp add: fs_inv_def)
  have "\<exists>n < length (acc @ [(now, ev)]). g = of_nat (Suc n) \<and> (acc @ [(now, ev)]) ! n = (u, e)" if m: "(u, g, e) \<in> set (fw_pending w)" for u g e
  proof -
    obtain n where "n < length acc" "g = of_nat (Suc n)" "acc ! n = (u, e)" using assms m by (fastforce simp: fs_inv_def)
    then show ?thesis by (intro exI [of _ n]) (simp add: nth_append)
  qed
  moreover have "(acc @ [(now, ev)]) ! length acc = (now, ev)" by simp
  ultimately show ?thesis using gen unfolding fs_inv_def by auto
qed

lemma fs_inv_exec:
  assumes "fs_inv acc w" "length acc < 2 ^ 64"
  shows "fs_inv (acc @ accepted_events ts [st]) (fs_exec ts st w)"
proof (cases st)
  case (FsNotify now r)
  then show ?thesis using assms(1) fs_inv_accept [OF assms(1)] by (cases r) (simp_all add: on_fs_notification_def Let_def)
qed (use assms fs_inv_worker in simp)

lemma fs_inv_fold:
  "fs_inv acc w \<Longrightarrow> length (acc @ accepted_events ts ss) < 2 ^ 64 \<Longrightarrow> fs_inv (acc @ accepted_events ts ss) (fold (fs_exec ts) ss w)"
proof (induction ss arbitrary: acc w)
  case (Cons st ss)
  have split: "accepted_events ts (st # ss) = accepted_events ts [st] @ accepted_events ts ss" using accepted_append [of ts "[st]" ss] by simp
  have "fs_inv (acc @ accepted_events ts [st]) (fs_exec ts st w)" using fs_inv_exec Cons.prems by simp
  from Cons.IH [OF this] show ?case using Cons.prems(2) unfolding split by simp
qed simp

lemma fs_run_inv: "length (accepted_events ts ss) < 2 ^ 64 \<Longrightarrow> fs_inv (accepted_events ts ss) (fs_run ts ss)"
  using fs_inv_fold [OF fs_inv_new, of ts ss] by (simp add: fs_run_def)

lemma fs_timed_last:
  "fs_timed debounce ts prev (ss @ [WorkerWakes now i]) w \<Longrightarrow>
   i < length (fw_pending (fold (fs_exec ts) ss w)) \<and> fst (fw_pending (fold (fs_exec ts) ss w) ! i) + debounce \<le> now"
  by (induction ss arbitrary: prev w) auto

text \<open>
  Claim C20. Saves are neither lost nor read half-written: whenever a worker reloads, it does so for the newest accepted event, and that
  event is at least the debounce time old, so no accepted event came in between; and when no worker is left, the last
  reload was for the last accepted event. The generation counter may wrap only after \<open>2^64\<close> events.
\<close>
theorem debounce_exact:
  assumes "length (accepted_events ts ss) < 2 ^ 64" and "fs_timed debounce ts t0 (ss @ [WorkerWakes now i]) watcher_new"
  shows "(fw_reloaded (fs_run ts (ss @ [WorkerWakes now i])) = fw_reloaded (fs_run ts ss)
      \<or> (\<exists>u ev. accepted_events ts ss \<noteq> [] \<and> last (accepted_events ts ss) = (u, ev) \<and> u + debounce \<le> now
            \<and> fw_reloaded (fs_run ts (ss @ [WorkerWakes now i])) = fw_reloaded (fs_run ts ss) @ [(now, ev)]))
    \<and> (fw_pending (fs_run ts (ss @ [WorkerWakes now i])) = [] \<longrightarrow>
         (\<exists>t. fw_reloaded (fs_run ts (ss @ [WorkerWakes now i])) \<noteq> []
            \<and> last (fw_reloaded (fs_run ts (ss @ [WorkerWakes now i]))) = (t, snd (last (accepted_events ts ss)))))"
proof -
  let ?w = "fs_run ts ss" and ?acc = "accepted_events ts ss"
  have inv: "fs_inv ?acc ?w" by (rule fs_run_inv [OF assms(1)])
  have w': "fs_run ts (ss @ [WorkerWakes now i]) = reload_worker now i ?w" by (simp add: fs_run_def)
  have i: "i < length (fw_pending ?w)" "fst (fw_pending ?w ! i) + debounce \<le> now"
    using fs_timed_last [OF assms(2)] by (simp_all add: fs_run_def)
  obtain u g ev where x: "fw_pending ?w ! i = (u, g, ev)" by (metis prod_cases3)
  have mem: "(u, g, ev) \<in> set (fw_pending ?w)" using i(1) x by (metis nth_mem)
  have inv': "fs_inv ?acc (reload_worker now i ?w)" by (rule fs_inv_worker [OF inv assms(1)])
  have ne: "?acc \<noteq> []" using inv mem by (fastforce simp: fs_inv_def)
  have "fw_reloaded (reload_worker now i ?w) = fw_reloaded ?w
      \<or> (\<exists>u ev. last ?acc = (u, ev) \<and> u + debounce \<le> now \<and> fw_reloaded (reload_worker now i ?w) = fw_reloaded ?w @ [(now, ev)])"
    using newest_worker(2) [OF inv assms(1) mem] i x by (cases "fw_generation ?w = g") (simp_all add: reload_worker_def Let_def)
  moreover have "\<exists>t. fw_reloaded (reload_worker now i ?w) \<noteq> [] \<and> last (fw_reloaded (reload_worker now i ?w)) = (t, snd (last ?acc))"
    if "fw_pending (reload_worker now i ?w) = []"
    using inv' ne that by (auto simp: fs_inv_def)
  ultimately show ?thesis unfolding w' using ne by blast
qed

text \<open>Two saves in a burst: the first worker finds a newer generation, the second reloads.\<close>

theorem debounce_exact_witness:
  "let ev = (\<lambda>k. \<lparr>fe_kind = k, fe_paths = [''/etc/r.toml'']\<rparr>);
       ss = [FsNotify 0 (Inr (ev FsCreate)), FsNotify 1 (Inr (ev FsModify)), WorkerWakes 300 0]
   in fw_pending (fs_run [''/etc/r.toml''] (ss @ [WorkerWakes 301 0])) = []
      \<and> (\<exists>t. last (fw_reloaded (fs_run [''/etc/r.toml''] (ss @ [WorkerWakes 301 0]))) = (t, ev FsModify))"
proof -
  let ?ev = "\<lambda>k. \<lparr>fe_kind = k, fe_paths = [''/etc/r.toml'']\<rparr>"
  let ?ss = "[FsNotify 0 (Inr (?ev FsCreate)), FsNotify 1 (Inr (?ev FsModify)), WorkerWakes 300 0]"
  note eval = fs_run_def watcher_new_def on_fs_notification_def reload_worker_def fs_accepts_def
  have acc: "accepted_events [''/etc/r.toml''] ?ss = [(0, ?ev FsCreate), (1, ?ev FsModify)]" by (simp add: fs_accepts_def)
  have p: "fw_pending (fs_run [''/etc/r.toml''] (?ss @ [WorkerWakes 301 0])) = []" by (simp add: eval Let_def)
  have "fs_timed 300 [''/etc/r.toml''] 0 (?ss @ [WorkerWakes 301 0]) watcher_new" by (simp add: eval Let_def)
  from debounce_exact [OF _ this] show ?thesis using p acc by (auto simp: Let_def)
qed

end
