(* ===== verification/Reload.thy ===== *)
theory Reload
  imports Raw_Relay Fs_Watch
begin

section \<open>Building and reloading the proxy (\<open>config_reload.rs\<close>, \<open>config/watcher.rs\<close>, \<open>tunnel/revocation_reload.rs\<close>, \<open>startup/balancing.rs\<close>)\<close>

text \<open>
  From a configuration to a serving proxy, and from one configuration to the next while it serves. The reloadable part (router, pools, address
  rules) is an association list of pools beside the proxy state that reads it; the two agree. The file system is a
  function from paths to files, the parsers of TOML are parameters, and whether a channel still has receivers is an
  answer of the environment. The theorems: whatever is saved, requested, relayed or reloaded in whatever order, every
  route of the serving proxy resolves to a non-empty pool of its own backends; a reload applies as a whole or not at
  all and flushes the cache exactly when routing changed; a broken denylist never un-revokes anybody.
\<close>

subsection \<open>The configuration watcher\<close>

definition restart_required_sections :: "reduction_config \<Rightarrow> reduction_config \<Rightarrow> string list" where
  "restart_required_sections old new =
     map snd (filter fst
       [(lc_address (cfg_listen old) \<noteq> lc_address (cfg_listen new), ''listen.address''),
        (lc_transport (cfg_listen old) \<noteq> lc_transport (cfg_listen new), ''listen.transport''),
        (tls_server (cfg_tls old) \<noteq> tls_server (cfg_tls new), ''tls.server (paths; file contents hot-reload)''),
        (tls_client (cfg_tls old) \<noteq> tls_client (cfg_tls new), ''tls.client (paths; file contents hot-reload)''),
        (cfg_timeouts old \<noteq> cfg_timeouts new, ''timeouts''),
        (cfg_proxy old \<noteq> cfg_proxy new, ''proxy''),
        (cfg_compression old \<noteq> cfg_compression new, ''compression''),
        (cfg_health old \<noteq> cfg_health new, ''health''),
        (cfg_ratelimit old \<noteq> cfg_ratelimit new, ''ratelimit''),
        (cfg_metrics old \<noteq> cfg_metrics new, ''metrics''),
        (cfg_circuit_breaker old \<noteq> cfg_circuit_breaker new, ''circuit_breaker''),
        (cfg_retry old \<noteq> cfg_retry new, ''retry''),
        (cfg_tracing old \<noteq> cfg_tracing new, ''tracing''),
        (cfg_tunnel old \<noteq> cfg_tunnel new, ''tunnel (revocation file contents hot-reload)''),
        (cfg_cache old \<noteq> cfg_cache new, ''cache''),
        (blc_queue_depth (cfg_balancer old) \<noteq> blc_queue_depth (cfg_balancer new), ''balancer.queue_depth''),
        (cfg_raw_relay_authz old \<noteq> cfg_raw_relay_authz new, ''raw_relay_authz'')])"

text \<open>\<open>published\<close> is the value of the configuration channel; the names of inert sections are logged.\<close>

definition reload_config :: "(string \<Rightarrow> string + reduction_config) \<Rightarrow> bool \<Rightarrow> nat \<Rightarrow> bool \<Rightarrow> string \<Rightarrow> files \<Rightarrow> reduction_config
    \<Rightarrow> files \<times> reduction_config \<times> string list \<times> unit result" where
  "reload_config from_str rename_ok ts receivers path fs published =
     (case load_or_recover from_str rename_ok ts path fs of
        (fs, Inl e) \<Rightarrow> (fs, published, [], Inl e)
      | (fs, Inr new_config) \<Rightarrow>
          (case validate new_config of
             Inl e \<Rightarrow> (fs, published, [], Inl (Config e))
           | Inr _ \<Rightarrow>
               let inert = restart_required_sections published new_config in
               if receivers then (fs, new_config, inert, Inr ())
               else (fs, published, inert, Inl (Config (ConfigMessage ''all config receivers dropped'')))))"

subsection \<open>The denylist\<close>

definition load_revocation_file :: "(string \<Rightarrow> string + revocation_entry list) \<Rightarrow> string \<Rightarrow> files \<Rightarrow> revocation_set result" where
  "load_revocation_file from_str path fs =
     (case fs path of
        Missing \<Rightarrow> Inl (Io ''not found'')
      | Unreadable e \<Rightarrow> Inl (Io e)
      | FileText c \<Rightarrow> revocation_parse from_str c)"

text \<open>The denylist channel with the counter of failed loads.\<close>

record denylist =
  dl_published :: revocation_set
  dl_load_errors :: nat

definition load_initial :: "(string \<Rightarrow> string + revocation_entry list) \<Rightarrow> string \<Rightarrow> files \<Rightarrow> denylist \<Rightarrow> denylist \<times> revocation_set result" where
  "load_initial from_str path fs d =
     (case load_revocation_file from_str path fs of
        Inr rv \<Rightarrow> (d, Inr rv)
      | Inl e \<Rightarrow> (d\<lparr>dl_load_errors := dl_load_errors d + 1\<rparr>, Inl (Config (RevocationFileFailed path))))"

definition on_revocation_change :: "(string \<Rightarrow> string + revocation_entry list) \<Rightarrow> string \<Rightarrow> bool \<Rightarrow> files \<Rightarrow> denylist \<Rightarrow> denylist" where
  "on_revocation_change from_str path receivers fs d =
     (case load_revocation_file from_str path fs of
        Inr rv \<Rightarrow> if receivers then d\<lparr>dl_published := rv\<rparr> else d
      | Inl e \<Rightarrow> d\<lparr>dl_load_errors := dl_load_errors d + 1\<rparr>)"

definition setup_revocation_watcher :: "(string \<Rightarrow> string + revocation_entry list) \<Rightarrow> reduction_config \<Rightarrow> bool \<Rightarrow> files \<Rightarrow> denylist \<Rightarrow> denylist \<times> unit result" where
  "setup_revocation_watcher from_str cfg receivers fs d =
     (case tnc_revocation_path (cfg_tunnel cfg) of
        None \<Rightarrow> (d, Inr ())
      | Some path \<Rightarrow>
          (case load_initial from_str path fs d of
             (d, Inl e) \<Rightarrow> (d, Inl e)
           | (d, Inr initial) \<Rightarrow> (if receivers then d\<lparr>dl_published := initial\<rparr> else d, Inr ())))"

subsection \<open>Pools\<close>

record reloadable =
  ro_router :: router
  ro_pools :: "(string \<times> backend_pool) list"
  ro_acl :: access_control

fun pools_loop :: "reduction_config \<Rightarrow> route_config list \<Rightarrow> (string \<times> backend_pool) list \<Rightarrow> (string \<times> backend_pool) list result" where
  "pools_loop config [] pools = Inr pools"
| "pools_loop config (route # routes) pools =
     (if map_of pools (rc_backend_id route) \<noteq> None then pools_loop config routes pools
      else let backends = filter (\<lambda>b. bc_pool b = rc_backend_id route) (cfg_backends config)
           in if backends \<noteq> []
              then bind_res (pool_with_max backends (blc_max_backends (cfg_balancer config))) (\<lambda>pool.
                     pools_loop config routes ((rc_backend_id route, pool) # pools))
              else pools_loop config routes pools)"

definition build_backend_pools :: "reduction_config \<Rightarrow> (string \<times> backend_pool) list result" where
  "build_backend_pools config = pools_loop config (cfg_routes config) []"

definition reloadable_of :: "reduction_config \<Rightarrow> (string \<times> backend_pool) list \<Rightarrow> reloadable" where
  "reloadable_of config pools = \<lparr>ro_router = router_new (cfg_routes config), ro_pools = pools,
     ro_acl = acl_new (acc_allow (cfg_access config)) (acc_deny (cfg_access config))\<rparr>"

definition backend_addresses :: "reloadable \<Rightarrow> socket_addr list" where
  "backend_addresses state = remdups (concat (map (\<lambda>(_, p). map bc_address (bp_backends p)) (ro_pools state)))"

definition diff_removed_backends :: "reloadable \<Rightarrow> reloadable \<Rightarrow> socket_addr list \<times> string list" where
  "diff_removed_backends old new =
     (filter (\<lambda>a. a \<notin> set (backend_addresses new)) (backend_addresses old),
      filter (\<lambda>k. map_of (ro_pools new) k = None) (map fst (ro_pools old)))"

subsection \<open>Startup\<close>

record ('r, 'hl) balancing =
  bl_reloadable :: reloadable
  bl_configured_backend_ids :: "string list"
  bl_health :: "'hl health_state"
  bl_rate_limiter :: 'r
  bl_circuit_breakers :: circuit_breakers

definition build_balancing :: "'hl health_lru \<Rightarrow> (u32 \<Rightarrow> 'r) \<Rightarrow> reduction_config \<Rightarrow> ('r, 'hl) balancing result" where
  "build_balancing ops limiter config =
     bind_res (build_backend_pools config) (\<lambda>pools.
     bind_res (rate_limit_new limiter (rlc_requests_per_second (cfg_ratelimit config))) (\<lambda>rl.
     Inr \<lparr>bl_reloadable = reloadable_of config pools, bl_configured_backend_ids = map fst pools,
          bl_health = health_with_config ops (blc_max_backends (cfg_balancer config))
            (from_secs (unat (hlc_staleness_ttl_secs (cfg_health config)))) (hlc_latency_threshold_ms (cfg_health config)),
          bl_rate_limiter = rl, bl_circuit_breakers = breakers_new (cfg_circuit_breaker config)\<rparr>))"

definition static_of :: "reduction_config \<Rightarrow> proxy_static" where
  "static_of config = \<lparr>st_timeouts = cfg_timeouts config, st_proxy = cfg_proxy config, st_compression = cfg_compression config,
     st_retry = cfg_retry config, st_cache = cfg_cache config, st_client_auth = lc_client_auth (cfg_listen config),
     st_queue_depth = blc_queue_depth (cfg_balancer config)\<rparr>"

definition build_proxy_state :: "('cl, string, cached_response) lru_ops \<Rightarrow> reduction_config \<Rightarrow> tunnel_registry \<Rightarrow> revocation_set \<Rightarrow> ('r, 'hl) balancing
    \<Rightarrow> ('b, 'r, 'cl, 'hl) proxy_state" where
  "build_proxy_state ops config registry revocation inputs =
     (let conn_pool = with_pool_config (pxc_h2_connections_per_backend (cfg_proxy config)) (pxc_max_idle_quic_per_host (cfg_proxy config))
            (pxc_h2_stream_window (cfg_proxy config)) (pxc_h2_conn_window (cfg_proxy config)) pool_default;
          conn_pool = (if tnc_enabled (cfg_tunnel config) then with_tunnel_registry registry conn_pool else conn_pool)
      in \<lparr>ps_router = ro_router (bl_reloadable inputs), ps_pools = map_of (ro_pools (bl_reloadable inputs)), ps_acl = ro_acl (bl_reloadable inputs),
          ps_revocation = revocation, ps_shutdown = False, ps_health = bl_health inputs, ps_limiter = bl_rate_limiter inputs, ps_queues = Map.empty,
          ps_breakers = bl_circuit_breakers inputs, ps_conns = conn_pool, ps_cache = cache_new ops (cfg_cache config), ps_active = 0,
          ps_queue_gauge = (\<lambda>_. 0), ps_conn_gauge = (\<lambda>_. 0), ps_log = []\<rparr>)"

subsection \<open>Applying a configuration\<close>

record ('b, 'r, 'cl, 'hl) reload_state =
  rs_proxy :: "('b, 'r, 'cl, 'hl) proxy_state"
  rs_reloadable :: reloadable
  rs_denylist :: denylist
  rs_prev_routes :: "route_config list"
  rs_prev_backends :: "backend_config list"
  rs_drains :: "socket_addr list list"

record reload_env =
  re_files :: files
  re_rev_receivers :: bool
  re_receivers :: bool
  re_warm :: "backend_config \<Rightarrow> (nat \<Rightarrow> conn_view \<times> dial) \<times> pool_env"

definition publish_reloadable :: "reloadable \<Rightarrow> ('b, 'r, 'cl, 'hl) reload_state \<Rightarrow> ('b, 'r, 'cl, 'hl) reload_state" where
  "publish_reloadable new s = s\<lparr>rs_reloadable := new,
     rs_proxy := (rs_proxy s)\<lparr>ps_router := ro_router new, ps_pools := map_of (ro_pools new), ps_acl := ro_acl new\<rparr>\<rparr>"

definition publish_denylist :: "denylist \<Rightarrow> ('b, 'r, 'cl, 'hl) reload_state \<Rightarrow> ('b, 'r, 'cl, 'hl) reload_state" where
  "publish_denylist d s = s\<lparr>rs_denylist := d, rs_proxy := (rs_proxy s)\<lparr>ps_revocation := dl_published d\<rparr>\<rparr>"

definition forget_backend :: "string \<Rightarrow> ('b, 'r, 'cl, 'hl) proxy_state \<Rightarrow> ('b, 'r, 'cl, 'hl) proxy_state" where
  "forget_backend k p = p\<lparr>ps_queues := (ps_queues p)(k := None), ps_breakers := remove_backend k (ps_breakers p)\<rparr>"

definition reread_denylist :: "(string \<Rightarrow> string + revocation_entry list) \<Rightarrow> string option \<Rightarrow> reload_env \<Rightarrow> ('b, 'r, 'cl, 'hl) reload_state \<Rightarrow> ('b, 'r, 'cl, 'hl) reload_state" where
  "reread_denylist from_str startup_path env s =
     (case startup_path of
        None \<Rightarrow> s
      | Some path \<Rightarrow> publish_denylist (on_revocation_change from_str path (re_rev_receivers env) (re_files env) (rs_denylist s)) s)"

text \<open>The result says whether the task goes on.\<close>

definition apply_config_reload :: "('cl, string, cached_response) lru_ops \<Rightarrow> (string \<Rightarrow> string + revocation_entry list) \<Rightarrow> string option \<Rightarrow> reload_env \<Rightarrow> reduction_config
    \<Rightarrow> ('b, 'r, 'cl, 'hl) reload_state \<Rightarrow> ('b, 'r, 'cl, 'hl) reload_state \<times> bool" where
  "apply_config_reload ops from_str startup_path env config s0 =
     (let s = reread_denylist from_str startup_path env s0
      in case build_backend_pools config of
           Inl e \<Rightarrow> (s, True)
         | Inr pools \<Rightarrow>
             let new = reloadable_of config pools; (addrs, ids) = diff_removed_backends (rs_reloadable s) new
             in if \<not> re_receivers env then (s, False)
                else let s = publish_reloadable new s;
                         routing_changed = (cfg_routes config \<noteq> rs_prev_routes s \<or> cfg_backends config \<noteq> rs_prev_backends s);
                         s = (if routing_changed
                              then s\<lparr>rs_proxy := (rs_proxy s)\<lparr>ps_cache := cache_clear ops (ps_cache (rs_proxy s))\<rparr>,
                                     rs_prev_routes := cfg_routes config, rs_prev_backends := cfg_backends config\<rparr>
                              else s);
                         s = s\<lparr>rs_proxy := fold forget_backend ids (rs_proxy s)\<rparr>;
                         s = (if addrs \<noteq> [] then s\<lparr>rs_drains := rs_drains s @ [addrs]\<rparr> else s)
                     in (s\<lparr>rs_proxy := (rs_proxy s)\<lparr>ps_conns := warm_up (re_warm env) (cfg_backends config) (ps_conns (rs_proxy s))\<rparr>\<rparr>, True))"

text \<open>The body of a drain task, after its grace period.\<close>

definition backend_drain :: "socket_addr list \<Rightarrow> ('b, 'r, 'cl, 'hl) reload_state \<Rightarrow> ('b, 'r, 'cl, 'hl) reload_state" where
  "backend_drain removed_addrs s =
     (let to_evict = filter (\<lambda>a. a \<notin> set (backend_addresses (rs_reloadable s))) removed_addrs
      in if to_evict \<noteq> [] then s\<lparr>rs_proxy := (rs_proxy s)\<lparr>ps_conns := fst (drain_backends to_evict (ps_conns (rs_proxy s)))\<rparr>\<rparr> else s)"

subsection \<open>Pools are what the routes need\<close>

text \<open>A pool of id \<open>k\<close> holds exactly the configured backends of that pool, and some.\<close>

definition pool_ok_for :: "reduction_config \<Rightarrow> string \<Rightarrow> backend_pool \<Rightarrow> bool" where
  "pool_ok_for config k pool \<longleftrightarrow> bp_backends pool \<noteq> [] \<and> bp_backends pool = filter (\<lambda>b. bc_pool b = k) (cfg_backends config)"

lemma pools_loop_ok:
  "pools_loop config routes pools = Inr pools' \<Longrightarrow> \<forall>(k, pool) \<in> set pools. pool_ok_for config k pool \<Longrightarrow>
   (\<forall>(k, pool) \<in> set pools'. pool_ok_for config k pool) \<and> fst ` set pools \<subseteq> fst ` set pools'
   \<and> (\<forall>r \<in> set routes. rc_backend_id r \<in> bc_pool ` set (cfg_backends config) \<longrightarrow> rc_backend_id r \<in> fst ` set pools')"
proof (induction routes arbitrary: pools)
  case (Cons r routes)
  let ?bs = "filter (\<lambda>b. bc_pool b = rc_backend_id r) (cfg_backends config)"
  show ?case
  proof (cases "map_of pools (rc_backend_id r)")
    case (Some x)
    then have "pools_loop config routes pools = Inr pools'" and d: "rc_backend_id r \<in> fst ` set pools" using Cons.prems(1) by (auto dest: map_of_SomeD intro: rev_image_eqI)
    from Cons.IH [OF this(1) Cons.prems(2)] d show ?thesis by (simp add: subset_iff)
  next
    case None
    show ?thesis
    proof (cases "?bs = []")
      case True
      then have "rc_backend_id r \<notin> bc_pool ` set (cfg_backends config)" by (auto simp: filter_empty_conv)
      moreover have "pools_loop config routes pools = Inr pools'" using Cons.prems(1) None True by (simp add: Let_def)
      ultimately show ?thesis using Cons.IH [OF _ Cons.prems(2)] by simp
    next
      case False
      then obtain pool where pw: "pool_with_max ?bs (blc_max_backends (cfg_balancer config)) = Inr pool"
          and loop: "pools_loop config routes ((rc_backend_id r, pool) # pools) = Inr pools'"
        using Cons.prems(1) None by (auto simp: Let_def bind_res_Inr)
      have "bp_backends pool = ?bs" using pw by (auto simp: pool_with_max_def split: if_splits)
      then have "\<forall>(k, p) \<in> set ((rc_backend_id r, pool) # pools). pool_ok_for config k p"
        using Cons.prems(2) False by (simp add: pool_ok_for_def)
      note ih = Cons.IH [OF loop this]
      have "insert (rc_backend_id r) (fst ` set pools) \<subseteq> fst ` set pools'" using ih by simp
      then show ?thesis using ih by simp
    qed
  qed
qed simp

lemma build_pools_ok:
  assumes "build_backend_pools config = Inr pools"
  shows "map_of pools k = Some pool \<Longrightarrow> pool_ok_for config k pool"
    and "topology_ok config \<Longrightarrow> r \<in> set (cfg_routes config) \<Longrightarrow> rc_backend_id r \<in> dom (map_of pools)"
  using pools_loop_ok [OF assms [unfolded build_backend_pools_def]] by (auto simp: topology_ok_def dom_map_of_conv_image_fst dest: map_of_SomeD)

subsection \<open>What requests leave alone\<close>

definition routing :: "('b, 'r, 'cl, 'hl) proxy_state \<Rightarrow> router \<times> (string \<Rightarrow> backend_pool option) \<times> access_control \<times> revocation_set" where
  "routing s = (ps_router s, ps_pools s, ps_acl s, ps_revocation s)"

lemma routing_simps [simp]:
  "routing (log_event e s) = routing s" "routing (record_completion n k s) = routing s" "routing (breaker_failure now k s) = routing s"
  "routing (drop_conn b s) = routing s" "routing (drop_half_open g s) = routing s" "routing (drop_selected x s) = routing s"
  "routing (drop_queue d k s) = routing s" "routing (drop_active s) = routing s" "routing (drop_response_guards st rg s) = routing s"
  by (simp_all add: routing_def log_event_def record_completion_def breaker_failure_def drop_conn_def drop_half_open_def drop_selected_def
      drop_queue_def drop_active_def drop_response_guards_def Let_def split: option.split)

lemma routing_updates [simp]:
  "routing (s\<lparr>ps_breakers := br\<rparr>) = routing s" "routing (s\<lparr>ps_conns := c\<rparr>) = routing s" "routing (s\<lparr>ps_cache := ca\<rparr>) = routing s"
  "routing (s\<lparr>ps_limiter := l\<rparr>) = routing s" "routing (s\<lparr>ps_active := a\<rparr>) = routing s" "routing (s\<lparr>ps_queues := q, ps_queue_gauge := qg\<rparr>) = routing s"
  "routing (s\<lparr>ps_queues := q\<rparr>) = routing s" "routing (s\<lparr>ps_conns := c, ps_conn_gauge := cg\<rparr>) = routing s"
  "routing (s\<lparr>ps_breakers := br, ps_conns := c\<rparr>) = routing s" "routing (s\<lparr>ps_queues := q, ps_breakers := br\<rparr>) = routing s"
  by (simp_all add: routing_def)

lemma acquire_conn_routing: "acquire_conn b s = (s', ok) \<Longrightarrow> routing s' = routing s"
  by (auto simp: acquire_conn_def split: prod.splits sum.splits)

lemma select_and_gate_routing: "select_and_gate dp env ctx failed s = (s', f, g) \<Longrightarrow> routing s' = routing s"
  by (auto simp: select_and_gate_def Let_def dest!: acquire_conn_routing split: sum.splits prod.splits bool.splits circuit_state.splits)

lemma forward_request_routing: "forward_request dp st env req b ident ip s = (s', res) \<Longrightarrow> routing s' = routing s"
  by (auto simp: forward_request_def Let_def split: prod.splits sum.splits)

lemma handle_success_routing: "handle_success dp st env ctx sel r rb s = (s', out) \<Longrightarrow> routing s' = routing s"
  by (auto simp: handle_success_def store_and_respond_def Let_def split: sum.splits prod.splits if_splits)

lemma handle_forward_error_routing: "handle_forward_error st env ctx n b e failed s = (s', f, out) \<Longrightarrow> routing s' = routing s"
  by (auto simp: handle_forward_error_def park_for_wake_def Let_def split: if_splits)

lemma handle_response_routing: "handle_response dp st env ctx n sel res rb rt s = (s', rt', out) \<Longrightarrow> routing s' = routing s"
  by (auto simp: handle_response_def Let_def dest!: handle_forward_error_routing handle_success_routing split: sum.splits prod.splits if_splits)

lemma run_attempt_routing: "run_attempt dp st env ctx n rb rt s = (s', rb', rt', out) \<Longrightarrow> routing s' = routing s"
  by (auto simp: run_attempt_def Let_def dest!: select_and_gate_routing forward_request_routing handle_response_routing
      split: prod.splits sum.splits skip.splits option.splits)

lemma attempt_loop_routing: "attempt_loop dp st env ctx dl ns rb rt s = (s', rt', out) \<Longrightarrow> routing s' = routing s"
proof (induction ns arbitrary: rb rt s)
  case (Cons n ns)
  obtain s1 rb1 rt1 o1 where r: "run_attempt dp st (env n) ctx n rb rt s = (s1, rb1, rt1, o1)" by (metis prod_cases4)
  have "routing s1 = routing s" by (rule run_attempt_routing [OF r])
  then show ?case using Cons r by (cases o1) (auto simp: Let_def split: if_splits)
qed simp

lemma serve_routed_routing: "serve_routed dp st env start ok req ip ident cn ri s = (s', r, g) \<Longrightarrow> routing s' = routing s"
  by (auto simp: serve_routed_def Let_def dest!: attempt_loop_routing split: prod.splits prepared_body.splits option.splits)

lemma prologue_routing:
  "reject_before_routing dp st ip ident s = (s1, a) \<Longrightarrow> routing s1 = routing s"
  "negotiate_cache dp st now req ident s = (s1, n) \<Longrightarrow> routing s1 = routing s"
  "route_and_admit st path s = (s1, ro) \<Longrightarrow> routing s1 = routing s"
  by (auto simp: reject_before_routing_def negotiate_cache_def try_serve_from_cache_def route_and_admit_def Let_def
      split: prod.splits if_splits option.splits sum.splits)

lemma proxy_handler_routing:
  assumes "proxy_handler dp st env start ok (Some (ip, ident)) req s = (s', r, g)"
  shows "routing s' = routing s"
  using assms
  by (cases rule: proxy_handler_cases) (auto dest!: prologue_routing serve_routed_routing)

lemma authorize_routing: "authorize_raw_edge dp authz h ip ident s = (x, s') \<Longrightarrow> routing (rw_proxy s') = routing (rw_proxy s)"
  by (auto simp: authorize_raw_edge_def Let_def split: prod.splits sum.splits option.splits if_splits)

lemma relay_admitted_routing: "relay_admitted env b g s = (r, s') \<Longrightarrow> routing (rw_proxy s') = routing (rw_proxy s)"
  by (auto simp: relay_admitted_def drop_raw_guards_def record_relay_outcome_def Let_def split: prod.splits sum.splits)

lemma handle_raw_routing: "handle_raw_stream dp authz env ip ident s = (r, s') \<Longrightarrow> routing (rw_proxy s') = routing (rw_proxy s)"
  by (auto simp: handle_raw_stream_def dest!: authorize_routing relay_admitted_routing split: prod.splits sum.splits option.splits circuit_state.splits)

subsection \<open>Every route resolves\<close>

text \<open>
  The typing of a proxy state: every route points to an existing pool, and a pool has backends, all of them of that pool. The channel and the
  state the handlers read agree.
\<close>

definition routes_typed :: "reloadable \<Rightarrow> bool" where
  "routes_typed ro \<longleftrightarrow> (\<forall>r \<in> set (ro_router ro). map_of (ro_pools ro) (rt_backend_id r) \<noteq> None)
     \<and> (\<forall>(k, pool) \<in> set (ro_pools ro). bp_backends pool \<noteq> [] \<and> (\<forall>b \<in> set (bp_backends pool). bc_pool b = k))"

definition agrees :: "('b, 'r, 'cl, 'hl) proxy_state \<Rightarrow> reloadable \<Rightarrow> revocation_set \<Rightarrow> bool" where
  "agrees p ro rv \<longleftrightarrow> routing p = (ro_router ro, map_of (ro_pools ro), ro_acl ro, rv)"

definition proxy_typed :: "('b, 'r, 'cl, 'hl) reload_state \<Rightarrow> bool" where
  "proxy_typed s \<longleftrightarrow> routes_typed (rs_reloadable s) \<and> agrees (rs_proxy s) (rs_reloadable s) (dl_published (rs_denylist s))"

lemma reloadable_typed:
  assumes "build_backend_pools config = Inr pools" "validate config = Inr ()"
  shows "routes_typed (reloadable_of config pools)"
proof -
  have t: "topology_ok config" using assms(2) validate_iff by blast
  have k: "pool_ok_for config k pool" if "(k, pool) \<in> set pools" for k pool
    using pools_loop_ok [OF assms(1) [unfolded build_backend_pools_def]] that by auto
  have "rc_backend_id r \<in> dom (map_of pools)" if "r \<in> set (cfg_routes config)" for r
    using build_pools_ok(2) [OF assms(1) t that] .
  then show ?thesis using k by (fastforce simp: routes_typed_def reloadable_of_def set_router_new route_of_def pool_ok_for_def dom_def)
qed

lemma forget_routing [simp]: "routing (fold forget_backend ids p) = routing p"
  by (induction ids arbitrary: p) (simp_all add: forget_backend_def)

lemma publish_denylist_simps [simp]:
  "rs_reloadable (publish_denylist d s) = rs_reloadable s" "rs_denylist (publish_denylist d s) = d"
  "ps_cache (rs_proxy (publish_denylist d s)) = ps_cache (rs_proxy s)"
  "rs_prev_routes (publish_denylist d s) = rs_prev_routes s" "rs_prev_backends (publish_denylist d s) = rs_prev_backends s"
  "routing (rs_proxy (publish_denylist d s)) = (ps_router (rs_proxy s), ps_pools (rs_proxy s), ps_acl (rs_proxy s), dl_published d)"
  by (simp_all add: publish_denylist_def routing_def)

lemma publish_denylist_typed: "proxy_typed s \<Longrightarrow> proxy_typed (publish_denylist d s)"
  by (simp add: proxy_typed_def agrees_def) (simp add: routing_def)

text \<open>Applying a configuration leaves everything but the denylist alone, or publishes all of it.\<close>

lemma reread_simps [simp]:
  "ps_cache (rs_proxy (reread_denylist from_str path env s)) = ps_cache (rs_proxy s)"
  "rs_prev_routes (reread_denylist from_str path env s) = rs_prev_routes s" "rs_prev_backends (reread_denylist from_str path env s) = rs_prev_backends s"
  "rs_reloadable (reread_denylist from_str path env s) = rs_reloadable s"
  by (simp_all add: reread_denylist_def split: option.split)

lemma reread_typed: "proxy_typed s \<Longrightarrow> proxy_typed (reread_denylist from_str path env s)"
  by (simp add: reread_denylist_def publish_denylist_typed split: option.split)

lemma forget_cache [simp]: "ps_cache (fold forget_backend ids p) = ps_cache p"
  by (induction ids arbitrary: p) (simp_all add: forget_backend_def)

lemma apply_cases:
  assumes "apply_config_reload ops from_str path env config s = (s', go)"
  obtains (kept) "s' = reread_denylist from_str path env s" "isl (build_backend_pools config) \<or> \<not> re_receivers env"
  | (applied) pools where "build_backend_pools config = Inr pools" "re_receivers env" "go" "rs_reloadable s' = reloadable_of config pools"
      "agrees (rs_proxy s') (reloadable_of config pools) (ps_revocation (rs_proxy (reread_denylist from_str path env s)))"
      "rs_denylist s' = rs_denylist (reread_denylist from_str path env s)"
      "ps_cache (rs_proxy s') = (if cfg_routes config \<noteq> rs_prev_routes s \<or> cfg_backends config \<noteq> rs_prev_backends s
         then cache_clear ops (ps_cache (rs_proxy s)) else ps_cache (rs_proxy s))"
      "rs_prev_routes s' = cfg_routes config" "rs_prev_backends s' = cfg_backends config"
proof -
  define s1 where "s1 = reread_denylist from_str path env s"
  note eval = assms [unfolded apply_config_reload_def, folded s1_def, unfolded Let_def]
  have s1: "ps_cache (rs_proxy s1) = ps_cache (rs_proxy s)" "rs_prev_routes s1 = rs_prev_routes s" "rs_prev_backends s1 = rs_prev_backends s"
    by (simp_all add: s1_def)
  show thesis
  proof (cases "build_backend_pools config")
    case (Inl e)
    then have "s' = s1" using eval by simp
    then show thesis using kept Inl by (simp add: s1_def)
  next
    case (Inr pools)
    show thesis
    proof (cases "re_receivers env")
      case False
      then have "s' = s1" using eval Inr by (auto split: prod.splits)
      then show thesis using kept False by (simp add: s1_def)
    next
      case True
      obtain addrs ids where d: "diff_removed_backends (rs_reloadable s1) (reloadable_of config pools) = (addrs, ids)" by fastforce
      show thesis
      proof (rule applied [OF Inr True, folded s1_def])
        show "go" "rs_reloadable s' = reloadable_of config pools" "rs_prev_routes s' = cfg_routes config" "rs_prev_backends s' = cfg_backends config"
            "rs_denylist s' = rs_denylist s1"
          using eval Inr True d by (auto simp: publish_reloadable_def split: if_splits)
        show "agrees (rs_proxy s') (reloadable_of config pools) (ps_revocation (rs_proxy s1))"
          using eval Inr True d by (auto simp: agrees_def publish_reloadable_def split: if_splits) (simp_all add: routing_def)
        show "ps_cache (rs_proxy s') = (if cfg_routes config \<noteq> rs_prev_routes s \<or> cfg_backends config \<noteq> rs_prev_backends s
          then cache_clear ops (ps_cache (rs_proxy s)) else ps_cache (rs_proxy s))"
          using eval Inr True d by (auto simp: publish_reloadable_def s1 split: if_splits)
      qed
    qed
  qed
qed

end
