(* ===== verification/Serving.thy ===== *)
theory Serving
  imports Reload
begin

section \<open>A serving proxy: start, requests, relays and reloads interleaved\<close>

text \<open>
  The steps of the parts of the process that share the proxy state, in any order: requests and the end of their responses
  (\<open>proxy/handler.rs\<close>), raw relays (\<open>proxy/raw_relay.rs\<close>), saves of the configuration file (\<open>config/watcher.rs\<close>), the reload task
  (\<open>config_reload.rs\<close>), changes of the denylist file (\<open>tunnel/revocation_reload.rs\<close>), drains, health reports and the shutdown signal. A handler is
  one step. None but the reload task writes the routing tables, so cutting a handler at its awaits gives no other tables.
\<close>

record ('b, 'r, 'cl, 'hl) process =
  pr_startup :: reduction_config
  pr_published :: reduction_config
  pr_reload :: "('b, 'r, 'cl, 'hl) reload_state"

abbreviation pr_proxy :: "('b, 'r, 'cl, 'hl) process \<Rightarrow> ('b, 'r, 'cl, 'hl) proxy_state" where
  "pr_proxy p \<equiv> rs_proxy (pr_reload p)"


definition on_proxy :: "('b, 'r, 'cl, 'hl) proxy_state \<Rightarrow> ('b, 'r, 'cl, 'hl) process \<Rightarrow> ('b, 'r, 'cl, 'hl) process" where
  "on_proxy x p = p\<lparr>pr_reload := (pr_reload p)\<lparr>rs_proxy := x\<rparr>\<rparr>"

text \<open>\<open>startup\<close> is the part of the start that concerns these tasks: load, build, read the denylist, wire.\<close>

definition startup :: "('b, 'r, 'cl, 'hl) deps \<Rightarrow> (u32 \<Rightarrow> 'r) \<Rightarrow> (string \<Rightarrow> string + reduction_config) \<Rightarrow> (string \<Rightarrow> string + revocation_entry list)
    \<Rightarrow> bool \<Rightarrow> nat \<Rightarrow> string \<Rightarrow> tunnel_registry \<Rightarrow> files \<Rightarrow> files \<times> ('b, 'r, 'cl, 'hl) process result" where
  "startup dp limiter from_str rev_from_str rename_ok ts path registry fs =
     (case load_config from_str rename_ok ts path fs of
        (fs, Inl e) \<Rightarrow> (fs, Inl e)
      | (fs, Inr config) \<Rightarrow>
          (fs, bind_res (build_balancing (dp_health dp) limiter config) (\<lambda>bl.
               case setup_revocation_watcher rev_from_str config True fs \<lparr>dl_published = revocation_empty, dl_load_errors = 0\<rparr> of
                 (d, Inl e) \<Rightarrow> Inl e
               | (d, Inr _) \<Rightarrow>
                   Inr \<lparr>pr_startup = config, pr_published = config,
                     pr_reload = \<lparr>rs_proxy = build_proxy_state (dp_cache dp) config registry (dl_published d) bl, rs_reloadable = bl_reloadable bl,
                       rs_denylist = d, rs_prev_routes = cfg_routes config, rs_prev_backends = cfg_backends config, rs_drains = []\<rparr>\<rparr>)))"

text \<open>\<open>world\<close> collects the states in which the tasks may find the file system.\<close>

inductive serving :: "('b, 'r, 'cl, 'hl) deps \<Rightarrow> (u32 \<Rightarrow> 'r) \<Rightarrow> (string \<Rightarrow> string + reduction_config) \<Rightarrow> (string \<Rightarrow> string + revocation_entry list)
    \<Rightarrow> raw_relay_authz \<Rightarrow> files set \<Rightarrow> string \<Rightarrow> ('b, 'r, 'cl, 'hl) process \<Rightarrow> bool"
  for dp limiter from_str rev_from_str authz world path where
  start: "fs \<in> world \<Longrightarrow> startup dp limiter from_str rev_from_str rename_ok ts path registry fs = (fs', Inr p) \<Longrightarrow>
    serving dp limiter from_str rev_from_str authz world path p"
| request: "serving dp limiter from_str rev_from_str authz world path p \<Longrightarrow>
    proxy_handler dp (static_of (pr_startup p)) env now task_ok (Some (ip, ident)) req (pr_proxy p) = (x, response, g) \<Longrightarrow>
    serving dp limiter from_str rev_from_str authz world path (on_proxy x p)"
| response_end: "serving dp limiter from_str rev_from_str authz world path p \<Longrightarrow>
    serving dp limiter from_str rev_from_str authz world path (on_proxy (drop_response_guards (static_of (pr_startup p)) g (pr_proxy p)) p)"
| raw: "serving dp limiter from_str rev_from_str authz world path p \<Longrightarrow>
    handle_raw_stream dp authz renv ip ident \<lparr>rw_proxy = pr_proxy p, rw_active = n, rw_events = evs\<rparr> = (r, rw) \<Longrightarrow>
    serving dp limiter from_str rev_from_str authz world path (on_proxy (rw_proxy rw) p)"
| save: "serving dp limiter from_str rev_from_str authz world path p \<Longrightarrow> fs \<in> world \<Longrightarrow>
    reload_config from_str rename_ok ts receivers path fs (pr_published p) = (fs', config, inert, r) \<Longrightarrow>
    serving dp limiter from_str rev_from_str authz world path (p\<lparr>pr_published := config\<rparr>)"
| reload: "serving dp limiter from_str rev_from_str authz world path p \<Longrightarrow> re_files renv' \<in> world \<Longrightarrow>
    apply_config_reload (dp_cache dp) rev_from_str (tnc_revocation_path (cfg_tunnel (pr_startup p))) renv' (pr_published p) (pr_reload p) = (s, go) \<Longrightarrow>
    serving dp limiter from_str rev_from_str authz world path (p\<lparr>pr_reload := s\<rparr>)"
| denylist: "serving dp limiter from_str rev_from_str authz world path p \<Longrightarrow> tnc_revocation_path (cfg_tunnel (pr_startup p)) = Some rpath \<Longrightarrow> fs \<in> world \<Longrightarrow>
    serving dp limiter from_str rev_from_str authz world path
      (p\<lparr>pr_reload := publish_denylist (on_revocation_change rev_from_str rpath receivers fs (rs_denylist (pr_reload p))) (pr_reload p)\<rparr>)"
| drain: "serving dp limiter from_str rev_from_str authz world path p \<Longrightarrow> addrs \<in> set (rs_drains (pr_reload p)) \<Longrightarrow>
    serving dp limiter from_str rev_from_str authz world path
      (p\<lparr>pr_reload := backend_drain addrs ((pr_reload p)\<lparr>rs_drains := remove1 addrs (rs_drains (pr_reload p))\<rparr>)\<rparr>)"
| health: "serving dp limiter from_str rev_from_str authz world path p \<Longrightarrow>
    serving dp limiter from_str rev_from_str authz world path (on_proxy ((pr_proxy p)\<lparr>ps_health := h\<rparr>) p)"
| shutdown: "serving dp limiter from_str rev_from_str authz world path p \<Longrightarrow>
    serving dp limiter from_str rev_from_str authz world path (on_proxy ((pr_proxy p)\<lparr>ps_shutdown := True\<rparr>) p)"

subsection \<open>The typing of the routing tables\<close>

definition process_typed :: "('b, 'r, 'cl, 'hl) process \<Rightarrow> bool" where
  "process_typed p \<longleftrightarrow> validate (pr_published p) = Inr () \<and> proxy_typed (pr_reload p)"

lemma typed_on_proxy [simp]: "routing x = routing (pr_proxy p) \<Longrightarrow> process_typed (on_proxy x p) = process_typed p"
  by (simp add: process_typed_def proxy_typed_def agrees_def on_proxy_def)

lemma loaded_valid: "load_config from_str rename_ok ts path fs = (fs', Inr c) \<Longrightarrow> validate c = Inr ()"
  by (auto simp: load_config_def bind_res_Inr map_err_def split: prod.splits sum.splits)

lemma balancing_typed:
  assumes "build_balancing ops limiter c = Inr bl" "validate c = Inr ()"
  shows "routes_typed (bl_reloadable bl)"
  using assms by (auto simp: build_balancing_def bind_res_Inr reloadable_typed)

lemma built_agrees: "agrees (build_proxy_state ops c registry rv bl) (bl_reloadable bl) rv"
  by (simp add: agrees_def routing_def build_proxy_state_def Let_def)

lemma startup_cases:
  assumes "startup dp limiter from_str rev_from_str rename_ok ts path registry fs = (fs', Inr p)"
  obtains c bl d where "load_config from_str rename_ok ts path fs = (fs', Inr c)" "build_balancing (dp_health dp) limiter c = Inr bl"
    "setup_revocation_watcher rev_from_str c True fs' \<lparr>dl_published = revocation_empty, dl_load_errors = 0\<rparr> = (d, Inr ())"
    "p = \<lparr>pr_startup = c, pr_published = c, pr_reload = \<lparr>rs_proxy = build_proxy_state (dp_cache dp) c registry (dl_published d) bl,
       rs_reloadable = bl_reloadable bl, rs_denylist = d, rs_prev_routes = cfg_routes c, rs_prev_backends = cfg_backends c, rs_drains = []\<rparr>\<rparr>"
proof -
  obtain c where c: "load_config from_str rename_ok ts path fs = (fs', Inr c)" using assms by (auto simp: startup_def split: prod.splits sum.splits)
  obtain bl where bl: "build_balancing (dp_health dp) limiter c = Inr bl" using assms c by (auto simp: startup_def bind_res_Inr)
  show thesis
    using that [OF c bl] assms c bl
    by (cases "setup_revocation_watcher rev_from_str c True fs' \<lparr>dl_published = revocation_empty, dl_load_errors = 0\<rparr>")
      (auto simp: startup_def split: sum.splits)
qed

lemma startup_typed: "startup dp limiter from_str rev_from_str rename_ok ts path registry fs = (fs', Inr p) \<Longrightarrow> process_typed p"
  by (erule startup_cases) (simp add: process_typed_def proxy_typed_def loaded_valid balancing_typed built_agrees)

lemma saved_valid: "reload_config from_str rename_ok ts receivers path fs c = (fs', c', inert, r) \<Longrightarrow> validate c = Inr () \<Longrightarrow> validate c' = Inr ()"
  by (auto simp: reload_config_def Let_def split: prod.splits sum.splits if_splits)

lemma reload_typed:
  assumes "apply_config_reload ops from_str path env c s = (s', go)" "validate c = Inr ()" "proxy_typed s"
  shows "proxy_typed s'"
  using assms(1)
proof (cases rule: apply_cases)
  case kept
  then show ?thesis using assms(3) by (simp add: reread_typed)
next
  case (applied pools)
  have "ps_revocation (rs_proxy (reread_denylist from_str path env s)) = dl_published (rs_denylist (reread_denylist from_str path env s))"
    using reread_typed [OF assms(3)] by (simp add: proxy_typed_def agrees_def) (simp add: routing_def)
  then show ?thesis using applied reloadable_typed [OF applied(1) assms(2)] by (simp add: proxy_typed_def)
qed

lemma drain_typed [simp]: "proxy_typed (backend_drain addrs s) = proxy_typed s"
  by (simp add: backend_drain_def proxy_typed_def agrees_def Let_def)

lemma serving_typed: "serving dp limiter from_str rev_from_str authz world path p \<Longrightarrow> process_typed p"
proof (induction rule: serving.induct)
  case (request p env now task_ok ip ident req x response g)
  then show ?case using proxy_handler_routing [OF request.hyps(2)] by simp
next
  case (raw p renv ip ident n evs r rw)
  then show ?case using handle_raw_routing [OF raw.hyps(2)] by simp
next
  case (save p rename_ok ts receivers fs fs' config inert r)
  then show ?case using saved_valid [OF save.hyps(3)] by (simp add: process_typed_def)
next
  case (reload p renv' s go)
  then show ?case using reload_typed [OF reload.hyps(3)] by (simp add: process_typed_def)
next
  case (drain p addrs)
  then show ?case by (simp add: process_typed_def) (simp add: proxy_typed_def)
next
  case (denylist p rpath receivers fs)
  then show ?case by (simp add: process_typed_def publish_denylist_typed)
qed (simp_all add: startup_typed, simp_all add: process_typed_def on_proxy_def proxy_typed_def agrees_def routing_def)

subsection \<open>The enforced denylist\<close>

text \<open>The denylist in force parsed from the configured file in some state of the file system; without a file it is empty.\<close>

definition denylist_sound :: "(string \<Rightarrow> string + revocation_entry list) \<Rightarrow> files set \<Rightarrow> ('b, 'r, 'cl, 'hl) process \<Rightarrow> bool" where
  "denylist_sound rev_from_str world p \<longleftrightarrow>
     (\<forall>rpath. tnc_revocation_path (cfg_tunnel (pr_startup p)) = Some rpath \<longrightarrow>
        (\<exists>fs \<in> world. load_revocation_file rev_from_str rpath fs = Inr (dl_published (rs_denylist (pr_reload p)))))"

lemma on_proxy_simps [simp]:
  "pr_startup (on_proxy x p) = pr_startup p" "rs_denylist (pr_reload (on_proxy x p)) = rs_denylist (pr_reload p)"
  by (simp_all add: on_proxy_def)

lemma changed_denylist:
  "dl_published (on_revocation_change from_str path receivers fs d) = dl_published d
   \<or> load_revocation_file from_str path fs = Inr (dl_published (on_revocation_change from_str path receivers fs d))"
  by (auto simp: on_revocation_change_def split: sum.split)

lemma reread_denylist_sound:
  assumes "denylist_sound rev_from_str world p" "re_files env \<in> world"
    "rs_denylist s = rs_denylist (reread_denylist rev_from_str (tnc_revocation_path (cfg_tunnel (pr_startup p))) env (pr_reload p))"
  shows "denylist_sound rev_from_str world (p\<lparr>pr_reload := s\<rparr>)"
proof (cases "tnc_revocation_path (cfg_tunnel (pr_startup p))")
  case (Some rpath)
  then show ?thesis using assms changed_denylist [of rev_from_str rpath "re_rev_receivers env" "re_files env" "rs_denylist (pr_reload p)"]
    by (auto simp: denylist_sound_def reread_denylist_def)
qed (simp add: denylist_sound_def)

lemma apply_denylist:
  "apply_config_reload ops from_str path env config s = (s', go) \<Longrightarrow> rs_denylist s' = rs_denylist (reread_denylist from_str path env s)"
  by (erule apply_cases) simp_all

lemma drain_denylist [simp]: "rs_denylist (backend_drain addrs s) = rs_denylist s"
  by (simp add: backend_drain_def Let_def)

lemma startup_denylist:
  assumes "startup dp limiter from_str rev_from_str rename_ok ts path registry fs = (fs', Inr p)" "fs \<in> world"
  shows "denylist_sound rev_from_str world p"
proof -
  obtain c bl d where c: "load_config from_str rename_ok ts path fs = (fs', Inr c)"
      and d: "setup_revocation_watcher rev_from_str c True fs' \<lparr>dl_published = revocation_empty, dl_load_errors = 0\<rparr> = (d, Inr ())"
      and p: "pr_startup p = c" "rs_denylist (pr_reload p) = d"
    by (rule startup_cases [OF assms(1)]) auto
  have f: "fs' = fs" using c by (auto simp: load_config_def load_or_recover_def bind_res_Inr split: file_node.splits sum.splits if_splits)
  have "load_revocation_file rev_from_str rpath fs = Inr (dl_published d)" if "tnc_revocation_path (cfg_tunnel c) = Some rpath" for rpath
    using that d f by (auto simp: setup_revocation_watcher_def load_initial_def split: sum.splits)
  with assms(2) p show ?thesis unfolding denylist_sound_def by blast
qed

lemma serving_denylist: "serving dp limiter from_str rev_from_str authz world path p \<Longrightarrow> denylist_sound rev_from_str world p"
proof (induction rule: serving.induct)
  case (reload p renv' s go)
  then show ?case using reread_denylist_sound [OF reload.IH reload.hyps(2) apply_denylist [OF reload.hyps(3)]] by simp
next
  case (denylist p rpath fs receivers)
  then show ?case using changed_denylist [of rev_from_str rpath receivers fs "rs_denylist (pr_reload p)"]
    by (auto simp: denylist_sound_def)
qed (auto simp: startup_denylist, auto simp: denylist_sound_def)

lemma typed_revocation: "process_typed p \<Longrightarrow> ps_revocation (pr_proxy p) = dl_published (rs_denylist (pr_reload p))"
  by (simp add: process_typed_def proxy_typed_def agrees_def) (simp add: routing_def)

lemma revoked_refused:
  assumes "is_revoked (ps_revocation s) i" "proxy_handler dp st env start task_ok (Some (ip, Some i)) req s = (s', r, g)"
  shows "sent s' = sent s \<and> g = None \<and> re_status r \<in> {403, 429, 503}"
  using assms
  by (cases "rate_limit_check (dp_check_key dp) ip (ps_limiter s)")
    (auto simp: proxy_handler_def admit_client_def reject_before_routing_def drop_active_def log_event_def error_response_def Let_def split: if_splits)

lemma revoked_unrelayed:
  assumes "is_revoked (ps_revocation (rw_proxy s)) i" "handle_raw_stream dp authz env ip (Some i) s = (r, s')"
  shows "opened s' = opened s"
  using assms(2)
proof (cases rule: handle_raw_cases)
  case (away s1 x)
  then show ?thesis using authorize_opened [OF away(1)] by simp
next
  case (relayed s1 j k pool b br st g p)
  then show ?thesis using authorize_ok [OF relayed(1)] assms(1) by simp
qed

lemma match_route_mem: "match_route rs target = Some m \<Longrightarrow> \<exists>r \<in> set rs. rm_backend_id m = rt_backend_id r"
  by (induction rs) (auto split: if_splits)

subsection \<open>The guarantees\<close>

text \<open>
  Claim C6. The routing tables stay well-typed: in every state a started proxy reaches by requests, relays, saves, reloads, denylist changes and drains in any
  order, resolving a path either finds no route and answers 404, or yields a pool that exists, has backends and holds
  only backends of that pool. The answer 502 for a missing pool is dead code behind the validator.
\<close>
theorem routes_resolve:
  assumes "serving dp limiter from_str rev_from_str authz world path p"
  shows "case resolve_backend_pool (pr_proxy p) target of
      Inl response \<Rightarrow> match_route (ps_router (pr_proxy p)) target = None \<and> response = error_response 404 ''no route matched''
    | Inr r \<Rightarrow> bp_backends (rr_pool r) \<noteq> [] \<and> (\<forall>b \<in> set (bp_backends (rr_pool r)). bc_pool b = rr_backend_id r)"
proof (cases "match_route (ps_router (pr_proxy p)) target")
  case None
  then show ?thesis by (simp add: resolve_backend_pool_def)
next
  case (Some m)
  let ?ro = "rs_reloadable (pr_reload p)"
  have t: "routes_typed ?ro" and a: "ps_router (pr_proxy p) = ro_router ?ro" "ps_pools (pr_proxy p) = map_of (ro_pools ?ro)"
    using serving_typed [OF assms] by (auto simp: process_typed_def proxy_typed_def agrees_def routing_def)
  obtain r where r: "r \<in> set (ro_router ?ro)" "rm_backend_id m = rt_backend_id r" using match_route_mem [OF Some] a by auto
  then obtain pool where pool: "map_of (ro_pools ?ro) (rt_backend_id r) = Some pool" using t by (auto simp: routes_typed_def)
  from map_of_SomeD [OF pool] t have "bp_backends pool \<noteq> [] \<and> (\<forall>b \<in> set (bp_backends pool). bc_pool b = rt_backend_id r)"
    by (auto simp: routes_typed_def)
  then show ?thesis using Some a r pool by (simp add: resolve_backend_pool_def)
qed

text \<open>
  Claim C5. A denied device stays denied: when a denylist is configured and every well-formed denylist ever found in the file denies a device, then in
  every reachable state, however many reads failed and whatever was reloaded in between, no request of that device is
  sent to a backend (the answer is 403, 429 or 503 and nothing is held) and no raw stream of it opens a backend.
\<close>
theorem denied_device_stays_denied:
  assumes "serving dp limiter from_str rev_from_str authz world path p" "tnc_revocation_path (cfg_tunnel (pr_startup p)) = Some rpath"
    and "\<forall>fs \<in> world. \<forall>rv. load_revocation_file rev_from_str rpath fs = Inr rv \<longrightarrow> is_revoked rv i"
    and "proxy_handler dp st env now task_ok (Some (ip, Some i)) req (pr_proxy p) = (x, response, g)"
    and "handle_raw_stream dp authz renv ip (Some i) \<lparr>rw_proxy = pr_proxy p, rw_active = n, rw_events = evs\<rparr> = (r, rw)"
  shows "sent x = sent (pr_proxy p) \<and> g = None \<and> re_status response \<in> {403, 429, 503} \<and> opened rw = opened_of evs"
proof -
  have "is_revoked (ps_revocation (pr_proxy p)) i"
    using serving_denylist [OF assms(1)] typed_revocation [OF serving_typed [OF assms(1)]] assms(2,3) by (auto simp: denylist_sound_def)
  then show ?thesis using revoked_refused [OF _ assms(4)] revoked_unrelayed [OF _ assms(5)] by simp
qed


subsection \<open>A small deployment\<close>

definition demo_config :: reduction_config where
  "demo_config = \<lparr>cfg_listen = \<lparr>lc_address = \<lparr>sa_ip = V4 0x7f000001, sa_port = 8443\<rparr>, lc_transport = Tcp, lc_client_auth = Required\<rparr>,
     cfg_tls = \<lparr>tls_server = Manual \<lparr>tid_cert_path = ''s.crt'', tid_key_path = ''s.key'', tid_ca_cert_path = ''ca.crt'', tid_crl_path = None\<rparr>, tls_client = None\<rparr>,
     cfg_backends = [demo_upstream], cfg_routes = [\<lparr>rc_path_prefix = ''/api'', rc_backend_id = ''p'', rc_timeout_secs = None\<rparr>],
     cfg_balancer = default_balancer_config, cfg_proxy = default_proxy_config, cfg_compression = \<lparr>cpc_enabled = False, cpc_level = 3, cpc_min_bytes = 0\<rparr>,
     cfg_health = \<lparr>hlc_staleness_ttl_secs = 10, hlc_latency_threshold_ms = 100\<rparr>, cfg_access = \<lparr>acc_allow = [], acc_deny = []\<rparr>,
     cfg_ratelimit = default_rate_limit_config, cfg_metrics = None, cfg_circuit_breaker = default_circuit_breaker_config,
     cfg_timeouts = default_timeout_config, cfg_retry = default_retry_config, cfg_tracing = \<lparr>trc_otlp_endpoint = None, trc_sample_ratio = Fin 1\<rparr>,
     cfg_tunnel = default_tunnel_config\<lparr>tnc_revocation_path := Some ''deny''\<rparr>, cfg_cache = default_cache_config, cfg_raw_relay_authz = [], cfg_ingress = [],
     cfg_http_redirect = \<lparr>hrc_enabled = False, hrc_listen = \<lparr>sa_ip = V4 0, sa_port = 80\<rparr>, hrc_to_host = []\<rparr>,
     cfg_health_endpoint = \<lparr>hec_enabled = False, hec_listen = \<lparr>sa_ip = V4 0, sa_port = 81\<rparr>\<rparr>\<rparr>"

text \<open>The denylist names \<open>alice\<close>; later the file is half-written.\<close>

definition demo_from_str :: "string \<Rightarrow> string + reduction_config" where
  "demo_from_str text = (if text = ''cfg'' then Inr demo_config else Inl ''bad'')"

definition demo_rev_from_str :: "string \<Rightarrow> string + revocation_entry list" where
  "demo_rev_from_str text = (if text = ''alice'' then Inr [\<lparr>re_spki = None, re_backend_id = Some ''alice'', re_reason = []\<rparr>] else Inl ''bad'')"

definition demo_files :: "string \<Rightarrow> files" where
  "demo_files deny = (\<lambda>_. Missing)(''c.toml'' := FileText ''cfg'', ''deny'' := FileText deny)"

abbreviation "demo_world \<equiv> {demo_files ''alice'', demo_files ''al''}"

lemma demo_config_valid: "validate demo_config = Inr ()"
  by (simp add: validate_iff topology_ok_def sections_ok_def demo_config_def demo_upstream_def sample_backend_def starts_with_def needs_client_tls_def
      backend_needs_client_tls_def is_plaintext_def default_retry_config_def redirect_ok_def health_endpoint_ok_def barrel_ok_def ca_cert_path_def)

lemma demo_config_simps:
  "cfg_backends demo_config = [demo_upstream]" "cfg_routes demo_config = [\<lparr>rc_path_prefix = ''/api'', rc_backend_id = ''p'', rc_timeout_secs = None\<rparr>]"
  "blc_max_backends (cfg_balancer demo_config) = 64" "rlc_requests_per_second (cfg_ratelimit demo_config) = - 1"
  "tnc_revocation_path (cfg_tunnel demo_config) = Some ''deny''"
  by (simp_all add: demo_config_def default_balancer_config_def default_rate_limit_config_def)

lemma demo_pools: "build_backend_pools demo_config = Inr [(''p'', \<lparr>bp_backends = [demo_upstream]\<rparr>)]"
  by (simp add: build_backend_pools_def demo_config_simps demo_upstream_def sample_backend_def pool_with_max_def MAX_BACKENDS_def HARD_MAX_BACKENDS_def Let_def)

lemma demo_denylist:
  "load_revocation_file demo_rev_from_str ''deny'' (demo_files ''alice'') = Inr \<lparr>rs_spki = {}, rs_backend_ids = {''alice''}\<rparr>"
  "isl (load_revocation_file demo_rev_from_str ''deny'' (demo_files ''al''))"
  by (simp_all add: load_revocation_file_def demo_files_def demo_rev_from_str_def revocation_parse_def revocation_entries_def revocation_step_def
      revocation_empty_def array_string_from_def MAX_BACKEND_ID_LEN_def)

lemma demo_startup:
  "\<exists>p. startup demo_deps (\<lambda>_. ()) demo_from_str demo_rev_from_str True 0 ''c.toml'' (registry_new 8) (demo_files ''alice'') = (demo_files ''alice'', Inr p)
     \<and> pr_startup p = demo_config \<and> rs_prev_routes (pr_reload p) = cfg_routes demo_config
     \<and> ps_router (pr_proxy p) = router_new (cfg_routes demo_config) \<and> ps_pools (pr_proxy p) = [''p'' \<mapsto> \<lparr>bp_backends = [demo_upstream]\<rparr>]"
proof -
  have "load_config demo_from_str True 0 ''c.toml'' (demo_files ''alice'') = (demo_files ''alice'', Inr demo_config)"
    using demo_config_valid by (simp add: load_config_def load_or_recover_def demo_files_def demo_from_str_def map_err_def)
  moreover obtain bl where "build_balancing (dp_health demo_deps) (\<lambda>_. ()) demo_config = Inr bl"
      "bl_reloadable bl = reloadable_of demo_config [(''p'', \<lparr>bp_backends = [demo_upstream]\<rparr>)]"
    by (simp add: build_balancing_def demo_pools rate_limit_new_def demo_config_simps)
  ultimately show ?thesis by (simp add: startup_def setup_revocation_watcher_def load_initial_def demo_denylist demo_config_simps
      build_proxy_state_def reloadable_of_def Let_def)
qed

abbreviation "demo_warm \<equiv> (\<lambda>b :: backend_config. (\<lambda>i :: nat. (pe_view (ae_pool (demo_env 0)), pe_dial (ae_pool (demo_env 0))), ae_pool (demo_env 0)))"

abbreviation "demo_serving \<equiv> serving demo_deps (\<lambda>_. ()) demo_from_str demo_rev_from_str demo_authz demo_world ''c.toml''"

lemma demo_serving:
  "\<exists>p. demo_serving p \<and> pr_startup p = demo_config \<and> rs_prev_routes (pr_reload p) = cfg_routes demo_config
     \<and> ps_router (pr_proxy p) = router_new (cfg_routes demo_config) \<and> ps_pools (pr_proxy p) = [''p'' \<mapsto> \<lparr>bp_backends = [demo_upstream]\<rparr>]"
proof -
  obtain p where p: "startup demo_deps (\<lambda>_. ()) demo_from_str demo_rev_from_str True 0 ''c.toml'' (registry_new 8) (demo_files ''alice'') = (demo_files ''alice'', Inr p)"
      "pr_startup p = demo_config" "rs_prev_routes (pr_reload p) = cfg_routes demo_config" "ps_router (pr_proxy p) = router_new (cfg_routes demo_config)"
      "ps_pools (pr_proxy p) = [''p'' \<mapsto> \<lparr>bp_backends = [demo_upstream]\<rparr>]"
    using demo_startup by blast
  let ?p = "p\<lparr>pr_reload := publish_denylist (on_revocation_change demo_rev_from_str ''deny'' True (demo_files ''al'') (rs_denylist (pr_reload p))) (pr_reload p)\<rparr>"
  have "demo_serving p" by (rule serving.start [OF _ p(1)]) simp
  then have "demo_serving ?p" by (rule serving.denylist) (simp_all add: p demo_config_simps)
  then show ?thesis using p by (intro exI [of _ ?p]) (simp add: publish_denylist_def)
qed

theorem routes_resolve_witness:
  "\<exists>p r. demo_serving p \<and> resolve_backend_pool (pr_proxy p) ''/api/x'' = Inr r \<and> bp_backends (rr_pool r) \<noteq> []"
proof -
  obtain p where p: "demo_serving p" "ps_router (pr_proxy p) = router_new (cfg_routes demo_config)"
      "ps_pools (pr_proxy p) = [''p'' \<mapsto> \<lparr>bp_backends = [demo_upstream]\<rparr>]" using demo_serving by blast
  have "match_route (router_new (cfg_routes demo_config)) ''/api/x'' = Some \<lparr>rm_backend_id = ''p'', rm_timeout_secs = None\<rparr>"
    by (simp add: demo_config_simps) code_simp
  then obtain r where "resolve_backend_pool (pr_proxy p) ''/api/x'' = Inr r" using p by (simp add: resolve_backend_pool_def)
  then show ?thesis using routes_resolve [OF p(1), of "''/api/x''"] p(1) by auto
qed

theorem denied_device_stays_denied_witness:
  "\<exists>p. demo_serving p \<and> (case proxy_handler demo_deps demo_static demo_env 0 True (Some (V4 0x0a000005, Some demo_client)) demo_request (pr_proxy p) of
     (x, response, g) \<Rightarrow> sent x = sent (pr_proxy p) \<and> g = None)"
proof -
  obtain p where p: "demo_serving p" "pr_startup p = demo_config" using demo_serving by blast
  have l: "\<forall>fs \<in> demo_world. \<forall>rv. load_revocation_file demo_rev_from_str ''deny'' fs = Inr rv \<longrightarrow> is_revoked rv demo_client"
    using demo_denylist by (auto simp: is_revoked_def demo_client_def isl_def)
  obtain x response g where h: "proxy_handler demo_deps demo_static demo_env 0 True (Some (V4 0x0a000005, Some demo_client)) demo_request (pr_proxy p) = (x, response, g)"
    by (metis prod_cases3)
  obtain r rw where w: "handle_raw_stream demo_deps demo_authz demo_raw_env (V4 0x0a000005) (Some demo_client) \<lparr>rw_proxy = pr_proxy p, rw_active = 0, rw_events = []\<rparr> = (r, rw)"
    by fastforce
  have "tnc_revocation_path (cfg_tunnel (pr_startup p)) = Some ''deny''" by (simp add: p demo_config_simps)
  from denied_device_stays_denied [OF p(1) this l h w] show ?thesis using p(1) h by auto
qed


end
