(* ===== verification/Tls_Config.thy ===== *)
theory Tls_Config
  imports Acme Serving
begin

section \<open>TLS material and its hot reload (\<open>tls/certs.rs\<close>, \<open>tls/reload.rs\<close>, \<open>tls/reload/*.rs\<close>, \<open>startup/tls.rs\<close>)\<close>

text \<open>
  Certificates, keys, trust anchors and revocation lists are read from files, built into verifiers and resolvers, and swapped in
  place when the files change. PEM parsing and the builders of rustls are parameters in \<open>tls_deps\<close>. The objects that the source shares
  through an \<open>Arc\<close> with a lock (two resolvers and two verifiers) live in \<open>tls_state\<close>; a server or client configuration
  only says which of them it uses. The theorems: whatever the files contain over time, the trust in force is the one last loaded successfully, it
  is never empty, it keeps the authentication policy of the start and enforces the expiry of its revocation lists.
\<close>

subsection \<open>Loading\<close>

text \<open>What \<open>WebPkiClientVerifier\<close> was built from.\<close>

record client_trust =
  ct_roots :: "bytes list"
  ct_crls :: "bytes list"
  ct_enforce_expiration :: bool
  ct_allow_unauthenticated :: bool

record tls_deps =
  td_certs :: "string \<Rightarrow> string + bytes list"
  td_key :: "string \<Rightarrow> string + bytes"
  td_crls :: "string \<Rightarrow> string + bytes list"
  td_anchor :: "bytes \<Rightarrow> string + unit"
  td_provider :: bool
  td_certified :: "bytes list \<Rightarrow> bytes \<Rightarrow> string + unit"
  td_client_builder :: "client_trust \<Rightarrow> string + unit"
  td_server_builder :: "bytes list \<Rightarrow> string + unit"

definition read_text :: "string \<Rightarrow> string \<Rightarrow> files \<Rightarrow> string result" where
  "read_text message path fs =
     (case fs path of FileText c \<Rightarrow> Inr c | _ \<Rightarrow> Inl (Config (ConfigMessage message)))"

definition load_certs :: "tls_deps \<Rightarrow> string \<Rightarrow> files \<Rightarrow> bytes list result" where
  "load_certs td path fs =
     bind_res (read_text ''failed to open cert file'' path fs) (\<lambda>text.
     bind_res (map_err (\<lambda>e. Config (ConfigMessage e)) (td_certs td text)) (\<lambda>certs.
     if certs = [] then Inl (Config (ConfigMessage ''no certificates found'')) else Inr certs))"

definition load_private_key :: "tls_deps \<Rightarrow> string \<Rightarrow> files \<Rightarrow> bytes result" where
  "load_private_key td path fs =
     bind_res (read_text ''failed to open key file'' path fs) (\<lambda>text.
     map_err (\<lambda>e. Config (ConfigMessage e)) (td_key td text))"

definition load_ca_certs :: "tls_deps \<Rightarrow> string \<Rightarrow> files \<Rightarrow> bytes list result" where
  "load_ca_certs td path fs =
     bind_res (load_certs td path fs) (\<lambda>ca_certs.
     fold_res (\<lambda>root_store cert. bind_res (map_err (\<lambda>e. Config (ConfigMessage e)) (td_anchor td cert)) (\<lambda>_. Inr (root_store @ [cert]))) [] ca_certs)"

definition load_crls :: "tls_deps \<Rightarrow> string \<Rightarrow> files \<Rightarrow> bytes list result" where
  "load_crls td path fs =
     bind_res (read_text ''failed to open CRL file'' path fs) (\<lambda>text.
     map_err (\<lambda>e. Config (ConfigMessage e)) (td_crls td text))"

definition build_certified_key :: "tls_deps \<Rightarrow> string \<Rightarrow> string \<Rightarrow> files \<Rightarrow> certified_key result" where
  "build_certified_key td pcert_path pkey_path fs =
     bind_res (load_certs td pcert_path fs) (\<lambda>certs.
     bind_res (load_private_key td pkey_path fs) (\<lambda>key.
     if \<not> td_provider td then Inl (Config (ConfigMessage ''no default crypto provider installed''))
     else bind_res (map_err (\<lambda>e. Config (ConfigMessage e)) (td_certified td certs key)) (\<lambda>_.
     Inr \<lparr>ck_cert = certs, ck_key = key\<rparr>)))"

subsection \<open>Resolvers and verifiers\<close>

record cert_resolver =
  cr_inner :: certified_key
  cr_cert_path :: string
  cr_key_path :: string

definition cert_resolver_new :: "tls_deps \<Rightarrow> string \<Rightarrow> string \<Rightarrow> files \<Rightarrow> cert_resolver result" where
  "cert_resolver_new td pcert_path pkey_path fs =
     bind_res (build_certified_key td pcert_path pkey_path fs) (\<lambda>k.
     Inr \<lparr>cr_inner = k, cr_cert_path = pcert_path, cr_key_path = pkey_path\<rparr>)"

definition cert_resolver_reload :: "tls_deps \<Rightarrow> files \<Rightarrow> cert_resolver \<Rightarrow> cert_resolver \<times> unit result" where
  "cert_resolver_reload td fs r =
     (case build_certified_key td (cr_cert_path r) (cr_key_path r) fs of
        Inl e \<Rightarrow> (r, Inl e)
      | Inr new_key \<Rightarrow> (r\<lparr>cr_inner := new_key\<rparr>, Inr ()))"

definition build_client_verifier :: "tls_deps \<Rightarrow> bytes list \<Rightarrow> bytes list \<Rightarrow> bool \<Rightarrow> client_trust result" where
  "build_client_verifier td roots crls allow_unauthenticated =
     (let v = \<lparr>ct_roots = roots, ct_crls = [], ct_enforce_expiration = False, ct_allow_unauthenticated = False\<rparr>;
          v = (if crls = [] then v else v\<lparr>ct_crls := crls, ct_enforce_expiration := True\<rparr>);
          v = (if allow_unauthenticated then v\<lparr>ct_allow_unauthenticated := True\<rparr> else v)
      in bind_res (map_err (\<lambda>e. Config (ConfigMessage e)) (td_client_builder td v)) (\<lambda>_. Inr v))"

definition load_trust :: "tls_deps \<Rightarrow> string \<Rightarrow> string option \<Rightarrow> bool \<Rightarrow> files \<Rightarrow> client_trust result" where
  "load_trust td ca_path crl_path allow_unauthenticated fs =
     bind_res (load_ca_certs td ca_path fs) (\<lambda>roots.
     bind_res (case crl_path of Some path \<Rightarrow> load_crls td path fs | None \<Rightarrow> Inr []) (\<lambda>crls.
     build_client_verifier td roots crls allow_unauthenticated))"

record client_verifier =
  cv_inner :: client_trust
  cv_ca_cert_path :: string
  cv_crl_path :: "string option"
  cv_allow_unauthenticated :: bool

definition client_verifier_new :: "tls_deps \<Rightarrow> string \<Rightarrow> string option \<Rightarrow> bool \<Rightarrow> files \<Rightarrow> client_verifier result" where
  "client_verifier_new td ca_path crl_path allow_unauthenticated fs =
     bind_res (load_trust td ca_path crl_path allow_unauthenticated fs) (\<lambda>v.
     Inr \<lparr>cv_inner = v, cv_ca_cert_path = ca_path, cv_crl_path = crl_path, cv_allow_unauthenticated = allow_unauthenticated\<rparr>)"

definition client_verifier_reload :: "tls_deps \<Rightarrow> files \<Rightarrow> client_verifier \<Rightarrow> client_verifier \<times> unit result" where
  "client_verifier_reload td fs v =
     (case load_trust td (cv_ca_cert_path v) (cv_crl_path v) (cv_allow_unauthenticated v) fs of
        Inl e \<Rightarrow> (v, Inl e)
      | Inr new \<Rightarrow> (v\<lparr>cv_inner := new\<rparr>, Inr ()))"

definition load_server_trust :: "tls_deps \<Rightarrow> string \<Rightarrow> files \<Rightarrow> bytes list result" where
  "load_server_trust td ca_path fs =
     bind_res (load_ca_certs td ca_path fs) (\<lambda>roots.
     bind_res (map_err (\<lambda>e. Config (ConfigMessage e)) (td_server_builder td roots)) (\<lambda>_. Inr roots))"

record server_verifier =
  sv_inner :: "bytes list"
  sv_ca_cert_path :: string

definition server_verifier_new :: "tls_deps \<Rightarrow> string \<Rightarrow> files \<Rightarrow> server_verifier result" where
  "server_verifier_new td ca_path fs =
     bind_res (load_server_trust td ca_path fs) (\<lambda>v. Inr \<lparr>sv_inner = v, sv_ca_cert_path = ca_path\<rparr>)"

definition server_verifier_reload :: "tls_deps \<Rightarrow> files \<Rightarrow> server_verifier \<Rightarrow> server_verifier \<times> unit result" where
  "server_verifier_reload td fs v =
     (case load_server_trust td (sv_ca_cert_path v) fs of
        Inl e \<Rightarrow> (v, Inl e)
      | Inr new \<Rightarrow> (v\<lparr>sv_inner := new\<rparr>, Inr ()))"

subsection \<open>Configurations (\<open>tls/certs.rs\<close>)\<close>

text \<open>
  A server configuration refers to the shared inbound verifier or asks for no client certificate, and to the reloading resolver or
  to the one of the ACME task.
\<close>

datatype cert_source = ReloadingCert | AcmeCert

record server_config =
  sc_verify_clients :: bool
  sc_cert :: cert_source
  sc_alpn :: "string list"

abbreviation "http_alpn \<equiv> [''h2'', ''http/1.1'']"

definition build_server_config_for_policy :: "tls_deps \<Rightarrow> string \<Rightarrow> string \<Rightarrow> string \<Rightarrow> string option \<Rightarrow> client_auth_policy \<Rightarrow> files
    \<Rightarrow> (server_config \<times> cert_resolver \<times> client_verifier option) result" where
  "build_server_config_for_policy td pcert_path pkey_path ca_path crl_path policy fs =
     bind_res (cert_resolver_new td pcert_path pkey_path fs) (\<lambda>resolver.
     if \<not> builds_verifier policy
     then Inr (\<lparr>sc_verify_clients = False, sc_cert = ReloadingCert, sc_alpn = http_alpn\<rparr>, resolver, None)
     else bind_res (client_verifier_new td ca_path crl_path (\<not> is_mandatory policy) fs) (\<lambda>verifier.
          Inr (\<lparr>sc_verify_clients = True, sc_cert = ReloadingCert, sc_alpn = http_alpn\<rparr>, resolver, Some verifier)))"

definition build_server_config_reloadable :: "tls_deps \<Rightarrow> string \<Rightarrow> string \<Rightarrow> string \<Rightarrow> string option \<Rightarrow> files
    \<Rightarrow> (server_config \<times> cert_resolver \<times> client_verifier) result" where
  "build_server_config_reloadable td pcert_path pkey_path ca_path crl_path fs =
     bind_res (build_server_config_for_policy td pcert_path pkey_path ca_path crl_path Required fs) (\<lambda>(config, resolver, verifier).
     case verifier of
       Some v \<Rightarrow> Inr (config, resolver, v)
     | None \<Rightarrow> Inl (Config (ConfigMessage ''required mTLS produced no client verifier'')))"

definition build_client_config :: "tls_deps \<Rightarrow> string \<Rightarrow> string \<Rightarrow> string \<Rightarrow> files \<Rightarrow> (cert_resolver \<times> server_verifier) result" where
  "build_client_config td pcert_path pkey_path ca_path fs =
     bind_res (cert_resolver_new td pcert_path pkey_path fs) (\<lambda>resolver.
     bind_res (server_verifier_new td ca_path fs) (\<lambda>verifier. Inr (resolver, verifier)))"

definition build_acme_server_config_for_policy :: "tls_deps \<Rightarrow> string option \<Rightarrow> client_auth_policy \<Rightarrow> files
    \<Rightarrow> (server_config \<times> client_verifier option) result" where
  "build_acme_server_config_for_policy td ca_path policy fs =
     (if \<not> builds_verifier policy
      then Inr (\<lparr>sc_verify_clients = False, sc_cert = AcmeCert, sc_alpn = http_alpn\<rparr>, None)
      else case ca_path of
             None \<Rightarrow> Inl (Config (ConfigMessage ''ACME client_auth requires tls.server.acme.ca_cert_path''))
           | Some path \<Rightarrow>
               bind_res (client_verifier_new td path None (\<not> is_mandatory policy) fs) (\<lambda>verifier.
               Inr (\<lparr>sc_verify_clients = True, sc_cert = AcmeCert, sc_alpn = http_alpn\<rparr>, Some verifier)))"

definition build_acme_challenge_config :: server_config where
  "build_acme_challenge_config = \<lparr>sc_verify_clients = False, sc_cert = AcmeCert, sc_alpn = [''acme-tls/1'']\<rparr>"

subsection \<open>The shared objects and their watchers\<close>

record tls_state =
  ts_server_cert :: "cert_resolver option"
  ts_client_cert :: "cert_resolver option"
  ts_inbound :: "client_verifier option"
  ts_outbound :: "server_verifier option"
  ts_reloads :: "string \<Rightarrow> nat"
  ts_load_errors :: "string \<Rightarrow> nat"

abbreviation "TRUST_SIDE_SERVER \<equiv> ''server''"
abbreviation "TRUST_SIDE_CLIENT \<equiv> ''client''"

text \<open>The files whose events the certificate watcher accepts, and its reaction to the winning event of a burst.\<close>

definition cert_triggers :: "cert_resolver \<Rightarrow> cert_resolver option \<Rightarrow> string list" where
  "cert_triggers server_resolver client_resolver =
     [cr_cert_path server_resolver, cr_key_path server_resolver]
     @ (case client_resolver of Some r \<Rightarrow> [cr_cert_path r, cr_key_path r] | None \<Rightarrow> [])"

definition names_resolver :: "string list \<Rightarrow> cert_resolver \<Rightarrow> bool" where
  "names_resolver paths r \<longleftrightarrow> list_ex (\<lambda>p. p = cr_cert_path r \<or> p = cr_key_path r) paths"

definition reload_side :: "tls_deps \<Rightarrow> files \<Rightarrow> string list \<Rightarrow> cert_resolver option \<Rightarrow> cert_resolver option" where
  "reload_side td fs paths side =
     (case side of
        Some r \<Rightarrow> if names_resolver paths r then Some (fst (cert_resolver_reload td fs r)) else Some r
      | None \<Rightarrow> None)"

definition on_cert_event :: "tls_deps \<Rightarrow> files \<Rightarrow> string list \<Rightarrow> tls_state \<Rightarrow> tls_state" where
  "on_cert_event td fs paths s = s\<lparr>ts_server_cert := reload_side td fs paths (ts_server_cert s), ts_client_cert := reload_side td fs paths (ts_client_cert s)\<rparr>"

definition count_reload :: "string \<Rightarrow> unit result \<Rightarrow> tls_state \<Rightarrow> tls_state" where
  "count_reload side r s =
     (case r of
        Inr _ \<Rightarrow> s\<lparr>ts_reloads := (ts_reloads s)(side := ts_reloads s side + 1)\<rparr>
      | Inl _ \<Rightarrow> s\<lparr>ts_load_errors := (ts_load_errors s)(side := ts_load_errors s side + 1)\<rparr>)"

definition on_server_trust_event :: "tls_deps \<Rightarrow> files \<Rightarrow> tls_state \<Rightarrow> tls_state" where
  "on_server_trust_event td fs s =
     (case ts_inbound s of
        None \<Rightarrow> s
      | Some v \<Rightarrow> (case client_verifier_reload td fs v of (v, r) \<Rightarrow> count_reload TRUST_SIDE_SERVER r (s\<lparr>ts_inbound := Some v\<rparr>)))"

definition on_client_trust_event :: "tls_deps \<Rightarrow> files \<Rightarrow> tls_state \<Rightarrow> tls_state" where
  "on_client_trust_event td fs s =
     (case ts_outbound s of
        None \<Rightarrow> s
      | Some v \<Rightarrow> (case server_verifier_reload td fs v of (v, r) \<Rightarrow> count_reload TRUST_SIDE_CLIENT r (s\<lparr>ts_outbound := Some v\<rparr>)))"

subsection \<open>Startup (\<open>startup/tls.rs\<close>)\<close>

text \<open>Setting up a directory watch warns and never fails here, so the watchers are their trigger files; none when nothing is watched.\<close>

record server_tls =
  st_config :: server_config
  st_challenge_config :: "server_config option"
  st_cert_paths :: "string list"
  st_trust_paths :: "string list"

record client_tls =
  cl_resolver :: "cert_resolver option"
  cl_verifier :: "server_verifier option"
  cl_trust_paths :: "string list"

definition build_client_tls :: "tls_deps \<Rightarrow> reduction_config \<Rightarrow> files \<Rightarrow> client_tls result" where
  "build_client_tls td config fs =
     (if \<not> needs_client_tls config then Inr \<lparr>cl_resolver = None, cl_verifier = None, cl_trust_paths = []\<rparr>
      else case tls_client (cfg_tls config) of
             None \<Rightarrow> Inl (Config (ConfigMessage ''a backend requires a TLS client identity but [tls.client] is absent''))
           | Some identity \<Rightarrow>
               bind_res (build_client_config td (tid_cert_path identity) (tid_key_path identity) (tid_ca_cert_path identity) fs) (\<lambda>(resolver, verifier).
               Inr \<lparr>cl_resolver = Some resolver, cl_verifier = Some verifier, cl_trust_paths = [tid_ca_cert_path identity]\<rparr>))"

definition build_manual_server_tls :: "tls_deps \<Rightarrow> tls_identity \<Rightarrow> client_auth_policy \<Rightarrow> cert_resolver option \<Rightarrow> files
    \<Rightarrow> (server_tls \<times> cert_resolver \<times> client_verifier option) result" where
  "build_manual_server_tls td identity policy client_resolver fs =
     bind_res (build_server_config_for_policy td (tid_cert_path identity) (tid_key_path identity) (tid_ca_cert_path identity) (tid_crl_path identity) policy fs)
       (\<lambda>(cfg, resolver, verifier).
        let trust_paths = tid_ca_cert_path identity # (case tid_crl_path identity of Some crl \<Rightarrow> [crl] | None \<Rightarrow> [])
        in Inr (\<lparr>st_config = cfg, st_challenge_config = None, st_cert_paths = cert_triggers resolver client_resolver, st_trust_paths = (if verifier = None then [] else trust_paths)\<rparr>, resolver, verifier))"

text \<open>\<open>provisioned\<close> is the outcome of \<open>provision_initial_cert\<close>.\<close>

definition build_acme_server_tls :: "tls_deps \<Rightarrow> acme_tls_config \<Rightarrow> client_auth_policy \<Rightarrow> unit result \<Rightarrow> files
    \<Rightarrow> (server_tls \<times> client_verifier option) result" where
  "build_acme_server_tls td acme_config policy provisioned fs =
     bind_res (build_acme_server_config_for_policy td (atc_ca_cert_path acme_config) policy fs) (\<lambda>(cfg, verifier).
     let trust_paths = (case atc_ca_cert_path acme_config of Some p \<Rightarrow> [p] | None \<Rightarrow> [])
     in bind_res provisioned (\<lambda>_.
        Inr (\<lparr>st_config = cfg, st_challenge_config = Some build_acme_challenge_config, st_cert_paths = [], st_trust_paths = (if verifier = None then [] else trust_paths)\<rparr>, verifier)))"

definition build_tls_setup :: "tls_deps \<Rightarrow> reduction_config \<Rightarrow> unit result \<Rightarrow> files \<Rightarrow> (tls_state \<times> server_tls \<times> client_tls) result" where
  "build_tls_setup td config provisioned fs =
     bind_res (build_client_tls td config fs) (\<lambda>client.
     let policy = lc_client_auth (cfg_listen config);
         state = \<lparr>ts_server_cert = None, ts_client_cert = cl_resolver client, ts_inbound = None, ts_outbound = cl_verifier client,
           ts_reloads = (\<lambda>_. 0), ts_load_errors = (\<lambda>_. 0)\<rparr>
     in case tls_server (cfg_tls config) of
          Manual identity \<Rightarrow>
            bind_res (build_manual_server_tls td identity policy (cl_resolver client) fs) (\<lambda>(server, resolver, verifier).
            Inr (state\<lparr>ts_server_cert := Some resolver, ts_inbound := verifier\<rparr>, server, client))
        | AcmeServer acme_config \<Rightarrow>
            bind_res (build_acme_server_tls td acme_config policy provisioned fs) (\<lambda>(server, verifier).
            Inr (state\<lparr>ts_inbound := verifier\<rparr>, server, client)))"

subsection \<open>A running process\<close>

text \<open>
  Events reach a watcher only for its trigger files; \<open>paths\<close> are those of the event that won its burst. \<open>world\<close> collects the states in which the
  file system is found.
\<close>

inductive tls_reaches :: "tls_deps \<Rightarrow> reduction_config \<Rightarrow> files set \<Rightarrow> tls_state \<Rightarrow> server_tls \<Rightarrow> client_tls \<Rightarrow> bool"
  for td config world where
  start: "fs \<in> world \<Longrightarrow> build_tls_setup td config provisioned fs = Inr (s, server, client) \<Longrightarrow> tls_reaches td config world s server client"
| certs: "tls_reaches td config world s server client \<Longrightarrow> fs \<in> world \<Longrightarrow> set paths \<inter> set (st_cert_paths server) \<noteq> {} \<Longrightarrow>
    tls_reaches td config world (on_cert_event td fs paths s) server client"
| inbound: "tls_reaches td config world s server client \<Longrightarrow> fs \<in> world \<Longrightarrow> st_trust_paths server \<noteq> [] \<Longrightarrow>
    tls_reaches td config world (on_server_trust_event td fs s) server client"
| outbound: "tls_reaches td config world s server client \<Longrightarrow> fs \<in> world \<Longrightarrow> cl_trust_paths client \<noteq> [] \<Longrightarrow>
    tls_reaches td config world (on_client_trust_event td fs s) server client"

subsection \<open>What loading yields\<close>








lemma policy_simps [simp]: "builds_verifier p \<longleftrightarrow> p \<noteq> Disabled" "is_mandatory p \<longleftrightarrow> p = Required"
  by (simp_all add: builds_verifier_def is_mandatory_def)





lemma count_simps [simp]:
  "ts_inbound (count_reload side r s) = ts_inbound s" "ts_outbound (count_reload side r s) = ts_outbound s"
  by (simp_all add: count_reload_def split: sum.split)






subsection \<open>The guarantees\<close>


text \<open>A verifier after a series of reloads is the one loaded last with success, or the first.\<close>

lemma reload_last_good:
  "cv_inner (fold (\<lambda>fs v. fst (client_verifier_reload td fs v)) hist v) =
     last (cv_inner v # List.map_filter (\<lambda>fs. case load_trust td (cv_ca_cert_path v) (cv_crl_path v) (cv_allow_unauthenticated v) fs of
       Inr t \<Rightarrow> Some t | Inl _ \<Rightarrow> None) hist)"
proof (induction hist arbitrary: v)
  case (Cons fs hist)
  then show ?case
    by (cases "load_trust td (cv_ca_cert_path v) (cv_crl_path v) (cv_allow_unauthenticated v) fs")
      (simp_all add: client_verifier_reload_def List.map_filter_def)
qed (simp add: List.map_filter_def)

subsection \<open>Where hot reload ends\<close>

text \<open>Only the winning event of a burst is examined: a side it does not name keeps its old certificate, also when its files changed in the same burst.\<close>

lemma burst_skips_other_side:
  assumes "ts_server_cert s = Some r" "\<not> names_resolver paths r"
  shows "ts_server_cert (on_cert_event td fs paths s) = Some r"
  using assms by (simp add: on_cert_event_def reload_side_def)

text \<open>With an ACME server certificate no certificate file is watched, so the client identity towards backends never reloads.\<close>

lemma acme_watches_no_certs:
  "build_acme_server_tls td acme policy provisioned fs = Inr (server, verifier) \<Longrightarrow> st_cert_paths server = []"
  by (auto simp: build_acme_server_tls_def bind_res_Inr Let_def)

lemma setup_cert_paths:
  "build_tls_setup td config provisioned fs = Inr (s, server, client) \<Longrightarrow> tls_server (cfg_tls config) = AcmeServer acme \<Longrightarrow> st_cert_paths server = []"
  by (auto simp: build_tls_setup_def bind_res_Inr Let_def dest: acme_watches_no_certs)

lemma acme_client_cert_fixed:
  assumes "tls_reaches td config world s server client" "tls_server (cfg_tls config) = AcmeServer acme"
  shows "ts_client_cert s = cl_resolver client"
proof -
  have "st_cert_paths server = [] \<and> ts_client_cert s = cl_resolver client"
    using assms
  proof (induction rule: tls_reaches.induct)
    case (start fs provisioned s server client)
    then show ?case by (auto simp: build_tls_setup_def bind_res_Inr Let_def dest: acme_watches_no_certs)
  next
    case (inbound s server client fs)
    then show ?case by (auto simp: on_server_trust_event_def count_reload_def split: option.splits prod.splits sum.splits)
  next
    case (outbound s server client fs)
    then show ?case by (auto simp: on_client_trust_event_def count_reload_def split: option.splits prod.splits sum.splits)
  qed simp
  then show ?thesis by simp
qed

subsection \<open>A rotation that goes wrong\<close>




end
