(* ===== verification/Spec2Isabelle.thy ===== *)
theory Spec2Isabelle
  imports Cache Router Ingress_Tcp Registration Compress Pool Tls_Config
begin

text \<open>
  A model of the Reduction reverse proxy and the theorems that make it correct. Paths are relative to \<open>src/src\<close>.

  \<^bold>\<open>The program.\<close> Reduction accepts HTTP requests over TLS, decides whether the client may come in, answers from a
  response cache or routes the request to a pool of backends, picks one backend by weighted rendezvous
  hashing, and forwards with retries under a circuit breaker. Backends are reached by TCP, by QUIC, or through
  tunnels that the backends themselves open and register. Ingress listeners carry raw UDP and TCP traffic through
  those tunnels. A configuration file describes all of it.

  \<^bold>\<open>Theories and source files.\<close>

  \<^item> \<open>Reduction_Prelude\<close>, \<open>F64\<close>, \<open>Net\<close>, \<open>Errors\<close>, \<open>Timed\<close>, \<open>Lru\<close>, \<open>Interfaces\<close>, \<open>Framing\<close>: shared ground. Machine
    words, bytes and strings; IEEE doubles as reals rounded to the 53-bit grid; addresses and networks; \<open>error.rs\<close>;
    calls bounded by a timeout; the contract of the LRU container; the locales of permit pools, gates and framed streams.
  \<^item> \<open>Config_Types\<close>, \<open>Config\<close>: \<open>config/types/*.rs\<close>, \<open>config/types.rs\<close>, \<open>config/mod.rs\<close>. Every section is a record, every
    check a function into an error sum; \<open>load_or_recover\<close> works on an explicit file system.
  \<^item> \<open>Circuit\<close>: \<open>circuit.rs\<close>. Breakers live in a store of references, because guards outlive map entries.
  \<^item> \<open>Identity\<close>, \<open>Access\<close>: \<open>tls/identity.rs\<close>, \<open>tunnel/revocation.rs\<close>, \<open>proxy/raw_authz.rs\<close>, \<open>acl.rs\<close>, \<open>ratelimit.rs\<close>, \<open>retry.rs\<close>.
  \<^item> \<open>Health\<close>, \<open>Balancer\<close>: \<open>health/*.rs\<close>, \<open>balancer/*.rs\<close>.
  \<^item> \<open>Http\<close>, \<open>Cache\<close>, \<open>Router\<close>: \<open>proxy/handler/headers.rs\<close>, \<open>policy.rs\<close>, \<open>cache_control.rs\<close>, \<open>cache.rs\<close>, \<open>proxy/router.rs\<close>,
    \<open>redirect.rs\<close>, \<open>health_endpoint.rs\<close>.
  \<^item> \<open>Compress\<close>, \<open>Bodies\<close>: \<open>proxy/compress_body.rs\<close>, \<open>compression.rs\<close>, \<open>proxy/handler/body.rs\<close>, \<open>proxy/guarded_body.rs\<close>.
  \<^item> \<open>Pool\<close>: \<open>proxy/pool.rs\<close> and its parts for QUIC and cleartext.
  \<^item> \<open>Handler\<close>, \<open>Handler_Props\<close>: \<open>proxy/handler.rs\<close> and \<open>proxy/handler/*\<close>, the composition of the components above.
  \<^item> \<open>Tunnel_Protocol\<close>, \<open>Registry\<close>, \<open>Registration\<close>: \<open>tunnel/protocol.rs\<close>, \<open>tunnel/registry.rs\<close>, \<open>tunnel/listener.rs\<close> and
    \<open>tunnel/listener/registration.rs\<close>.
  \<^item> \<open>Ingress_Protocol\<close>, \<open>Ingress_Batch\<close>, \<open>Ingress_Udp\<close>, \<open>Ingress_Tcp\<close>: \<open>ingress/*.rs\<close>.
  \<^item> \<open>Relay\<close>, \<open>Raw_Relay\<close>: \<open>proxy/relay.rs\<close>, \<open>proxy/raw_relay.rs\<close> and \<open>proxy/raw_relay/*\<close>, byte relays with their idle watchdog and
    the admission and lifetime of raw streams.
  \<^item> \<open>Fs_Watch\<close>, \<open>Reload\<close>, \<open>Serving\<close>: \<open>fs_watch.rs\<close>, \<open>config/watcher.rs\<close>, \<open>tunnel/revocation_reload.rs\<close>, \<open>config_reload.rs\<close>,
    \<open>startup/balancing.rs\<close> and the corresponding part of \<open>startup/mod.rs\<close>; \<open>Serving\<close> interleaves requests, relays, reloads and drains of one process.
  \<^item> \<open>Acme\<close>, \<open>Tls_Config\<close>: \<open>tls/acme.rs\<close>, \<open>tls/secret_state.rs\<close>, \<open>tls/certs.rs\<close>, \<open>tls/reload.rs\<close> with its two verifiers, and \<open>startup/tls.rs\<close>.

  \<^bold>\<open>What the lemmas show.\<close>

  \<^item> Requests (\<open>Handler_Props\<close>): refused clients reach nothing; forwarded requests carry the proven identity and no forged field;
    the number of sends respects the retry budget; every permit, probe and queue slot is given back on every path.
  \<^item> Breakers (\<open>Circuit\<close>): the implementation refines the textbook automaton, probes are bounded also under interleaving, and a stale guard breaks it.
  \<^item> Configuration and reload (\<open>Config\<close>, \<open>Reload\<close>, \<open>Serving\<close>, \<open>Fs_Watch\<close>): what validation accepts; every route of a serving
    proxy resolves; a reload applies whole or not at all; a denied device stays denied; a burst of file events causes one reload, of the last.
  \<^item> Certificates (\<open>Tls_Config\<close>, \<open>Acme\<close>): trust is never emptied, the start serves a valid certificate or fails, failing renewals are paced, the
    file store loses nothing.
  \<^item> Selection, cache and routing (\<open>Balancer\<close>, \<open>Cache\<close>, \<open>Router\<close>): choices are stable under failure of others, hits are fresh and belong to the
    asking identity, the longest prefix wins.
  \<^item> Tunnels and ingress (\<open>Registry\<close>, \<open>Registration\<close>, \<open>Ingress_*\<close>, \<open>*_Protocol\<close>): registration is sound against concurrent revocation, caps hold, round robin
    reaches every session, counters account for every datagram and connection, frames arrive in order.
  \<^item> Streams (\<open>Compress\<close>, \<open>Pool\<close>, \<open>Relay\<close>, \<open>Raw_Relay\<close>): a compressed body ends, pooled connections stay with their host, relays end exactly after the idle
    time, raw streams pass every gate and end when their identity is revoked.

  \<^bold>\<open>Conventions.\<close> A struct is a record, an enum a datatype, \<open>Result\<close> a sum with the error on the left. Instants and durations
  are nanoseconds as natural numbers; the clock is an argument. Third-party code (TLS, QUIC, zstd, bitcode, TOML, the LRU
  container, the limiter) is a parameter; what is relied on is a named predicate such as \<open>lru_doc\<close> or
  \<open>zs_doc\<close>, and each is shown satisfiable on a concrete instance. The answers of the network are
  arguments of the operation that asks. Concurrency appears where the code must survive it: as explicit interleavings of
  atomic steps for the half-open gate and for registration against revocation, and as step
  relations for the file watcher, the relay's watchers, the serving process and the TLS state.

  \<^bold>\<open>Bounds and loops.\<close> Loops over data are structural. Loops that wait for the world recurse over the list of its answers, so a run
  is as long as that list and every theorem holds for all lengths; a prefix of an endless loop is a shorter list. The loops around the encoder in
  \<open>Compress\<close> are partial functions whose value \<open>None\<close> means that they do not return; its theorem shows that they do, and how many polls drain a body. Words keep their width where the code computes
  with them; the \<open>usize\<close> of a length is a natural number.

  \<^bold>\<open>Not modelled.\<close> Accept loops and handshakes (\<open>transport/*.rs\<close>): sockets, rustls and quinn; their results are inputs of the handlers.
  \<open>startup/serve.rs\<close> and the spawning of tasks in \<open>startup/background.rs\<close>: the runtime, signals and axum. Waiting for a woken
  backend (\<open>attempt/wake.rs\<close>, the waits of \<open>tunnel/registry.rs\<close>): whether it became reachable in time is an answer of the environment.
  \<open>metrics.rs\<close> and \<open>tracing_init.rs\<close>: registration of instruments; log messages and metric labels are left out throughout, counters that a
  property needs are state. A handler is one step of \<open>Serving\<close>, so an answer computed under old routes and stored in the cache after a concurrent
  flush is outside that model. \<open>balancer/jitter.rs\<close> is in no module tree. Examples, benchmarks and tests are not part of the program.
\<close>

end
